(* ===== verification/Prelude.thy ===== *)
theory Prelude
  imports Main
begin

text \<open>
  Shared vocabulary of the development.

  Go errors are values: \<open>go_error\<close> has one constructor per error value that the code
  compares by identity and one for errors that only carry a text.  A Go function returning
  \<open>(T, error)\<close> becomes a function into \<open>'a res\<close>, and one that also changes state
  returns the result together with the new state.

  The second half holds the reference definition of "keep the first occurrence of each
  element", which several loops of the program compute with a \<open>seen\<close> map, and the list
  lemmas that the components share.
\<close>

section \<open>Errors as values\<close>

datatype go_error =
    ErrNew string                \<comment> \<open>\<open>errors.New\<close>, \<open>fmt.Errorf\<close>, errors of drivers\<close>
  | ErrNoRows                    \<comment> \<open>\<open>sql.ErrNoRows\<close>\<close>
  | ErrSeedAlreadyProcessed      \<comment> \<open>\<open>errSeedAlreadyProcessed\<close>\<close>

type_synonym 'a res = "go_error + 'a"

abbreviation Ok :: "'a \<Rightarrow> 'a res" where
  "Ok x \<equiv> Inr x"

abbreviation Fail :: "string \<Rightarrow> 'a res" where
  "Fail msg \<equiv> Inl (ErrNew msg)"

fun error_text :: "go_error \<Rightarrow> string" where
  "error_text (ErrNew s) = s"
| "error_text ErrNoRows = ''sql: no rows in result set''"
| "error_text ErrSeedAlreadyProcessed = ''seed url already processed''"

definition is_ok :: "'a res \<Rightarrow> bool" where
  "is_ok r \<longleftrightarrow> (case r of Inl _ \<Rightarrow> False | Inr _ \<Rightarrow> True)"

lemma is_ok_simps [simp]: "is_ok (Inr x)" "\<not> is_ok (Inl e)"
  by (simp_all add: is_ok_def)

section \<open>Operations on a state\<close>

text \<open>
  An operation that may fail and changes a state.  \<open>andthen f k\<close> is the code's
  \<open>x, err := f(); if err != nil { return err }\<close> followed by \<open>k x\<close>.
\<close>

type_synonym ('a, 's) action = "'s \<Rightarrow> 'a res \<times> 's"

definition andthen :: "('a, 's) action \<Rightarrow> ('a \<Rightarrow> ('b, 's) action) \<Rightarrow> ('b, 's) action" where
  "andthen f k s =
     (case f s of
        (Inl err, s') \<Rightarrow> (Inl err, s')
      | (Inr x, s') \<Rightarrow> k x s')"

text \<open>\<open>_ = f()\<close>: the result is thrown away.\<close>

definition ignoring :: "('a, 's) action \<Rightarrow> 's \<Rightarrow> 's" where
  "ignoring f s = snd (f s)"

lemma andthen_Ok_iff:
  "andthen f k s = (Inr y, s') \<longleftrightarrow> (\<exists>x s1. f s = (Inr x, s1) \<and> k x s1 = (Inr y, s'))"
  by (auto simp: andthen_def split: prod.splits sum.splits)

lemma andthen_Inl: "f s = (Inl err, s1) \<Longrightarrow> andthen f k s = (Inl err, s1)"
  by (simp add: andthen_def)

lemma andthen_Inr: "f s = (Inr x, s1) \<Longrightarrow> andthen f k s = k x s1"
  by (simp add: andthen_def)

text \<open>\<open>keeps I f\<close>: from states with \<open>I\<close> the operation leads to states with \<open>I\<close>, whatever it returns.\<close>

named_theorems keeps_intros

definition keeps :: "('s \<Rightarrow> bool) \<Rightarrow> ('a, 's) action \<Rightarrow> bool" where
  "keeps I f \<longleftrightarrow> (\<forall>s. I s \<longrightarrow> I (snd (f s)))"

lemma keepsI: "(\<And>s. I s \<Longrightarrow> I (snd (f s))) \<Longrightarrow> keeps I f"
  by (simp add: keeps_def)

lemma keepsD: "keeps I f \<Longrightarrow> I s \<Longrightarrow> I (snd (f s))"
  by (simp add: keeps_def)

lemma keeps_return [keeps_intros]: "keeps I (\<lambda>s. (r, s))"
  by (simp add: keeps_def)

lemma keeps_andthen [keeps_intros]:
  "keeps I f \<Longrightarrow> (\<And>x. keeps I (k x)) \<Longrightarrow> keeps I (andthen f k)"
  by (fastforce simp: keeps_def andthen_def split: prod.splits sum.splits)

lemma keeps_andthen_result:
  "keeps I f \<Longrightarrow> (\<And>x s s'. f s = (Inr x, s') \<Longrightarrow> keeps I (k x)) \<Longrightarrow> keeps I (andthen f k)"
  by (fastforce simp: keeps_def andthen_def split: prod.splits sum.splits)

lemma keeps_if [keeps_intros]: "(b \<Longrightarrow> keeps I f) \<Longrightarrow> (\<not> b \<Longrightarrow> keeps I g) \<Longrightarrow> keeps I (if b then f else g)"
  by simp

section \<open>Keeping first occurrences\<close>

text \<open>
  \<open>first_occ seen xs\<close> keeps, in order, each element of \<open>xs\<close> that is not in \<open>seen\<close>
  and did not occur earlier in \<open>xs\<close>.
\<close>

fun first_occ :: "'a list \<Rightarrow> 'a list \<Rightarrow> 'a list" where
  "first_occ seen [] = []"
| "first_occ seen (x # xs) =
     (if x \<in> set seen then first_occ seen xs else x # first_occ (x # seen) xs)"

lemma set_first_occ [simp]: "set (first_occ seen xs) = set xs - set seen"
  by (induction seen xs rule: first_occ.induct) auto

lemma distinct_first_occ [simp]: "distinct (first_occ seen xs)"
  by (induction seen xs rule: first_occ.induct) auto

lemma first_occ_cong: "set seen = set seen' \<Longrightarrow> first_occ seen xs = first_occ seen' xs"
proof (induction xs arbitrary: seen seen')
  case Nil
  then show ?case by simp
next
  case (Cons x xs)
  have "set (x # seen) = set (x # seen')" using Cons.prems by simp
  then have "first_occ (x # seen) xs = first_occ (x # seen') xs" by (rule Cons.IH)
  moreover have "first_occ seen xs = first_occ seen' xs" by (rule Cons.IH [OF Cons.prems])
  ultimately show ?case using Cons.prems by simp
qed

lemma first_occ_id:
  "distinct xs \<Longrightarrow> set xs \<inter> set seen = {} \<Longrightarrow> first_occ seen xs = xs"
  by (induction seen xs rule: first_occ.induct) auto

lemma first_occ_idem [simp]: "first_occ [] (first_occ seen xs) = first_occ seen xs"
  by (rule first_occ_id) simp_all

lemma first_occ_append:
  "first_occ seen (xs @ ys) = first_occ seen xs @ first_occ (xs @ seen) ys"
proof (induction seen xs rule: first_occ.induct)
  case (1 seen)
  show ?case by simp
next
  case (2 seen x xs)
  have "first_occ (x # xs @ seen) ys = first_occ (xs @ x # seen) ys"
    by (rule first_occ_cong) auto
  moreover have "x \<in> set seen \<Longrightarrow> first_occ (x # xs @ seen) ys = first_occ (xs @ seen) ys"
    by (rule first_occ_cong) auto
  ultimately show ?case using 2 by auto
qed

lemma length_first_occ: "length (first_occ seen xs) \<le> length xs"
  by (induction seen xs rule: first_occ.induct) auto

lemma first_occ_seen_app: "first_occ (seen @ seen') xs = filter (\<lambda>x. x \<notin> set seen') (first_occ seen xs)"
proof (induction seen xs rule: first_occ.induct)
  case (1 seen)
  show ?case by simp
next
  case (2 seen x xs)
  show ?case
  proof (cases "x \<in> set seen \<or> x \<notin> set seen'")
    case True
    with 2 show ?thesis by auto
  next
    case False
    have "first_occ (x # seen @ seen') xs = first_occ (seen @ seen') xs"
      by (rule first_occ_cong) (use False in auto)
    moreover have "first_occ ((x # seen) @ seen') xs = first_occ (x # seen @ seen') xs" by simp
    ultimately show ?thesis using False 2 by auto
  qed
qed

lemma first_occ_local:
  "(\<And>u. u \<in> set us \<Longrightarrow> u \<in> set xs \<longleftrightarrow> u \<in> set ys) \<Longrightarrow> first_occ xs us = first_occ ys us"
proof (induction us arbitrary: xs ys)
  case Nil
  then show ?case by simp
next
  case (Cons u us)
  have "first_occ (u # xs) us = first_occ (u # ys) us" by (rule Cons.IH) (use Cons.prems in auto)
  moreover have "first_occ xs us = first_occ ys us" by (rule Cons.IH) (use Cons.prems in auto)
  ultimately show ?case using Cons.prems [of u] by simp
qed

lemma filter_first_occ: "filter P (first_occ seen xs) = first_occ seen (filter P xs)"
proof (induction seen xs rule: first_occ.induct)
  case (1 seen)
  show ?case by simp
next
  case (2 seen x xs)
  have "first_occ (x # seen) (filter P xs) = first_occ seen (filter P xs)" if "\<not> P x"
    by (rule first_occ_local) (use that in auto)
  then show ?case using 2 by auto
qed

lemma first_occ_self [simp]: "first_occ seen (first_occ seen xs) = first_occ seen xs"
  by (rule first_occ_id) auto

text \<open>The reference list is the library's \<open>remdups\<close> read from the other end.\<close>

lemma first_occ_snoc:
  "first_occ seen (xs @ [x]) = first_occ seen xs @ (if x \<in> set xs \<union> set seen then [] else [x])"
  by (simp add: first_occ_append)

lemma first_occ_remdups: "first_occ [] xs = rev (remdups (rev xs))"
  by (induction xs rule: rev_induct) (auto simp: first_occ_snoc)

section \<open>Lists\<close>

lemma filter_map_update:
  assumes "\<And>x. x \<in> set xs \<Longrightarrow> P (f x) = P x"
  shows "filter P (map f xs) = map f (filter P xs)"
  using assms by (induction xs) auto

lemma distinct_map_inj_on_key:
  "distinct (map k xs) \<Longrightarrow> x \<in> set xs \<Longrightarrow> y \<in> set xs \<Longrightarrow> k x = k y \<Longrightarrow> x = y"
  by (metis distinct_map inj_onD)

lemma map_key_update [simp]:
  "(\<And>x. k (f x) = k x) \<Longrightarrow> map k (map f xs) = map k xs"
  by simp

end
