(* ===== verification/GoStrings.thy ===== *)
theory GoStrings
  imports Prelude
begin

text \<open>
  The parts of Go's packages \<open>strings\<close> and \<open>path\<close> that the program calls.  A Go string is a
  sequence of bytes, here a \<open>char list\<close>.  Case mapping and white space are those of ASCII;
  Go's tables for letters and spaces outside ASCII are not modelled.

  \<open>path.Clean\<close> is modelled on the slash-separated segments of the path (its documented
  rewriting rules, applied segment by segment with a stack).  The lemmas show that it is
  idempotent and that a rooted path stays rooted and contains neither empty nor dot segments.
\<close>

section \<open>Package strings\<close>

definition lower_char :: "char \<Rightarrow> char" where
  "lower_char c = (let n = (of_char c :: nat) in if 65 \<le> n \<and> n \<le> 90 then char_of (n + 32) else c)"

definition upper_char :: "char \<Rightarrow> char" where
  "upper_char c = (let n = (of_char c :: nat) in if 97 \<le> n \<and> n \<le> 122 then char_of (n - 32) else c)"

definition to_lower :: "string \<Rightarrow> string" where
  "to_lower s = map lower_char s"

definition to_upper :: "string \<Rightarrow> string" where
  "to_upper s = map upper_char s"

definition equal_fold :: "string \<Rightarrow> string \<Rightarrow> bool" where
  "equal_fold a b \<longleftrightarrow> to_lower a = to_lower b"

definition is_space :: "char \<Rightarrow> bool" where
  "is_space c \<longleftrightarrow> (of_char c :: nat) \<in> {9, 10, 11, 12, 13, 32}"

definition trim_space :: "string \<Rightarrow> string" where
  "trim_space s = rev (dropWhile is_space (rev (dropWhile is_space s)))"

definition has_prefix :: "string \<Rightarrow> string \<Rightarrow> bool" where
  "has_prefix s p \<longleftrightarrow> take (length p) s = p"

definition has_suffix :: "string \<Rightarrow> string \<Rightarrow> bool" where
  "has_suffix s suf \<longleftrightarrow> length suf \<le> length s \<and> drop (length s - length suf) s = suf"

definition trim_suffix :: "string \<Rightarrow> string \<Rightarrow> string" where
  "trim_suffix s suf = (if has_suffix s suf then take (length s - length suf) s else s)"

fun contains :: "string \<Rightarrow> string \<Rightarrow> bool" where
  "contains [] sub = (sub = [])"
| "contains (c # s) sub = (has_prefix (c # s) sub \<or> contains s sub)"

text \<open>\<open>strings.Cut\<close> at a one-byte separator: before, after, found.\<close>

fun cut :: "char \<Rightarrow> string \<Rightarrow> string \<times> string \<times> bool" where
  "cut c [] = ([], [], False)"
| "cut c (x # xs) =
     (if x = c then ([], xs, True)
      else (case cut c xs of (b, a, f) \<Rightarrow> (x # b, a, f)))"

text \<open>The part after the last occurrence of a byte and the part before it.\<close>

definition cut_last :: "char \<Rightarrow> string \<Rightarrow> (string \<times> string) option" where
  "cut_last c s =
     (case cut c (rev s) of (b, a, f) \<Rightarrow> if f then Some (rev a, rev b) else None)"

lemma length_to_lower [simp]: "length (to_lower s) = length s"
  by (simp add: to_lower_def)

lemma to_lower_append [simp]: "to_lower (s @ t) = to_lower s @ to_lower t"
  by (simp add: to_lower_def)

lemma to_lower_Nil [simp]: "to_lower [] = []"
  by (simp add: to_lower_def)

lemma to_lower_Cons: "to_lower (c # s) = lower_char c # to_lower s"
  by (simp add: to_lower_def)

lemma to_lower_eq_Nil [simp]: "to_lower s = [] \<longleftrightarrow> s = []"
  by (simp add: to_lower_def)

lemma lower_char_idem [simp]: "lower_char (lower_char c) = lower_char c"
  by (simp add: lower_char_def Let_def of_char_of)

lemma to_lower_idem [simp]: "to_lower (to_lower s) = to_lower s"
  by (simp add: to_lower_def)

lemma has_suffixE: "has_suffix s suf \<Longrightarrow> \<exists>p. s = p @ suf"
  unfolding has_suffix_def by (metis append_take_drop_id)

lemma has_suffix_append [simp]: "has_suffix (p @ suf) suf"
  by (simp add: has_suffix_def)

lemma has_suffix_iff: "has_suffix s suf \<longleftrightarrow> (\<exists>p. s = p @ suf)"
  using has_suffixE by fastforce

lemma trim_suffix_append [simp]: "trim_suffix (p @ suf) suf = p"
  by (simp add: trim_suffix_def)

lemma trim_suffix_id: "\<not> has_suffix s suf \<Longrightarrow> trim_suffix s suf = s"
  by (simp add: trim_suffix_def)

lemma has_prefix_iff: "has_prefix s p \<longleftrightarrow> (\<exists>t. s = p @ t)"
  unfolding has_prefix_def by (metis append_take_drop_id append_eq_conv_conj)

lemma has_prefix_append [simp]: "has_prefix (p @ t) p"
  by (simp add: has_prefix_def)

lemma contains_iff: "contains s sub \<longleftrightarrow> (\<exists>a b. s = a @ sub @ b)"
proof (induction s)
  case Nil
  then show ?case by simp
next
  case (Cons c s)
  show ?case
  proof
    assume "contains (c # s) sub"
    then show "\<exists>a b. c # s = a @ sub @ b"
      using Cons.IH by (auto simp: has_prefix_iff) (metis append_Cons append_Nil)+
  next
    assume "\<exists>a b. c # s = a @ sub @ b"
    then obtain a b where e: "c # s = a @ sub @ b" by blast
    show "contains (c # s) sub"
    proof (cases a)
      case Nil
      with e have "has_prefix (c # s) sub" by (auto simp: has_prefix_iff)
      then show ?thesis by simp
    next
      case (Cons x a')
      with e have "s = a' @ sub @ b" by simp
      with Cons.IH show ?thesis by auto
    qed
  qed
qed

lemma trim_space_Nil [simp]: "trim_space [] = []"
  by (simp add: trim_space_def)

lemma trim_space_ends:
  "trim_space s \<noteq> [] \<Longrightarrow> \<not> is_space (hd (trim_space s)) \<and> \<not> is_space (last (trim_space s))"
proof -
  assume ne: "trim_space s \<noteq> []"
  let ?t = "dropWhile is_space s"
  let ?u = "dropWhile is_space (rev ?t)"
  have u: "?u \<noteq> []" using ne by (simp add: trim_space_def)
  then have "\<not> is_space (hd ?u)" by (rule hd_dropWhile)
  moreover have "last (trim_space s) = hd ?u" using u by (simp add: trim_space_def last_rev)
  moreover have "hd (trim_space s) = hd ?t"
  proof -
    obtain v where v: "rev ?t = v @ ?u" by (metis takeWhile_dropWhile_id)
    then have "?t = rev ?u @ rev v" by (metis rev_append rev_rev_ident)
    then have "hd ?t = hd (rev ?u)" using u by (metis hd_append2 rev_is_Nil_conv)
    then show ?thesis by (simp add: trim_space_def)
  qed
  moreover have "?t \<noteq> []" using u by (metis dropWhile.simps(1) rev.simps(1))
  then have "\<not> is_space (hd ?t)" by (rule hd_dropWhile)
  ultimately show ?thesis by simp
qed

lemma dropWhile_id: "xs = [] \<or> \<not> P (hd xs) \<Longrightarrow> dropWhile P xs = xs"
  by (cases xs) auto

lemma trim_space_id:
  "s = [] \<or> (\<not> is_space (hd s) \<and> \<not> is_space (last s)) \<Longrightarrow> trim_space s = s"
  by (cases "s = []") (simp_all add: trim_space_def dropWhile_id hd_rev)

lemma trim_space_idem [simp]: "trim_space (trim_space s) = trim_space s"
  using trim_space_ends trim_space_id by blast

lemma cut_notin: "c \<notin> set s \<Longrightarrow> cut c s = (s, [], False)"
  by (induction s) auto

lemma cut_append: "c \<notin> set b \<Longrightarrow> cut c (b @ c # a) = (b, a, True)"
  by (induction b) auto

lemma cut_last_notin: "c \<notin> set s \<Longrightarrow> cut_last c s = None"
  by (simp add: cut_last_def cut_notin)

lemma cut_last_append: "c \<notin> set a \<Longrightarrow> cut_last c (b @ c # a) = Some (b, a)"
  by (simp add: cut_last_def cut_append)

section \<open>Package path\<close>

text \<open>\<open>strings.Split(p, "/")\<close> and \<open>strings.Join(segs, "/")\<close>.\<close>

fun split_on :: "char \<Rightarrow> string \<Rightarrow> string list" where
  "split_on c [] = [[]]"
| "split_on c (x # xs) =
     (if x = c then [] # split_on c xs
      else (case split_on c xs of
              [] \<Rightarrow> [[x]]
            | s # ss \<Rightarrow> (x # s) # ss))"

fun join_with :: "string \<Rightarrow> string list \<Rightarrow> string" where
  "join_with sep [] = []"
| "join_with sep [s] = s"
| "join_with sep (s # t # ss) = s @ sep @ join_with sep (t # ss)"

text \<open>One pass over the segments; the stack holds the output's segments, innermost first.\<close>

fun clean_segs :: "bool \<Rightarrow> string list \<Rightarrow> string list \<Rightarrow> string list" where
  "clean_segs rooted stack [] = rev stack"
| "clean_segs rooted stack (s # ss) =
     (if s = '''' \<or> s = ''.'' then clean_segs rooted stack ss
      else if s = ''..'' then
        (case stack of
           [] \<Rightarrow> (if rooted then clean_segs rooted [] ss else clean_segs rooted [''..''] ss)
         | seg # rest \<Rightarrow>
             (if seg = ''..'' then clean_segs rooted (''..'' # stack) ss
              else clean_segs rooted rest ss))
      else clean_segs rooted (s # stack) ss)"

definition path_clean :: "string \<Rightarrow> string" where
  "path_clean p =
     (if p = '''' then ''.''
      else let rooted = (hd p = CHR ''/'');
               out = join_with ''/'' (clean_segs rooted [] (split_on (CHR ''/'') p))
           in if rooted then ''/'' @ out
              else if out = '''' then ''.'' else out)"

text \<open>\<open>path.Ext\<close>: from the last dot of the last element, or empty.\<close>

fun ext_rev :: "string \<Rightarrow> string \<Rightarrow> string" where
  "ext_rev acc [] = ''''"
| "ext_rev acc (c # cs) =
     (if c = CHR ''/'' then ''''
      else if c = CHR ''.'' then c # acc
      else ext_rev (c # acc) cs)"

definition path_ext :: "string \<Rightarrow> string" where
  "path_ext p = ext_rev [] (rev p)"

subsection \<open>Splitting and joining\<close>

lemma split_on_ne [simp]: "split_on c s \<noteq> []"
  by (induction s) (auto split: list.splits)

lemma split_on_notin: "c \<notin> set s \<Longrightarrow> split_on c s = [s]"
  by (induction s) auto

lemma split_on_no_sep: "s \<in> set (split_on c p) \<Longrightarrow> c \<notin> set s"
proof (induction p arbitrary: s)
  case Nil
  then show ?case by simp
next
  case (Cons x p)
  obtain t ts where sp: "split_on c p = t # ts" by (cases "split_on c p") simp_all
  then have "c \<notin> set t" and "\<And>u. u \<in> set ts \<Longrightarrow> c \<notin> set u" using Cons.IH by auto
  with Cons.prems sp show ?case by (auto split: if_splits)
qed

lemma split_on_append: "c \<notin> set s \<Longrightarrow> split_on c (s @ c # p) = s # split_on c p"
  by (induction s) auto

lemma split_join:
  "segs \<noteq> [] \<Longrightarrow> \<forall>s \<in> set segs. c \<notin> set s \<Longrightarrow> split_on c (join_with [c] segs) = segs"
proof (induction segs)
  case Nil
  then show ?case by simp
next
  case (Cons s segs)
  then show ?case
    by (cases segs) (simp_all add: split_on_notin split_on_append)
qed

lemma join_with_eq_Nil:
  "\<forall>s \<in> set segs. s \<noteq> [] \<Longrightarrow> join_with sep segs = [] \<longleftrightarrow> segs = []"
  by (cases "(sep, segs)" rule: join_with.cases) auto

lemma join_with_Cons: "segs \<noteq> [] \<Longrightarrow> join_with sep (s # segs) = s @ sep @ join_with sep segs"
  by (cases segs) simp_all

subsection \<open>path.Clean is idempotent\<close>

text \<open>The shape of the stack: no empty or dot segment, and dot-dot only at the bottom of it.\<close>

fun normal_stack :: "bool \<Rightarrow> string list \<Rightarrow> bool" where
  "normal_stack r [] = True"
| "normal_stack r (s # st) =
     (s \<noteq> '''' \<and> s \<noteq> ''.'' \<and> (s = ''..'' \<longrightarrow> \<not> r \<and> (st = [] \<or> hd st = ''..'')) \<and>
      normal_stack r st)"

lemma normal_stack_append: "normal_stack r (xs @ ys) \<Longrightarrow> normal_stack r ys"
  by (induction xs) auto

lemma normal_stack_elem:
  "normal_stack r xs \<Longrightarrow> s \<in> set xs \<Longrightarrow> s \<noteq> '''' \<and> s \<noteq> ''.'' \<and> (r \<longrightarrow> s \<noteq> ''..'')"
  by (induction xs) auto

lemma clean_segs_normal:
  "normal_stack r st \<Longrightarrow> normal_stack r (rev (clean_segs r st ss))"
  by (induction r st ss rule: clean_segs.induct) (auto split: list.splits)

lemma clean_segs_id:
  "normal_stack r (rev segs @ st) \<Longrightarrow> clean_segs r st segs = rev st @ segs"
proof (induction segs arbitrary: st)
  case Nil
  then show ?case by simp
next
  case (Cons s segs)
  have tl: "normal_stack r (rev segs @ (s # st))" using Cons.prems by simp
  then have top: "normal_stack r (s # st)" by (rule normal_stack_append)
  have "clean_segs r (s # st) segs = rev (s # st) @ segs" by (rule Cons.IH [OF tl])
  with top show ?case by (auto split: list.splits)
qed

lemma clean_segs_subset:
  "set (clean_segs r st ss) \<subseteq> set st \<union> set ss \<union> {''..''}"
  by (induction r st ss rule: clean_segs.induct) (auto split: list.splits if_splits)

lemma clean_segs_no_slash:
  "s \<in> set (clean_segs r [] (split_on (CHR ''/'') p)) \<Longrightarrow> CHR ''/'' \<notin> set s"
  using clean_segs_subset [of r "[]" "split_on (CHR ''/'') p"]
  by (auto dest: split_on_no_sep)

text \<open>The segments of a cleaned path.\<close>

definition clean_of :: "bool \<Rightarrow> string \<Rightarrow> string list" where
  "clean_of r p = clean_segs r [] (split_on (CHR ''/'') p)"

lemma clean_of_normal: "normal_stack r (rev (clean_of r p))"
  by (simp add: clean_of_def clean_segs_normal)

lemma clean_of_no_slash: "s \<in> set (clean_of r p) \<Longrightarrow> CHR ''/'' \<notin> set s"
  by (simp add: clean_of_def clean_segs_no_slash)

lemma clean_of_elem:
  "s \<in> set (clean_of r p) \<Longrightarrow> s \<noteq> '''' \<and> s \<noteq> ''.'' \<and> (r \<longrightarrow> s \<noteq> ''..'')"
  using normal_stack_elem [OF clean_of_normal] by auto

lemma clean_of_join:
  "clean_of r p \<noteq> [] \<Longrightarrow> clean_of r (join_with ''/'' (clean_of r p)) = clean_of r p"
proof -
  assume ne: "clean_of r p \<noteq> []"
  have "split_on (CHR ''/'') (join_with ''/'' (clean_of r p)) = clean_of r p"
    by (rule split_join [OF ne]) (auto dest: clean_of_no_slash)
  then show ?thesis
    using clean_segs_id [of r "clean_of r p" "[]"] clean_of_normal [of r p]
    by (simp add: clean_of_def)
qed

lemma clean_of_slash: "clean_of r (CHR ''/'' # p) = clean_of r p"
  by (simp add: clean_of_def)

lemma path_clean_rooted:
  "path_clean (CHR ''/'' # p) = CHR ''/'' # join_with ''/'' (clean_of True p)"
  by (simp add: path_clean_def clean_of_def Let_def)

lemma path_clean_rel:
  "p \<noteq> '''' \<Longrightarrow> hd p \<noteq> CHR ''/'' \<Longrightarrow>
   path_clean p = (if clean_of False p = [] then ''.'' else join_with ''/'' (clean_of False p))"
  using join_with_eq_Nil [of "clean_of False p" "''/''"] clean_of_elem [of _ False p]
  by (auto simp: path_clean_def clean_of_def Let_def)

lemma hd_join: "segs \<noteq> [] \<Longrightarrow> hd segs \<noteq> [] \<Longrightarrow> hd (join_with sep segs) = hd (hd segs)"
  by (cases "(sep, segs)" rule: join_with.cases) auto

lemma path_clean_idem: "path_clean (path_clean p) = path_clean p"
proof (cases "p = ''''")
  case True
  then show ?thesis by (simp add: path_clean_def)
next
  case ne: False
  show ?thesis
  proof (cases "hd p = CHR ''/''")
    case True
    with ne obtain q where p: "p = CHR ''/'' # q" by (cases p) auto
    have "clean_of True q = [] \<or> clean_of True (join_with ''/'' (clean_of True q)) = clean_of True q"
      using clean_of_join by blast
    then show ?thesis
      by (auto simp: p path_clean_rooted clean_of_def)
  next
    case rel: False
    show ?thesis
    proof (cases "clean_of False p = []")
      case True
      have "clean_of False ''.'' = []" by (simp add: clean_of_def)
      with True ne rel show ?thesis by (simp add: path_clean_rel)
    next
      case False
      let ?j = "join_with ''/'' (clean_of False p)"
      have el: "\<And>s. s \<in> set (clean_of False p) \<Longrightarrow> s \<noteq> [] \<and> CHR ''/'' \<notin> set s"
        using clean_of_elem clean_of_no_slash by blast
      then have h: "hd (clean_of False p) \<noteq> [] \<and> CHR ''/'' \<notin> set (hd (clean_of False p))"
        using False by (meson list.set_sel(1))
      then have "hd ?j \<noteq> CHR ''/''" using False by (metis hd_join list.set_sel(1))
      moreover have "?j \<noteq> ''''" using False el by (subst join_with_eq_Nil) auto
      ultimately show ?thesis using ne rel False clean_of_join [OF False]
        by (simp add: path_clean_rel)
    qed
  qed
qed

end
