(* ===== verification/GoURL.thy ===== *)
theory GoURL
  imports GoStrings
begin

text \<open>
  The parts of Go's package \<open>net/url\<close> (Go 1.25) that the program calls: \<open>Parse\<close>,
  \<open>URL.String\<close>, \<open>URL.Hostname\<close>, \<open>URL.IsAbs\<close> and \<open>URL.ResolveReference\<close>, on byte strings.
  The record has the fields of \<open>url.URL\<close>.  Every error return of the package is a branch; the
  error texts are shortened, since no caller looks at them.

  One simplification: a bracketed host must be an IPv6 literal; the check of \<open>netip.ParseAddr\<close>
  is \<open>valid_ipv6\<close>, which checks groups, the double colon and a zone and does not accept a
  trailing dotted IPv4 part.
\<close>

section \<open>The URL record\<close>

record userinfo =
  ui_username :: string
  ui_password :: "string option"

record url =
  u_scheme :: string
  u_opaque :: string
  u_user :: "userinfo option"
  u_host :: string
  u_path :: string
  u_raw_path :: string
  u_omit_host :: bool
  u_force_query :: bool
  u_raw_query :: string
  u_fragment :: string
  u_raw_fragment :: string

definition empty_url :: url where
  "empty_url = \<lparr>u_scheme = '''', u_opaque = '''', u_user = None, u_host = '''', u_path = '''',
     u_raw_path = '''', u_omit_host = False, u_force_query = False, u_raw_query = '''',
     u_fragment = '''', u_raw_fragment = ''''\<rparr>"

section \<open>Percent encoding\<close>

datatype encoding = EncodePath | EncodeUserPassword | EncodeHost | EncodeZone | EncodeFragment

definition code_of :: "char \<Rightarrow> nat" where
  "code_of c = of_char c"

definition is_alpha :: "char \<Rightarrow> bool" where
  "is_alpha c \<longleftrightarrow> (97 \<le> code_of c \<and> code_of c \<le> 122) \<or> (65 \<le> code_of c \<and> code_of c \<le> 90)"

definition is_digit :: "char \<Rightarrow> bool" where
  "is_digit c \<longleftrightarrow> 48 \<le> code_of c \<and> code_of c \<le> 57"

definition is_alnum :: "char \<Rightarrow> bool" where
  "is_alnum c \<longleftrightarrow> is_alpha c \<or> is_digit c"

definition is_hex :: "char \<Rightarrow> bool" where
  "is_hex c \<longleftrightarrow> is_digit c \<or> (97 \<le> code_of c \<and> code_of c \<le> 102) \<or> (65 \<le> code_of c \<and> code_of c \<le> 70)"

definition unhex :: "char \<Rightarrow> nat" where
  "unhex c = (if is_digit c then code_of c - 48
              else if 97 \<le> code_of c then code_of c - 87 else code_of c - 55)"

definition hex_digit :: "nat \<Rightarrow> char" where
  "hex_digit n = (if n < 10 then char_of (48 + n) else char_of (55 + n))"

definition should_escape :: "encoding \<Rightarrow> char \<Rightarrow> bool" where
  "should_escape m c =
     (if is_alnum c then False
      else if m \<in> {EncodeHost, EncodeZone} \<and>
        c \<in> set [CHR ''!'', CHR ''$'', CHR ''&'', CHR 0x27, CHR ''('', CHR '')'', CHR ''*'', CHR ''+'',
                 CHR '','', CHR '';'', CHR ''='', CHR '':'', CHR ''['', CHR '']'', CHR ''<'', CHR ''>'', CHR 0x22]
        then False
      else if c \<in> set [CHR ''-'', CHR ''_'', CHR ''.'', CHR ''~''] then False
      else if c \<in> set [CHR ''$'', CHR ''&'', CHR ''+'', CHR '','', CHR ''/'', CHR '':'', CHR '';'', CHR ''='', CHR ''?'', CHR ''@''] \<and>
        m = EncodePath then c = CHR ''?''
      else if c \<in> set [CHR ''$'', CHR ''&'', CHR ''+'', CHR '','', CHR ''/'', CHR '':'', CHR '';'', CHR ''='', CHR ''?'', CHR ''@''] \<and>
        m = EncodeUserPassword then c \<in> set [CHR ''@'', CHR ''/'', CHR ''?'', CHR '':'']
      else if c \<in> set [CHR ''$'', CHR ''&'', CHR ''+'', CHR '','', CHR ''/'', CHR '':'', CHR '';'', CHR ''='', CHR ''?'', CHR ''@''] \<and>
        m = EncodeFragment then False
      else if m = EncodeFragment \<and> c \<in> set [CHR ''!'', CHR ''('', CHR '')'', CHR ''*''] then False
      else True)"

fun unescape :: "encoding \<Rightarrow> string \<Rightarrow> string res" where
  "unescape m [] = Ok []"
| "unescape m (c # cs) =
     (if c = CHR ''%'' then
        (case cs of
           h # l # rest \<Rightarrow>
             (if \<not> is_hex h \<or> \<not> is_hex l then Fail ''invalid URL escape''
              else if m = EncodeHost \<and> unhex h < 8 \<and> \<not> (h = CHR ''2'' \<and> l = CHR ''5'')
                then Fail ''invalid URL escape''
              else if m = EncodeZone \<and> \<not> (h = CHR ''2'' \<and> l = CHR ''5'') \<and>
                  16 * unhex h + unhex l \<noteq> 32 \<and>
                  should_escape EncodeHost (char_of (16 * unhex h + unhex l))
                then Fail ''invalid URL escape''
              else (case unescape m rest of
                      Inl e \<Rightarrow> Inl e
                    | Inr t \<Rightarrow> Ok (char_of (16 * unhex h + unhex l) # t)))
         | _ \<Rightarrow> Fail ''invalid URL escape'')
      else if m \<in> {EncodeHost, EncodeZone} \<and> code_of c < 128 \<and> should_escape m c
        then Fail ''invalid character in host name''
      else (case unescape m cs of Inl e \<Rightarrow> Inl e | Inr t \<Rightarrow> Ok (c # t)))"

definition escape_char :: "encoding \<Rightarrow> char \<Rightarrow> string" where
  "escape_char m c =
     (if should_escape m c
      then [CHR ''%'', hex_digit (code_of c div 16), hex_digit (code_of c mod 16)] else [c])"

definition escape :: "encoding \<Rightarrow> string \<Rightarrow> string" where
  "escape m s = concat (map (escape_char m) s)"

definition valid_encoded :: "encoding \<Rightarrow> string \<Rightarrow> bool" where
  "valid_encoded m s \<longleftrightarrow> (\<forall>c \<in> set s.
     c \<in> set [CHR ''!'', CHR ''$'', CHR ''&'', CHR 0x27, CHR ''('', CHR '')'', CHR ''*'', CHR ''+'', CHR '','',
       CHR '';'', CHR ''='', CHR '':'', CHR ''@'', CHR ''['', CHR '']'', CHR ''%''] \<or> \<not> should_escape m c)"

section \<open>Parse\<close>

definition has_ctl_byte :: "string \<Rightarrow> bool" where
  "has_ctl_byte s \<longleftrightarrow> (\<exists>c \<in> set s. code_of c < 32 \<or> code_of c = 127)"

text \<open>\<open>getScheme\<close>; \<open>acc\<close> holds the reversed bytes read so far, \<open>raw\<close> the whole input.\<close>

fun get_scheme :: "string \<Rightarrow> string \<Rightarrow> string \<Rightarrow> (string \<times> string) res" where
  "get_scheme raw acc [] = Ok ('''', raw)"
| "get_scheme raw acc (c # cs) =
     (if is_alpha c then get_scheme raw (c # acc) cs
      else if is_digit c \<or> c \<in> set [CHR ''+'', CHR ''-'', CHR ''.''] then
        (if acc = [] then Ok ('''', raw) else get_scheme raw (c # acc) cs)
      else if c = CHR '':'' then
        (if acc = [] then Fail ''missing protocol scheme'' else Ok (rev acc, cs))
      else Ok ('''', raw))"

definition valid_userinfo :: "string \<Rightarrow> bool" where
  "valid_userinfo s \<longleftrightarrow> (\<forall>c \<in> set s. is_alnum c \<or>
     c \<in> set [CHR ''-'', CHR ''.'', CHR ''_'', CHR '':'', CHR ''~'', CHR ''!'', CHR ''$'', CHR ''&'', CHR 0x27,
       CHR ''('', CHR '')'', CHR ''*'', CHR ''+'', CHR '','', CHR '';'', CHR ''='', CHR ''%'', CHR ''@''])"

definition valid_optional_port :: "string \<Rightarrow> bool" where
  "valid_optional_port p \<longleftrightarrow> p = '''' \<or> (hd p = CHR '':'' \<and> list_all is_digit (tl p))"

text \<open>An IPv6 literal: eight groups of one to four hex digits, or fewer around one double colon.\<close>

definition ipv6_groups :: "string \<Rightarrow> nat option" where
  "ipv6_groups s =
     (if s = '''' then Some 0
      else if list_all (\<lambda>g. g \<noteq> '''' \<and> length g \<le> 4 \<and> list_all is_hex g) (split_on (CHR '':'') s)
        then Some (length (split_on (CHR '':'') s)) else None)"

fun cut_double_colon :: "string \<Rightarrow> (string \<times> string) option" where
  "cut_double_colon (a # b # s) =
     (if a = CHR '':'' \<and> b = CHR '':'' then Some ([], s)
      else (case cut_double_colon (b # s) of None \<Rightarrow> None | Some (l, r) \<Rightarrow> Some (a # l, r)))"
| "cut_double_colon _ = None"

definition valid_ipv6 :: "string \<Rightarrow> bool" where
  "valid_ipv6 s =
     (case cut (CHR ''%'') s of (addr, zone, found) \<Rightarrow>
        (found \<longrightarrow> zone \<noteq> '''') \<and>
        (case cut_double_colon addr of
           None \<Rightarrow> ipv6_groups addr = Some 8
         | Some (l, r) \<Rightarrow>
             (case (ipv6_groups l, ipv6_groups r) of
                (Some m, Some n) \<Rightarrow> m + n \<le> 7
              | _ \<Rightarrow> False)))"

definition starts_with_pct25 :: "string \<Rightarrow> bool" where
  "starts_with_pct25 s \<longleftrightarrow> has_prefix s ''%25''"

fun cut_zone :: "string \<Rightarrow> string \<times> string" where
  "cut_zone [] = ([], [])"
| "cut_zone (c # cs) =
     (if starts_with_pct25 (c # cs) then ([], c # cs)
      else (case cut_zone cs of (a, b) \<Rightarrow> (c # a, b)))"

definition parse_host :: "string \<Rightarrow> string res" where
  "parse_host host =
     (case cut_last (CHR ''['') host of
        Some (_, after_open) \<Rightarrow>
          (case cut_last (CHR '']'') after_open of
             None \<Rightarrow> Fail ''missing ']' in host''
           | Some (hostname, colon_port) \<Rightarrow>
               (if \<not> valid_optional_port colon_port then Fail ''invalid port after host''
                else (case (unescape EncodeHost (fst (cut_zone hostname)),
                            unescape EncodeZone (snd (cut_zone hostname))) of
                        (Inr h, Inr z) \<Rightarrow>
                          (if valid_ipv6 (h @ z) then Ok (''['' @ h @ z @ '']'' @ colon_port)
                           else Fail ''invalid host'')
                      | _ \<Rightarrow> Fail ''invalid URL escape'')))
      | None \<Rightarrow>
          (case cut_last (CHR '':'') host of
             Some (_, port) \<Rightarrow>
               (if \<not> valid_optional_port (CHR '':'' # port) then Fail ''invalid port after host''
                else unescape EncodeHost host)
           | None \<Rightarrow> unescape EncodeHost host))"

definition parse_authority :: "string \<Rightarrow> (userinfo option \<times> string) res" where
  "parse_authority a =
     (case cut_last (CHR ''@'') a of
        None \<Rightarrow> (case parse_host a of Inl e \<Rightarrow> Inl e | Inr h \<Rightarrow> Ok (None, h))
      | Some (ui, host) \<Rightarrow>
          (case parse_host host of
             Inl e \<Rightarrow> Inl e
           | Inr h \<Rightarrow>
               (if \<not> valid_userinfo ui then Fail ''net/url: invalid userinfo''
                else (case cut (CHR '':'') ui of (name, pw, found) \<Rightarrow>
                  (case (unescape EncodeUserPassword name, unescape EncodeUserPassword pw) of
                     (Inr n, Inr p) \<Rightarrow>
                       Ok (Some \<lparr>ui_username = n, ui_password = (if found then Some p else None)\<rparr>, h)
                   | _ \<Rightarrow> Fail ''invalid URL escape'')))))"

definition set_path :: "string \<Rightarrow> url \<Rightarrow> url res" where
  "set_path p u =
     (case unescape EncodePath p of
        Inl e \<Rightarrow> Inl e
      | Inr path \<Rightarrow>
          Ok (u\<lparr>u_path := path,
                u_raw_path := (if p = escape EncodePath path then '''' else p)\<rparr>))"

definition set_fragment :: "string \<Rightarrow> url \<Rightarrow> url res" where
  "set_fragment f u =
     (case unescape EncodeFragment f of
        Inl e \<Rightarrow> Inl e
      | Inr frag \<Rightarrow>
          Ok (u\<lparr>u_fragment := frag,
                u_raw_fragment := (if f = escape EncodeFragment frag then '''' else f)\<rparr>))"

text \<open>The query part: a lone trailing question mark sets \<open>ForceQuery\<close>.\<close>

definition split_query :: "string \<Rightarrow> string \<times> bool \<times> string" where
  "split_query rest =
     (if has_suffix rest ''?'' \<and> count_list rest (CHR ''?'') = 1
      then (take (length rest - 1) rest, True, '''')
      else (case cut (CHR ''?'') rest of (r, q, _) \<Rightarrow> (r, False, q)))"

definition parse_no_frag :: "string \<Rightarrow> url res" where
  "parse_no_frag raw =
     (if has_ctl_byte raw then Fail ''net/url: invalid control character in URL''
      else if raw = ''*'' then Ok (empty_url\<lparr>u_path := ''*''\<rparr>)
      else (case get_scheme raw [] raw of
        Inl e \<Rightarrow> Inl e
      | Inr (sch, rest0) \<Rightarrow>
          (case split_query rest0 of (rest, fq, q) \<Rightarrow>
            let u = empty_url\<lparr>u_scheme := to_lower sch, u_force_query := fq, u_raw_query := q\<rparr>
            in if \<not> has_prefix rest ''/'' \<and> sch \<noteq> '''' then Ok (u\<lparr>u_opaque := rest\<rparr>)
               else if \<not> has_prefix rest ''/'' \<and> CHR '':'' \<in> set (fst (cut (CHR ''/'') rest))
                 then Fail ''first path segment in URL cannot contain colon''
               else if (sch \<noteq> '''' \<or> \<not> has_prefix rest ''///'') \<and> has_prefix rest ''//'' then
                 (case cut (CHR ''/'') (drop 2 rest) of (auth, tail, found) \<Rightarrow>
                   (case parse_authority auth of
                      Inl e \<Rightarrow> Inl e
                    | Inr (user, host) \<Rightarrow>
                        set_path (if found then CHR ''/'' # tail else '''')
                          (u\<lparr>u_user := user, u_host := host\<rparr>)))
               else if sch \<noteq> '''' \<and> has_prefix rest ''/'' then
                 set_path rest (u\<lparr>u_omit_host := True\<rparr>)
               else set_path rest u)))"

definition url_parse :: "string \<Rightarrow> url res" where
  "url_parse raw =
     (case cut (CHR ''#'') raw of (u, frag, _) \<Rightarrow>
        (case parse_no_frag u of
           Inl e \<Rightarrow> Inl e
         | Inr url \<Rightarrow> if frag = '''' then Ok url else set_fragment frag url))"

section \<open>String, Hostname, IsAbs\<close>

definition escaped_path :: "url \<Rightarrow> string" where
  "escaped_path u =
     (if u_raw_path u \<noteq> '''' \<and> valid_encoded EncodePath (u_raw_path u) \<and>
         unescape EncodePath (u_raw_path u) = Ok (u_path u) then u_raw_path u
      else if u_path u = ''*'' then ''*''
      else escape EncodePath (u_path u))"

definition escaped_fragment :: "url \<Rightarrow> string" where
  "escaped_fragment u =
     (if u_raw_fragment u \<noteq> '''' \<and> valid_encoded EncodeFragment (u_raw_fragment u) \<and>
         unescape EncodeFragment (u_raw_fragment u) = Ok (u_fragment u) then u_raw_fragment u
      else escape EncodeFragment (u_fragment u))"

definition userinfo_string :: "userinfo \<Rightarrow> string" where
  "userinfo_string ui =
     (if ui_username ui = '''' \<and> ui_password ui = None then ''''
      else escape EncodeUserPassword (ui_username ui) @
        (case ui_password ui of None \<Rightarrow> '''' | Some p \<Rightarrow> '':'' @ escape EncodeUserPassword p))"

definition authority_string :: "url \<Rightarrow> string" where
  "authority_string u =
     (if u_scheme u \<noteq> '''' \<or> u_host u \<noteq> '''' \<or> u_user u \<noteq> None then
        (if u_omit_host u \<and> u_host u = '''' \<and> u_user u = None then ''''
         else (if u_host u \<noteq> '''' \<or> u_path u \<noteq> '''' \<or> u_user u \<noteq> None then ''//'' else '''') @
              (case u_user u of None \<Rightarrow> '''' | Some ui \<Rightarrow> userinfo_string ui @ ''@'') @
              escape EncodeHost (u_host u))
      else '''')"

definition url_string :: "url \<Rightarrow> string" where
  "url_string u =
     (let pre = (if u_scheme u \<noteq> '''' then u_scheme u @ '':'' else '''');
          body = (if u_opaque u \<noteq> '''' then u_opaque u
            else let path = escaped_path u; auth = authority_string u;
                     slash = (if path \<noteq> '''' \<and> hd path \<noteq> CHR ''/'' \<and> u_host u \<noteq> '''' then ''/'' else '''');
                     dot = (if pre @ auth @ slash = '''' \<and> CHR '':'' \<in> set (fst (cut (CHR ''/'') path))
                            then ''./'' else '''')
                 in auth @ slash @ dot @ path)
      in pre @ body @
         (if u_force_query u \<or> u_raw_query u \<noteq> '''' then ''?'' @ u_raw_query u else '''') @
         (if u_fragment u \<noteq> '''' then ''#'' @ escaped_fragment u else ''''))"

definition strip_brackets :: "string \<Rightarrow> string" where
  "strip_brackets h =
     (if has_prefix h ''['' \<and> has_suffix h '']'' then take (length h - 2) (drop 1 h) else h)"

definition hostname :: "url \<Rightarrow> string" where
  "hostname u =
     strip_brackets (case cut_last (CHR '':'') (u_host u) of
       Some (h, port) \<Rightarrow> (if valid_optional_port (CHR '':'' # port) then h else u_host u)
     | None \<Rightarrow> u_host u)"

definition is_abs :: "url \<Rightarrow> bool" where
  "is_abs u \<longleftrightarrow> u_scheme u \<noteq> ''''"

section \<open>ResolveReference\<close>

text \<open>
  The loop of \<open>resolvePath\<close> over the segments of the merged path.  The destination buffer
  starts with a slash; \<open>dst\<close> is what follows it.
\<close>

fun resolve_segs :: "bool \<Rightarrow> string \<Rightarrow> string list \<Rightarrow> string" where
  "resolve_segs first dst [] = dst"
| "resolve_segs first dst (e # es) =
     (if e = ''.'' then resolve_segs False dst es
      else if e = ''..'' then
        (case cut_last (CHR ''/'') dst of
           None \<Rightarrow> resolve_segs True '''' es
         | Some (b, _) \<Rightarrow> resolve_segs first b es)
      else resolve_segs False (dst @ (if first then '''' else ''/'') @ e) es)"

definition resolve_path :: "string \<Rightarrow> string \<Rightarrow> string" where
  "resolve_path base ref =
     (let full = (if ref = '''' then base
                  else if hd ref \<noteq> CHR ''/'' then
                    (case cut_last (CHR ''/'') base of None \<Rightarrow> ref | Some (b, _) \<Rightarrow> b @ ''/'' @ ref)
                  else ref)
      in if full = '''' then ''''
         else let segs = split_on (CHR ''/'') full;
                  dst = resolve_segs True '''' segs;
                  r = ''/'' @ dst @ (if last segs = ''.'' \<or> last segs = ''..'' then ''/'' else '''')
              in if length r > 1 \<and> r ! 1 = CHR ''/'' then drop 1 r else r)"

definition set_path_ignore :: "string \<Rightarrow> url \<Rightarrow> url" where
  "set_path_ignore p u = (case set_path p u of Inl _ \<Rightarrow> u | Inr u' \<Rightarrow> u')"

definition resolve_reference :: "url \<Rightarrow> url \<Rightarrow> url" where
  "resolve_reference base ref =
     (let url0 = (if u_scheme ref = '''' then ref\<lparr>u_scheme := u_scheme base\<rparr> else ref)
      in if u_scheme ref \<noteq> '''' \<or> u_host ref \<noteq> '''' \<or> u_user ref \<noteq> None then
           set_path_ignore (resolve_path (escaped_path ref) '''') url0
         else if u_opaque ref \<noteq> '''' then url0\<lparr>u_user := None, u_host := '''', u_path := ''''\<rparr>
         else
           let url1 = (if u_path ref = '''' \<and> \<not> u_force_query ref \<and> u_raw_query ref = '''' then
                 (let w = url0\<lparr>u_raw_query := u_raw_query base\<rparr>
                  in if u_fragment ref = ''''
                     then w\<lparr>u_fragment := u_fragment base, u_raw_fragment := u_raw_fragment base\<rparr>
                     else w)
               else url0)
           in if u_path ref = '''' \<and> u_opaque base \<noteq> '''' then
                url1\<lparr>u_opaque := u_opaque base, u_user := None, u_host := '''', u_path := ''''\<rparr>
              else set_path_ignore (resolve_path (escaped_path base) (escaped_path ref))
                     (url1\<lparr>u_host := u_host base, u_user := u_user base\<rparr>))"

end
