(* ===== verification/Requests.thy ===== *)
theory Requests
  imports Complex_Main GoURL
begin

text \<open>
  \<open>internal/types/requests.go\<close> and \<open>internal/server/validate.go\<close>: the API's request types,
  the list of output formats with its JSON coding, and request validation.

  A JSON document is a value of \<open>json\<close>, so the coding functions work on parsed documents
  and the byte syntax of JSON is left out.  Numbers are integers: the only numbers the
  program reads back are the depths it wrote.  A nil \<open>FormatList\<close> is \<open>None\<close>.
\<close>

section \<open>JSON values\<close>

datatype json =
    JNull
  | JBool bool
  | JNum int
  | JStr string
  | JArr "json list"
  | JObj "(string \<times> json) list"

section \<open>Format lists\<close>

definition FormatMarkdown :: string where "FormatMarkdown = ''markdown''"
definition FormatHTML :: string where "FormatHTML = ''html''"
definition FormatText :: string where "FormatText = ''text''"

type_synonym format_list = "string list option"

definition fl_list :: "format_list \<Rightarrow> string list" where
  "fl_list f = (case f of None \<Rightarrow> [] | Some xs \<Rightarrow> xs)"

fun normalize_loop :: "string list \<Rightarrow> string list \<Rightarrow> string list \<Rightarrow> string list" where
  "normalize_loop seen out [] = out"
| "normalize_loop seen out (v # vs) =
     (let v' = trim_space (to_lower v)
      in if v' = '''' then normalize_loop seen out vs
         else if v' \<in> set seen then normalize_loop seen out vs
         else normalize_loop (v' # seen) (out @ [v']) vs)"

definition normalize_formats :: "string list \<Rightarrow> string list" where
  "normalize_formats xs = normalize_loop [] [] xs"

definition formats_values :: "format_list \<Rightarrow> string \<Rightarrow> string list" where
  "formats_values f defaultFormat =
     (let vals = normalize_formats (fl_list f)
      in if length vals = 0 then [to_lower defaultFormat] else vals)"

text \<open>Decoding a JSON array into \<open>[]string\<close>: a null element leaves the empty string.\<close>

fun decode_strings :: "json list \<Rightarrow> string list res" where
  "decode_strings [] = Ok []"
| "decode_strings (x # xs) =
     (case x of
        JStr s \<Rightarrow> (case decode_strings xs of Inl e \<Rightarrow> Inl e | Inr ss \<Rightarrow> Ok (s # ss))
      | JNull \<Rightarrow> (case decode_strings xs of Inl e \<Rightarrow> Inl e | Inr ss \<Rightarrow> Ok ('''' # ss))
      | _ \<Rightarrow> Fail ''json: cannot unmarshal value into Go value of type string'')"

fun unmarshal_format_list :: "json \<Rightarrow> format_list res" where
  "unmarshal_format_list JNull = Ok None"
| "unmarshal_format_list (JStr v) = Ok (Some (normalize_formats [v]))"
| "unmarshal_format_list (JArr xs) =
     (case decode_strings xs of
        Inl e \<Rightarrow> Inl e
      | Inr arr \<Rightarrow> Ok (Some (normalize_formats arr)))"
| "unmarshal_format_list _ = Fail ''json: cannot unmarshal value into Go value of type []string''"

definition marshal_format_list :: "format_list \<Rightarrow> json" where
  "marshal_format_list f = (case f of None \<Rightarrow> JNull | Some xs \<Rightarrow> JArr (map JStr xs))"

fun formats_from_any :: "json \<Rightarrow> string \<Rightarrow> string list" where
  "formats_from_any JNull d = [to_lower d]"
| "formats_from_any (JStr v) d = formats_values (Some [v]) d"
| "formats_from_any raw d =
     (case unmarshal_format_list raw of
        Inl _ \<Rightarrow> [to_lower d]
      | Inr l \<Rightarrow> formats_values l d)"

section \<open>Requests\<close>

record scrape_request =
  sr_url :: string
  sr_formats :: format_list
  sr_use_js :: bool

record batch_request =
  br_urls :: "string list"
  br_formats :: format_list
  br_use_js :: bool

record crawl_request =
  cr_url :: string
  cr_max_depth :: int
  cr_same_domain :: bool
  cr_formats :: format_list
  cr_use_js :: bool
  cr_include_sitemaps :: bool

record map_request =
  mr_url :: string
  mr_max_depth :: int
  mr_same_domain :: bool
  mr_include_sitemaps :: bool

text \<open>\<open>json.Marshal\<close> of the requests, with the field names of the struct tags.\<close>

definition marshal_batch :: "batch_request \<Rightarrow> json" where
  "marshal_batch r = JObj [(''urls'', JArr (map JStr (br_urls r))),
     (''output_format'', marshal_format_list (br_formats r)), (''use_js'', JBool (br_use_js r))]"

definition marshal_crawl :: "crawl_request \<Rightarrow> json" where
  "marshal_crawl r = JObj [(''url'', JStr (cr_url r)), (''max_depth'', JNum (cr_max_depth r)),
     (''same_domain'', JBool (cr_same_domain r)),
     (''output_format'', marshal_format_list (cr_formats r)), (''use_js'', JBool (cr_use_js r)),
     (''include_sitemaps'', JBool (cr_include_sitemaps r))]"

definition marshal_map :: "map_request \<Rightarrow> json" where
  "marshal_map r = JObj [(''url'', JStr (mr_url r)), (''max_depth'', JNum (mr_max_depth r)),
     (''same_domain'', JBool (mr_same_domain r)),
     (''include_sitemaps'', JBool (mr_include_sitemaps r))]"

section \<open>Validation\<close>

definition errBadURL :: go_error where "errBadURL = ErrNew ''invalid url''"
definition errBadFormat :: go_error where "errBadFormat = ErrNew ''invalid output_format''"
definition errBadDepth :: go_error where "errBadDepth = ErrNew ''invalid max_depth''"
definition errNoURLs :: go_error where "errNoURLs = ErrNew ''no urls provided''"

definition valid_url :: "string \<Rightarrow> bool" where
  "valid_url raw =
     (case url_parse raw of
        Inl _ \<Rightarrow> False
      | Inr u \<Rightarrow>
          (if u_scheme u \<noteq> ''http'' \<and> u_scheme u \<noteq> ''https'' then False
           else if u_host u = '''' then False else True))"

definition valid_format :: "string \<Rightarrow> bool" where
  "valid_format f \<longleftrightarrow> to_lower f \<in> set [FormatMarkdown, FormatHTML, FormatText]"

fun check_formats :: "string list \<Rightarrow> unit res" where
  "check_formats [] = Ok ()"
| "check_formats (f # fs) = (if \<not> valid_format f then Inl errBadFormat else check_formats fs)"

fun check_urls :: "string list \<Rightarrow> unit res" where
  "check_urls [] = Ok ()"
| "check_urls (u # us) = (if \<not> valid_url u then Inl errBadURL else check_urls us)"

definition validate_scrape_request :: "scrape_request \<Rightarrow> unit res" where
  "validate_scrape_request r =
     (if sr_url r = '''' \<or> \<not> valid_url (sr_url r) then Inl errBadURL
      else check_formats (formats_values (sr_formats r) ''markdown''))"

definition validate_batch_request :: "batch_request \<Rightarrow> unit res" where
  "validate_batch_request r =
     (if length (br_urls r) = 0 then Inl errNoURLs
      else case check_urls (br_urls r) of
             Inl e \<Rightarrow> Inl e
           | Inr _ \<Rightarrow> check_formats (formats_values (br_formats r) ''markdown''))"

definition validate_crawl_request :: "crawl_request \<Rightarrow> unit res" where
  "validate_crawl_request r =
     (if cr_url r = '''' \<or> \<not> valid_url (cr_url r) then Inl errBadURL
      else if cr_max_depth r < 0 then Inl errBadDepth
      else check_formats (formats_values (cr_formats r) ''markdown''))"

definition validate_map_request :: "map_request \<Rightarrow> unit res" where
  "validate_map_request r =
     (if mr_url r = '''' \<or> \<not> valid_url (mr_url r) then Inl errBadURL
      else if mr_max_depth r < 0 then Inl errBadDepth
      else Ok ())"

section \<open>Lemmas\<close>

text \<open>The loop with its seen map is the reference "first occurrences" of the cleaned names.\<close>

definition clean_names :: "string list \<Rightarrow> string list" where
  "clean_names xs = filter (\<lambda>v. v \<noteq> '''') (map (\<lambda>v. trim_space (to_lower v)) xs)"

lemma normalize_loop_eq:
  "normalize_loop seen out vs = out @ first_occ seen (clean_names vs)"
  by (induction seen out vs rule: normalize_loop.induct) (auto simp: Let_def clean_names_def)

lemma normalize_formats_eq: "normalize_formats xs = first_occ [] (clean_names xs)"
  by (simp add: normalize_formats_def normalize_loop_eq)

lemma lower_char_space: "is_space (lower_char c) = is_space c"
  by (auto simp: is_space_def lower_char_def Let_def of_char_of)

lemma dropWhile_lower: "dropWhile is_space (map lower_char s) = map lower_char (dropWhile is_space s)"
  by (induction s) (simp_all add: lower_char_space)

lemma trim_space_lower: "trim_space (to_lower s) = to_lower (trim_space s)"
  by (simp add: trim_space_def to_lower_def dropWhile_lower rev_map)

lemma clean_names_id:
  assumes "\<And>v. v \<in> set xs \<Longrightarrow> \<exists>w. v = trim_space (to_lower w) \<and> v \<noteq> ''''"
  shows "clean_names xs = xs"
  using assms by (induction xs) (fastforce simp: clean_names_def trim_space_lower)+

lemma normalize_formats_set:
  "v \<in> set (normalize_formats xs) \<Longrightarrow> v \<noteq> '''' \<and> (\<exists>w \<in> set xs. v = trim_space (to_lower w))"
  by (auto simp: normalize_formats_eq clean_names_def)

lemma normalize_formats_distinct [simp]: "distinct (normalize_formats xs)"
  by (simp add: normalize_formats_eq)

lemma normalize_formats_idem [simp]: "normalize_formats (normalize_formats xs) = normalize_formats xs"
proof -
  have "clean_names (normalize_formats xs) = normalize_formats xs"
    by (rule clean_names_id) (use normalize_formats_set in blast)
  then show ?thesis
    by (metis normalize_formats_eq first_occ_idem)
qed

lemma formats_values_ne [simp]: "formats_values f d \<noteq> []"
  by (simp add: formats_values_def Let_def)

lemma formats_values_distinct [simp]: "distinct (formats_values f d)"
  by (simp add: formats_values_def Let_def)

lemma formats_values_nonempty: "'''' \<notin> set (formats_values f ''markdown'')"
  by (auto simp: formats_values_def Let_def to_lower_def dest: normalize_formats_set)

lemma formats_values_lower: "v \<in> set (formats_values f d) \<Longrightarrow> to_lower v = v"
  by (auto simp: formats_values_def Let_def trim_space_lower dest!: normalize_formats_set split: if_splits)

lemma decode_strings_map [simp]: "decode_strings (map JStr xs) = Ok xs"
  by (induction xs) simp_all

lemma unmarshal_marshal:
  "unmarshal_format_list (marshal_format_list f) = Ok (map_option normalize_formats f)"
  by (cases f) (simp_all add: marshal_format_list_def)

lemma formats_from_marshal:
  "formats_from_any (marshal_format_list f) d = formats_values f d"
proof (cases f)
  case None
  then show ?thesis by (simp add: marshal_format_list_def formats_values_def fl_list_def normalize_formats_def)
next
  case (Some xs)
  then show ?thesis
    by (simp add: marshal_format_list_def formats_values_def fl_list_def)
qed

text \<open>Reading back the format list that a request stored in the job's parameters gives the same
  preferred formats, in the same order, as reading the request itself, whatever list the client
  sent (null, one name, or several with blanks, capitals and repeats).\<close>

theorem formats_roundtrip:
  "formats_from_any (marshal_format_list f) d = formats_values f d"
  by (rule formats_from_marshal)

lemma check_formats_ok: "check_formats fs = Ok () \<longleftrightarrow> list_all valid_format fs"
  by (induction fs) auto

lemma check_urls_ok: "check_urls us = Ok () \<longleftrightarrow> list_all valid_url us"
  by (induction us) auto

lemma valid_url_Nil: "\<not> valid_url ''''"
  by code_simp

text \<open>A validated crawl request has an http or https URL with a host, a depth that is not negative, and a
  non-empty list of distinct formats that are exactly \<open>markdown\<close>, \<open>html\<close> or \<open>text\<close>; and every request with
  these properties is accepted.\<close>

theorem validate_crawl_iff:
  "validate_crawl_request r = Ok () \<longleftrightarrow>
     valid_url (cr_url r) \<and> 0 \<le> cr_max_depth r \<and>
     set (formats_values (cr_formats r) ''markdown'') \<subseteq> {FormatMarkdown, FormatHTML, FormatText}"
proof -
  have "list_all valid_format (formats_values (cr_formats r) ''markdown'') \<longleftrightarrow>
      set (formats_values (cr_formats r) ''markdown'') \<subseteq> {FormatMarkdown, FormatHTML, FormatText}"
    using formats_values_lower [of _ "cr_formats r" "''markdown''"]
    by (fastforce simp: list_all_iff valid_format_def)
  then show ?thesis
    using valid_url_Nil by (auto simp: validate_crawl_request_def check_formats_ok not_le)
qed

text \<open>Format lists are normalised to the reference meaning: trimmed and lower-cased names in order of
  first occurrence, without blanks or repeats; with none left, the default alone; and normalising
  twice changes nothing.\<close>

theorem formats_values_spec:
  "formats_values f d = (if clean_names (fl_list f) = [] then [to_lower d]
      else rev (remdups (rev (clean_names (fl_list f)))))
   \<and> normalize_formats (normalize_formats (fl_list f)) = normalize_formats (fl_list f)"
proof
  have "first_occ [] xs = [] \<longleftrightarrow> xs = []" for xs :: "string list"
    by (cases xs) auto
  then show "formats_values f d = (if clean_names (fl_list f) = [] then [to_lower d]
      else rev (remdups (rev (clean_names (fl_list f)))))"
    by (auto simp: formats_values_def Let_def normalize_formats_eq first_occ_remdups)
qed simp

end
