(* ===== verification/Store.thy ===== *)
theory Store
  imports Requests "HOL-Library.AList"
begin

text \<open>
  \<open>internal/store/store.go\<close> and \<open>dedupe.go\<close> over the tables of
  \<open>internal/migrate/migrations\<close>.  A state \<open>db\<close> holds the tables as lists of rows, the
  sequences behind the serial keys and the number of interactions so far.  Each SQL statement
  of the source is one definition on the tables, with the constraints of the schema (primary
  and unique keys, the foreign key to \<open>jobs\<close>, the check on the job type) as branches.

  What the program cannot see of the database and the clocks is the environment \<open>env\<close>, read at
  the current interaction: the clocks of the process and of the server, whether a statement
  fails (with which text; a failed statement changes no table), which rows other transactions
  have locked, the next random UUID and the collation of the server.  A job id that is not a UUID
  matches no row.  Columns are unbounded integers.
\<close>

section \<open>Rows and tables\<close>

type_synonym time = int

datatype job_status =
    JobStatusQueued | JobStatusRunning | JobStatusCompleted | JobStatusCompletedWithErrors
  | JobStatusFailed | JobStatusCancelled

datatype task_status =
    TaskStatusQueued | TaskStatusProcessing | TaskStatusDone | TaskStatusFailed | TaskStatusSkipped

record job =
  j_id :: string
  j_status :: job_status
  j_type :: string
  j_params :: json
  j_error :: "string option"
  j_expires_at :: "time option"
  j_deadline :: "time option"
  j_created_at :: time
  j_updated_at :: time

record task =
  t_id :: int
  t_job :: string
  t_requested_url :: string
  t_final_url :: string
  t_depth :: int
  t_status :: task_status
  t_error :: "string option"
  t_started_at :: "time option"
  t_heartbeat_at :: "time option"
  t_attempts :: int
  t_created_at :: time
  t_updated_at :: time

record document =
  d_job :: string
  d_requested_url :: string
  d_final_url :: string
  d_title :: string
  d_content_md :: string
  d_content_raw :: string
  d_meta :: json

record document_row = document +
  d_id :: int
  d_created_at :: time

record mapped_insert =
  m_job :: string
  m_source_url :: string
  m_target_url :: string
  m_depth :: int

record mapped_row = mapped_insert +
  m_id :: int
  m_created_at :: time

record job_stats =
  js_queued :: int
  js_processing :: int
  js_done :: int
  js_failed :: int
  js_skipped :: int
  js_total :: int
  js_attempts :: int

record db =
  jobs :: "job list"
  tasks :: "task list"
  documents :: "document_row list"
  mapped_urls :: "mapped_row list"
  dedupe_cache :: "(string \<times> time) list"
  task_seq :: int
  doc_seq :: int
  map_seq :: int
  tick :: nat

record env =
  go_now :: "nat \<Rightarrow> time"
  pg_now :: "nat \<Rightarrow> time"
  db_fault :: "nat \<Rightarrow> string option"
  row_locked :: "nat \<Rightarrow> int \<Rightarrow> bool"
  new_uuid :: "nat \<Rightarrow> string"
  collation_key :: "string \<Rightarrow> string"

type_synonym 'a op = "('a, db) action"

text \<open>A \<open>store.Task\<close> literal with only the fields of the callers' composite literals set.\<close>

definition new_task :: "string \<Rightarrow> string \<Rightarrow> int \<Rightarrow> task_status \<Rightarrow> task" where
  "new_task requested final depth status =
     \<lparr>t_id = 0, t_job = '''', t_requested_url = requested, t_final_url = final, t_depth = depth,
      t_status = status, t_error = None, t_started_at = None, t_heartbeat_at = None,
      t_attempts = 0, t_created_at = 0, t_updated_at = 0\<rparr>"

section \<open>Statements and transactions\<close>

text \<open>\<open>execer\<close>: a statement runs on the pool or in a transaction, whose \<open>now()\<close> is its start.\<close>

datatype conn = Pool | Tx time

definition stmt_now :: "conn \<Rightarrow> time \<Rightarrow> time" where
  "stmt_now c now = (case c of Pool \<Rightarrow> now | Tx t \<Rightarrow> t)"

definition exec :: "env \<Rightarrow> conn \<Rightarrow> (time \<Rightarrow> 'a op) \<Rightarrow> 'a op" where
  "exec e c body s =
     (let n = tick s; s' = s\<lparr>tick := Suc n\<rparr>
      in case db_fault e n of
           Some msg \<Rightarrow> (Fail msg, s')
         | None \<Rightarrow> body (stmt_now c (pg_now e n)) s')"

definition read_clock :: "env \<Rightarrow> db \<Rightarrow> time \<times> db" where
  "read_clock e s = (go_now e (tick s), s\<lparr>tick := Suc (tick s)\<rparr>)"

definition begin_tx :: "env \<Rightarrow> conn op" where
  "begin_tx e = exec e Pool (\<lambda>now s. (Ok (Tx now), s))"

text \<open>A rollback restores the tables; sequences do not go back.\<close>

definition rollback :: "db \<Rightarrow> db \<Rightarrow> db" where
  "rollback s0 s = s\<lparr>jobs := jobs s0, tasks := tasks s0, documents := documents s0,
     mapped_urls := mapped_urls s0, dedupe_cache := dedupe_cache s0\<rparr>"

definition commit :: "env \<Rightarrow> db \<Rightarrow> unit op" where
  "commit e s0 s =
     (case exec e Pool (\<lambda>_ t. (Ok (), t)) s of
        (Inl err, s') \<Rightarrow> (Inl err, rollback s0 s')
      | (Inr _, s') \<Rightarrow> (Ok (), s'))"

definition update_task :: "int \<Rightarrow> (task \<Rightarrow> task) \<Rightarrow> db \<Rightarrow> db" where
  "update_task i f s = s\<lparr>tasks := map (\<lambda>t. if t_id t = i then f t else t) (tasks s)\<rparr>"

definition update_job :: "string \<Rightarrow> (job \<Rightarrow> job) \<Rightarrow> db \<Rightarrow> db" where
  "update_job i f s = s\<lparr>jobs := map (\<lambda>j. if j_id j = i then f j else j) (jobs s)\<rparr>"

text \<open>SQL's \<open>NULLIF(x, '')\<close>.\<close>

definition nullif_empty :: "string \<Rightarrow> string option" where
  "nullif_empty x = (if x = '''' then None else Some x)"

definition job_exists :: "string \<Rightarrow> db \<Rightarrow> bool" where
  "job_exists i s \<longleftrightarrow> i \<in> set (map j_id (jobs s))"

definition job_types :: "string list" where
  "job_types = [''scrape'', ''batch_scrape'', ''crawl'', ''map'']"

section \<open>Jobs and tasks\<close>

definition insert_job :: "env \<Rightarrow> conn \<Rightarrow> string \<Rightarrow> json \<Rightarrow> time \<Rightarrow> time \<Rightarrow> string op" where
  "insert_job e c jobType params expiresAt deadline =
     exec e c (\<lambda>now s.
       let i = new_uuid e (tick s) in
       if jobType \<notin> set job_types then (Fail ''violates check constraint'', s)
       else if job_exists i s then (Fail ''duplicate key value violates unique constraint'', s)
       else (Ok i, s\<lparr>jobs := jobs s @
         [\<lparr>j_id = i, j_status = JobStatusQueued, j_type = jobType, j_params = params, j_error = None,
           j_expires_at = Some expiresAt, j_deadline = Some deadline, j_created_at = now,
           j_updated_at = now\<rparr>]\<rparr>))"

definition insert_task_row :: "env \<Rightarrow> conn \<Rightarrow> string \<Rightarrow> task \<Rightarrow> unit op" where
  "insert_task_row e c jobID t =
     exec e c (\<lambda>now s.
       let i = task_seq s + 1; s' = s\<lparr>task_seq := i\<rparr> in
       if \<exists>u \<in> set (tasks s). t_job u = jobID \<and> t_final_url u = t_final_url t then (Ok (), s')
       else if \<not> job_exists jobID s then (Fail ''violates foreign key constraint'', s')
       else (Ok (), s'\<lparr>tasks := tasks s @
         [\<lparr>t_id = i, t_job = jobID, t_requested_url = t_requested_url t,
           t_final_url = t_final_url t, t_depth = t_depth t, t_status = t_status t, t_error = None,
           t_started_at = None, t_heartbeat_at = None, t_attempts = 0, t_created_at = now,
           t_updated_at = now\<rparr>]\<rparr>))"

fun insert_tasks_loop :: "env \<Rightarrow> conn \<Rightarrow> string \<Rightarrow> task list \<Rightarrow> unit op" where
  "insert_tasks_loop e c jobID [] = (\<lambda>s. (Ok (), s))"
| "insert_tasks_loop e c jobID (t # ts) =
     andthen (insert_task_row e c jobID t) (\<lambda>_. insert_tasks_loop e c jobID ts)"

definition prepare :: "env \<Rightarrow> conn \<Rightarrow> unit op" where
  "prepare e c = exec e c (\<lambda>_ s. (Ok (), s))"

definition insert_tasks :: "env \<Rightarrow> conn \<Rightarrow> string \<Rightarrow> task list \<Rightarrow> unit op" where
  "insert_tasks e c jobID ts =
     andthen (prepare e c) (\<lambda>_. insert_tasks_loop e c jobID ts)"

text \<open>The rows that \<open>DequeueTask\<close> may claim: queued, or processing with an expired lease.\<close>

definition claimable :: "time \<Rightarrow> task \<Rightarrow> bool" where
  "claimable threshold t \<longleftrightarrow>
     t_status t \<in> {TaskStatusQueued, TaskStatusProcessing} \<and>
     (t_status t = TaskStatusQueued \<or>
      (case t_heartbeat_at t of None \<Rightarrow> True | Some h \<Rightarrow> h < threshold))"

definition claim :: "time \<Rightarrow> task \<Rightarrow> task" where
  "claim now t = t\<lparr>t_status := TaskStatusProcessing,
     t_started_at := (case t_started_at t of None \<Rightarrow> Some now | Some x \<Rightarrow> Some x),
     t_heartbeat_at := Some now, t_updated_at := now\<rparr>"

definition claim_candidates :: "(int \<Rightarrow> bool) \<Rightarrow> time \<Rightarrow> db \<Rightarrow> task list" where
  "claim_candidates locked threshold s =
     sort_key t_id (filter (\<lambda>t. claimable threshold t \<and> \<not> locked (t_id t)) (tasks s))"

definition dequeue_task :: "env \<Rightarrow> int \<Rightarrow> task op" where
  "dequeue_task e leaseTimeout s0 =
     (case read_clock e s0 of (now0, s1) \<Rightarrow>
        let threshold = now0 - leaseTimeout in
        exec e Pool (\<lambda>now s.
          (case claim_candidates (row_locked e (tick s)) threshold s of
             [] \<Rightarrow> (Inl ErrNoRows, s)
           | t # _ \<Rightarrow> (Ok (claim now t), update_task (t_id t) (claim now) s))) s1)"

text \<open>The update of one row of \<open>target\<close>, with its \<open>NOT EXISTS\<close> over the whole table.\<close>

definition set_final_url :: "task list \<Rightarrow> time \<Rightarrow> int \<Rightarrow> string \<Rightarrow> task \<Rightarrow> task" where
  "set_final_url rows now taskID finalURL t =
     (if t_id t = taskID \<and> t_final_url t \<noteq> finalURL \<and>
         \<not> (\<exists>u \<in> set rows. t_job u = t_job t \<and> t_final_url u = finalURL \<and> t_id u \<noteq> t_id t)
      then t\<lparr>t_final_url := finalURL, t_updated_at := now\<rparr> else t)"

definition update_task_final_url :: "env \<Rightarrow> int \<Rightarrow> string \<Rightarrow> unit op" where
  "update_task_final_url e taskID finalURL =
     exec e Pool (\<lambda>now s.
       (Ok (), s\<lparr>tasks := map (set_final_url (tasks s) now taskID finalURL) (tasks s)\<rparr>))"

definition update_task_heartbeat :: "env \<Rightarrow> int \<Rightarrow> unit op" where
  "update_task_heartbeat e taskID =
     exec e Pool (\<lambda>now s.
       (Ok (), update_task taskID (\<lambda>t. t\<lparr>t_heartbeat_at := Some now, t_updated_at := now\<rparr>) s))"

definition complete_task :: "env \<Rightarrow> int \<Rightarrow> unit op" where
  "complete_task e taskID =
     exec e Pool (\<lambda>now s.
       (Ok (), update_task taskID (\<lambda>t. t\<lparr>t_status := TaskStatusDone, t_updated_at := now\<rparr>) s))"

definition fail_task :: "env \<Rightarrow> int \<Rightarrow> string \<Rightarrow> unit op" where
  "fail_task e taskID reason =
     exec e Pool (\<lambda>now s.
       (Ok (), update_task taskID (\<lambda>t. t\<lparr>t_status := TaskStatusFailed, t_error := Some reason,
          t_attempts := t_attempts t + 1, t_updated_at := now\<rparr>) s))"

definition retry_task :: "env \<Rightarrow> int \<Rightarrow> string \<Rightarrow> unit op" where
  "retry_task e taskID errMsg =
     exec e Pool (\<lambda>now s.
       (Ok (), update_task taskID (\<lambda>t. t\<lparr>t_status := TaskStatusQueued, t_error := nullif_empty errMsg,
          t_attempts := t_attempts t + 1, t_heartbeat_at := None, t_updated_at := now\<rparr>) s))"

definition start_job :: "env \<Rightarrow> string \<Rightarrow> unit op" where
  "start_job e jobID =
     exec e Pool (\<lambda>now s.
       (Ok (), update_job jobID (\<lambda>j. j\<lparr>j_status := JobStatusRunning, j_updated_at := now\<rparr>) s))"

definition update_job_status :: "env \<Rightarrow> string \<Rightarrow> job_status \<Rightarrow> string \<Rightarrow> unit op" where
  "update_job_status e jobID status errMsg =
     exec e Pool (\<lambda>now s.
       (Ok (), update_job jobID (\<lambda>j. j\<lparr>j_status := status, j_error := nullif_empty errMsg,
          j_updated_at := now\<rparr>) s))"

definition count_tasks :: "string \<Rightarrow> (task \<Rightarrow> bool) \<Rightarrow> db \<Rightarrow> int" where
  "count_tasks jobID P s = int (length (filter (\<lambda>t. t_job t = jobID \<and> P t) (tasks s)))"

definition pending_task_counts :: "env \<Rightarrow> string \<Rightarrow> (int \<times> int) op" where
  "pending_task_counts e jobID =
     exec e Pool (\<lambda>_ s.
       (Ok (count_tasks jobID (\<lambda>t. t_status t = TaskStatusQueued) s,
            count_tasks jobID (\<lambda>t. t_status t = TaskStatusProcessing) s), s))"

definition has_failed_tasks :: "env \<Rightarrow> string \<Rightarrow> bool op" where
  "has_failed_tasks e jobID =
     exec e Pool (\<lambda>_ s. (Ok (count_tasks jobID (\<lambda>t. t_status t = TaskStatusFailed) s > 0), s))"

definition task_count :: "env \<Rightarrow> string \<Rightarrow> int op" where
  "task_count e jobID = exec e Pool (\<lambda>_ s. (Ok (count_tasks jobID (\<lambda>_. True) s), s))"

definition errPending :: go_error where
  "errPending = ErrNew ''job still has pending tasks''"

definition finish_job :: "env \<Rightarrow> string \<Rightarrow> unit op" where
  "finish_job e jobID =
     andthen (pending_task_counts e jobID) (\<lambda>(queued, processing).
       if queued + processing > 0 then (\<lambda>s. (Inl errPending, s))
       else andthen (has_failed_tasks e jobID) (\<lambda>failed.
         update_job_status e jobID
           (if failed then JobStatusCompletedWithErrors else JobStatusCompleted) ''''))"

definition expired :: "time \<Rightarrow> job \<Rightarrow> bool" where
  "expired now j \<longleftrightarrow> (case j_expires_at j of None \<Rightarrow> False | Some x \<Rightarrow> x < now)"

definition cancel_expired_jobs :: "env \<Rightarrow> unit op" where
  "cancel_expired_jobs e =
     exec e Pool (\<lambda>now s.
       (Ok (), s\<lparr>jobs := map (\<lambda>j.
          if expired now j \<and>
             j_status j \<notin> {JobStatusCancelled, JobStatusCompleted, JobStatusCompletedWithErrors}
          then j\<lparr>j_status := JobStatusCancelled, j_error := Some ''expired'', j_updated_at := now\<rparr>
          else j) (jobs s)\<rparr>))"

definition get_job :: "env \<Rightarrow> string \<Rightarrow> job op" where
  "get_job e jobID =
     exec e Pool (\<lambda>_ s.
       (case find (\<lambda>j. j_id j = jobID) (jobs s) of
          None \<Rightarrow> (Inl ErrNoRows, s)
        | Some j \<Rightarrow> (Ok j, s)))"

definition get_job_stats :: "env \<Rightarrow> string \<Rightarrow> job_stats op" where
  "get_job_stats e jobID =
     exec e Pool (\<lambda>_ s.
       (Ok \<lparr>js_queued = count_tasks jobID (\<lambda>t. t_status t = TaskStatusQueued) s,
            js_processing = count_tasks jobID (\<lambda>t. t_status t = TaskStatusProcessing) s,
            js_done = count_tasks jobID (\<lambda>t. t_status t = TaskStatusDone) s,
            js_failed = count_tasks jobID (\<lambda>t. t_status t = TaskStatusFailed) s,
            js_skipped = count_tasks jobID (\<lambda>t. t_status t = TaskStatusSkipped) s,
            js_total = count_tasks jobID (\<lambda>_. True) s,
            js_attempts = sum_list (map t_attempts (filter (\<lambda>t. t_job t = jobID) (tasks s)))\<rparr>, s))"

section \<open>Documents, mapped URLs, the dedupe cache\<close>

definition insert_document :: "env \<Rightarrow> document \<Rightarrow> unit op" where
  "insert_document e d =
     exec e Pool (\<lambda>now s.
       let i = doc_seq s + 1; s' = s\<lparr>doc_seq := i\<rparr> in
       if \<not> job_exists (d_job d) s then (Fail ''violates foreign key constraint'', s')
       else (Ok (), s'\<lparr>documents := documents s @
         [\<lparr>d_job = d_job d, d_requested_url = d_requested_url d, d_final_url = d_final_url d,
           d_title = d_title d, d_content_md = d_content_md d, d_content_raw = d_content_raw d,
           d_meta = d_meta d, d_id = i, d_created_at = now\<rparr>]\<rparr>))"

definition has_seen_canonical :: "env \<Rightarrow> string \<Rightarrow> bool op" where
  "has_seen_canonical e url =
     exec e Pool (\<lambda>_ s. (Ok (length (filter (\<lambda>p. fst p = url) (dedupe_cache s)) > 0), s))"

definition mark_canonical :: "env \<Rightarrow> string \<Rightarrow> unit op" where
  "mark_canonical e url =
     exec e Pool (\<lambda>now s. (Ok (), s\<lparr>dedupe_cache := AList.update url now (dedupe_cache s)\<rparr>))"

definition should_skip_canonical ::
    "(string \<Rightarrow> (bool, 's) action) \<Rightarrow> string \<Rightarrow> (bool, 's) action" where
  "should_skip_canonical checker url =
     (if url = '''' then (\<lambda>s. (Ok False, s)) else checker url)"

definition insert_mapped_row :: "env \<Rightarrow> conn \<Rightarrow> mapped_insert \<Rightarrow> unit op" where
  "insert_mapped_row e c m =
     exec e c (\<lambda>now s.
       let i = map_seq s + 1; s' = s\<lparr>map_seq := i\<rparr> in
       if \<not> job_exists (m_job m) s then (Fail ''violates foreign key constraint'', s')
       else (Ok (), s'\<lparr>mapped_urls := mapped_urls s @
         [\<lparr>m_job = m_job m, m_source_url = m_source_url m, m_target_url = m_target_url m,
           m_depth = m_depth m, m_id = i, m_created_at = now\<rparr>]\<rparr>))"

fun insert_mapped_loop :: "env \<Rightarrow> conn \<Rightarrow> mapped_insert list \<Rightarrow> unit op" where
  "insert_mapped_loop e c [] = (\<lambda>s. (Ok (), s))"
| "insert_mapped_loop e c (m # ms) =
     andthen (insert_mapped_row e c m) (\<lambda>_. insert_mapped_loop e c ms)"

definition insert_mapped_batch :: "env \<Rightarrow> conn \<Rightarrow> mapped_insert list \<Rightarrow> unit op" where
  "insert_mapped_batch e c entries =
     (if length entries = 0 then (\<lambda>s. (Ok (), s))
      else andthen (prepare e c) (\<lambda>_. insert_mapped_loop e c entries))"

definition insert_mapped :: "env \<Rightarrow> string \<Rightarrow> string \<Rightarrow> string \<Rightarrow> int \<Rightarrow> unit op" where
  "insert_mapped e jobID src tgt depth =
     insert_mapped_batch e Pool
       [\<lparr>m_job = jobID, m_source_url = src, m_target_url = tgt, m_depth = depth\<rparr>]"

end
