(* ===== verification/StoreInv.thy ===== *)
theory StoreInv
  imports Store
begin

text \<open>
  What every statement of the store keeps true of the tables: keys are unique and were drawn
  from their sequence, a task is unique per job and final URL, foreign keys point to existing
  jobs, and the columns of a task agree with its status.  \<open>keeps I f\<close> says that the operation
  \<open>f\<close> leads from states with \<open>I\<close> to states with \<open>I\<close>, whatever it returns; the facts for the
  single statements are collected in \<open>keeps_intros\<close>.
\<close>

text \<open>\<open>I\<close> does not look at the interaction counter.\<close>

definition tick_free :: "(db \<Rightarrow> bool) \<Rightarrow> bool" where
  "tick_free I \<longleftrightarrow> (\<forall>s n. I (s\<lparr>tick := n\<rparr>) = I s)"

lemma keeps_exec:
  "tick_free I \<Longrightarrow> (\<And>now. keeps I (body now)) \<Longrightarrow> keeps I (exec e c body)"
  by (auto simp: keeps_def tick_free_def exec_def Let_def split: option.splits)

section \<open>The invariant of the tables\<close>

definition serial_ok :: "int list \<Rightarrow> int \<Rightarrow> bool" where
  "serial_ok ids n \<longleftrightarrow> distinct ids \<and> (\<forall>i \<in> set ids. 0 < i \<and> i \<le> n) \<and> 0 \<le> n"

lemma serial_ok_next [simp]: "serial_ok ids n \<Longrightarrow> serial_ok (ids @ [n + 1]) (n + 1)"
  by (fastforce simp: serial_ok_def)

lemma serial_ok_mono: "serial_ok ids n \<Longrightarrow> n \<le> m \<Longrightarrow> serial_ok ids m"
  by (fastforce simp: serial_ok_def)

lemma serial_ok_filter: "serial_ok (map f xs) n \<Longrightarrow> serial_ok (map f (filter P xs)) n"
  by (auto simp: serial_ok_def distinct_map_filter)

definition task_ok :: "task \<Rightarrow> bool" where
  "task_ok t \<longleftrightarrow> 0 \<le> t_attempts t \<and>
     (t_status t = TaskStatusProcessing \<longrightarrow> t_started_at t \<noteq> None) \<and>
     (t_status t = TaskStatusProcessing \<longrightarrow> t_heartbeat_at t \<noteq> None) \<and>
     (t_status t = TaskStatusFailed \<longrightarrow> t_error t \<noteq> None) \<and>
     (t_status t = TaskStatusFailed \<longrightarrow> 0 < t_attempts t)"

definition jobs_ok :: "db \<Rightarrow> bool" where
  "jobs_ok s \<longleftrightarrow> distinct (map j_id (jobs s)) \<and> (\<forall>j \<in> set (jobs s). j_type j \<in> set job_types)"

definition tasks_ok :: "db \<Rightarrow> bool" where
  "tasks_ok s \<longleftrightarrow> serial_ok (map t_id (tasks s)) (task_seq s) \<and>
     distinct (map (\<lambda>t. (t_job t, t_final_url t)) (tasks s)) \<and>
     (\<forall>t \<in> set (tasks s). job_exists (t_job t) s) \<and> (\<forall>t \<in> set (tasks s). task_ok t)"

definition docs_ok :: "db \<Rightarrow> bool" where
  "docs_ok s \<longleftrightarrow> serial_ok (map d_id (documents s)) (doc_seq s) \<and>
     (\<forall>d \<in> set (documents s). job_exists (d_job d) s)"

definition maps_ok :: "db \<Rightarrow> bool" where
  "maps_ok s \<longleftrightarrow> serial_ok (map m_id (mapped_urls s)) (map_seq s) \<and>
     (\<forall>m \<in> set (mapped_urls s). job_exists (m_job m) s)"

definition cache_ok :: "db \<Rightarrow> bool" where
  "cache_ok s \<longleftrightarrow> distinct (map fst (dedupe_cache s))"

definition db_inv :: "db \<Rightarrow> bool" where
  "db_inv s \<longleftrightarrow> jobs_ok s \<and> tasks_ok s \<and> docs_ok s \<and> maps_ok s \<and> cache_ok s"

lemmas db_inv_defs = db_inv_def jobs_ok_def tasks_ok_def docs_ok_def maps_ok_def cache_ok_def

lemma job_exists_simps [simp]:
  "job_exists i (s\<lparr>tasks := ts\<rparr>) = job_exists i s"
  "job_exists i (s\<lparr>task_seq := n\<rparr>) = job_exists i s"
  "job_exists i (s\<lparr>documents := ds\<rparr>) = job_exists i s"
  "job_exists i (s\<lparr>doc_seq := n\<rparr>) = job_exists i s"
  "job_exists i (s\<lparr>mapped_urls := ms\<rparr>) = job_exists i s"
  "job_exists i (s\<lparr>map_seq := n\<rparr>) = job_exists i s"
  "job_exists i (s\<lparr>dedupe_cache := c\<rparr>) = job_exists i s"
  "job_exists i (s\<lparr>tick := k\<rparr>) = job_exists i s"
  by (simp_all add: job_exists_def)

lemma tick_free_db_inv [simp]: "tick_free db_inv"
  by (simp add: tick_free_def db_inv_defs)

text \<open>A new database with empty tables.\<close>

definition empty_db :: db where
  "empty_db = \<lparr>jobs = [], tasks = [], documents = [], mapped_urls = [], dedupe_cache = [],
     task_seq = 0, doc_seq = 0, map_seq = 0, tick = 0\<rparr>"

lemma db_inv_empty: "db_inv empty_db"
  by (simp add: empty_db_def db_inv_defs serial_ok_def)

lemma db_inv_tick [simp]: "db_inv (s\<lparr>tick := n\<rparr>) = db_inv s"
  using tick_free_db_inv by (simp add: tick_free_def)

section \<open>Updates of rows\<close>

text \<open>An update of task rows that keeps the keys and the columns' agreement.\<close>

lemma db_inv_map_tasks:
  assumes "db_inv s" and "\<And>t. t_id (g t) = t_id t" and "\<And>t. t_job (g t) = t_job t"
    and "distinct (map (\<lambda>t. (t_job t, t_final_url t)) (map g (tasks s)))"
    and "\<And>t. t \<in> set (tasks s) \<Longrightarrow> task_ok t \<Longrightarrow> task_ok (g t)"
  shows "db_inv (s\<lparr>tasks := map g (tasks s)\<rparr>)"
  using assms by (auto simp: db_inv_defs o_def)

lemma db_inv_update_task:
  assumes "db_inv s" and "\<And>t. t_id (g t) = t_id t" and "\<And>t. t_job (g t) = t_job t"
    and "\<And>t. t_final_url (g t) = t_final_url t" and "\<And>t. task_ok t \<Longrightarrow> task_ok (g t)"
  shows "db_inv (update_task i g s)"
  unfolding update_task_def
proof (rule db_inv_map_tasks [OF assms(1)])
  have "map (\<lambda>t. (t_job t, t_final_url t)) (map (\<lambda>t. if t_id t = i then g t else t) (tasks s)) =
      map (\<lambda>t. (t_job t, t_final_url t)) (tasks s)" using assms(3,4) by simp
  then show "distinct (map (\<lambda>t. (t_job t, t_final_url t)) (map (\<lambda>t. if t_id t = i then g t else t) (tasks s)))"
    using assms(1) by (simp only: db_inv_defs)
qed (use assms in auto)

lemma db_inv_map_jobs:
  assumes "db_inv s" and "\<And>j. j_id (g j) = j_id j" and "\<And>j. j_type (g j) = j_type j"
  shows "db_inv (s\<lparr>jobs := map g (jobs s)\<rparr>)"
proof -
  have "job_exists i (s\<lparr>jobs := map g (jobs s)\<rparr>) = job_exists i s" for i
    using assms(2) by (simp add: job_exists_def image_image)
  then show ?thesis using assms by (auto simp: db_inv_defs o_def)
qed

lemma keeps_update_job [keeps_intros]:
  assumes "\<And>now j. j_id (g now j) = j_id j" and "\<And>now j. j_type (g now j) = j_type j"
  shows "keeps db_inv (exec e c (\<lambda>now s. (r, update_job i (g now) s)))"
  by (rule keeps_exec) (auto simp: keeps_def update_job_def intro!: db_inv_map_jobs assms)

lemma keeps_update_task [keeps_intros]:
  assumes "\<And>now t. t_id (g now t) = t_id t" and "\<And>now t. t_job (g now t) = t_job t"
    and "\<And>now t. t_final_url (g now t) = t_final_url t" and "\<And>now t. task_ok t \<Longrightarrow> task_ok (g now t)"
  shows "keeps db_inv (exec e c (\<lambda>now s. (r, update_task i (g now) s)))"
  by (rule keeps_exec) (auto simp: keeps_def intro!: db_inv_update_task assms)

text \<open>A statement that only reads.\<close>

lemma keeps_read [keeps_intros]: "keeps db_inv (exec e c (\<lambda>now s. (f now s, s)))"
  by (rule keeps_exec) (auto simp: keeps_def)

section \<open>The statements keep the invariant\<close>

lemma keeps_heartbeat [keeps_intros]: "keeps db_inv (update_task_heartbeat e i)"
  unfolding update_task_heartbeat_def by (rule keeps_update_task) (auto simp: task_ok_def)

lemma keeps_complete [keeps_intros]: "keeps db_inv (complete_task e i)"
  unfolding complete_task_def by (rule keeps_update_task) (auto simp: task_ok_def)

lemma keeps_fail [keeps_intros]: "keeps db_inv (fail_task e i reason)"
  unfolding fail_task_def by (rule keeps_update_task) (auto simp: task_ok_def)

lemma keeps_retry [keeps_intros]: "keeps db_inv (retry_task e i msg)"
  unfolding retry_task_def by (rule keeps_update_task) (auto simp: task_ok_def)

lemma keeps_start_job [keeps_intros]: "keeps db_inv (start_job e i)"
  unfolding start_job_def by (rule keeps_update_job) auto

lemma keeps_update_job_status [keeps_intros]: "keeps db_inv (update_job_status e i st msg)"
  unfolding update_job_status_def by (rule keeps_update_job) auto

lemma keeps_cancel_expired [keeps_intros]: "keeps db_inv (cancel_expired_jobs e)"
  unfolding cancel_expired_jobs_def
  by (rule keeps_exec) (auto simp: keeps_def intro!: db_inv_map_jobs)

lemma keeps_reads [keeps_intros]:
  "keeps db_inv (pending_task_counts e i)" "keeps db_inv (has_failed_tasks e i)"
  "keeps db_inv (task_count e i)" "keeps db_inv (get_job_stats e i)"
  "keeps db_inv (has_seen_canonical e u)" "keeps db_inv (prepare e c)" "keeps db_inv (begin_tx e)"
  by (simp_all add: pending_task_counts_def has_failed_tasks_def task_count_def get_job_stats_def
      has_seen_canonical_def prepare_def begin_tx_def keeps_read)

lemma keeps_get_job [keeps_intros]: "keeps db_inv (get_job e i)"
  unfolding get_job_def by (rule keeps_exec) (auto simp: keeps_def split: option.splits)

lemma keeps_finish_job [keeps_intros]: "keeps db_inv (finish_job e i)"
  unfolding finish_job_def by (auto intro!: keeps_intros)

lemma set_final_url_simps [simp]:
  "t_id (set_final_url rows now i url t) = t_id t"
  "t_job (set_final_url rows now i url t) = t_job t"
  "t_status (set_final_url rows now i url t) = t_status t"
  "t_heartbeat_at (set_final_url rows now i url t) = t_heartbeat_at t"
  "t_depth (set_final_url rows now i url t) = t_depth t"
  "t_attempts (set_final_url rows now i url t) = t_attempts t"
  "task_ok (set_final_url rows now i url t) = task_ok t"
  by (simp_all add: set_final_url_def task_ok_def)

lemma keeps_final_url [keeps_intros]: "keeps db_inv (update_task_final_url e i url)"
  unfolding update_task_final_url_def
proof (rule keeps_exec, simp, rule keepsI, simp)
  fix now s assume inv: "db_inv s"
  let ?g = "set_final_url (tasks s) now i url"
  have ids: "distinct (map t_id (tasks s))"
    and dist: "distinct (map (\<lambda>t. (t_job t, t_final_url t)) (tasks s))"
    using inv by (auto simp: db_inv_defs serial_ok_def)
  have "inj_on (\<lambda>t. (t_job (?g t), t_final_url (?g t))) (set (tasks s))"
  proof (rule inj_onI)
    fix t u assume t: "t \<in> set (tasks s)" and u: "u \<in> set (tasks s)"
      and eq: "(t_job (?g t), t_final_url (?g t)) = (t_job (?g u), t_final_url (?g u))"
    show "t = u"
    proof (rule ccontr)
      assume ne: "t \<noteq> u"
      have "t_id t \<noteq> t_id u" using ne distinct_map_inj_on_key [OF ids t u] by blast
      moreover have "(t_job t, t_final_url t) \<noteq> (t_job u, t_final_url u)"
        using ne distinct_map_inj_on_key [OF dist t u] by blast
      ultimately show False using eq t u by (auto simp: set_final_url_def split: if_splits)
    qed
  qed
  then have "distinct (map (\<lambda>t. (t_job t, t_final_url t)) (map ?g (tasks s)))"
    using ids by (simp add: distinct_map o_def)
  then show "db_inv (s\<lparr>tasks := map ?g (tasks s)\<rparr>)"
    using inv by (intro db_inv_map_tasks) auto
qed

lemma claim_candidates_in: "t \<in> set (claim_candidates l th s) \<Longrightarrow> t \<in> set (tasks s) \<and> claimable th t \<and> \<not> l (t_id t)"
  by (simp add: claim_candidates_def)

lemma keeps_dequeue [keeps_intros]: "keeps db_inv (dequeue_task e lease)"
proof (rule keepsI)
  fix s assume inv: "db_inv s"
  have "keeps db_inv (exec e Pool (\<lambda>now s.
      (case claim_candidates (row_locked e (tick s)) th s of
         [] \<Rightarrow> (Inl ErrNoRows, s)
       | t # _ \<Rightarrow> (Ok (claim now t), update_task (t_id t) (claim now) s))))" for th
    by (rule keeps_exec)
      (auto simp: keeps_def claim_def task_ok_def split: list.splits option.splits
        intro!: db_inv_update_task)
  then show "db_inv (snd (dequeue_task e lease s))"
    using inv by (auto simp: dequeue_task_def read_clock_def Let_def keeps_def)
qed

lemma keeps_insert_job [keeps_intros]: "keeps db_inv (insert_job e c typ params ex dl)"
  unfolding insert_job_def
proof (rule keeps_exec, simp, rule keepsI)
  fix now s assume inv: "db_inv s"
  let ?j = "\<lparr>j_id = new_uuid e (tick s), j_status = JobStatusQueued, j_type = typ, j_params = params,
     j_error = None, j_expires_at = Some ex, j_deadline = Some dl, j_created_at = now, j_updated_at = now\<rparr>"
  have "job_exists k s \<Longrightarrow> job_exists k (s\<lparr>jobs := jobs s @ [?j]\<rparr>)" for k
    by (auto simp: job_exists_def)
  then have "typ \<in> set job_types \<Longrightarrow> \<not> job_exists (new_uuid e (tick s)) s \<Longrightarrow>
      db_inv (s\<lparr>jobs := jobs s @ [?j]\<rparr>)"
    using inv by (auto simp: db_inv_defs job_exists_def [of "new_uuid e (tick s)"])
  then show "db_inv (snd (let i = new_uuid e (tick s) in
       if typ \<notin> set job_types then (Fail ''violates check constraint'', s)
       else if job_exists i s then (Fail ''duplicate key value violates unique constraint'', s)
       else (Ok i, s\<lparr>jobs := jobs s @
         [\<lparr>j_id = i, j_status = JobStatusQueued, j_type = typ, j_params = params, j_error = None,
           j_expires_at = Some ex, j_deadline = Some dl, j_created_at = now,
           j_updated_at = now\<rparr>]\<rparr>)))"
    using inv by (simp add: Let_def)
qed

lemma keeps_insert_task_row [keeps_intros]:
  "t_status t = TaskStatusQueued \<Longrightarrow> keeps db_inv (insert_task_row e c jobID t)"
  unfolding insert_task_row_def
  by (rule keeps_exec)
    (auto simp: keeps_def Let_def db_inv_defs task_ok_def intro: serial_ok_mono)

lemma keeps_insert_tasks_loop:
  "\<forall>t \<in> set ts. t_status t = TaskStatusQueued \<Longrightarrow> keeps db_inv (insert_tasks_loop e c jobID ts)"
  by (induction ts) (auto intro!: keeps_intros)

lemma keeps_insert_tasks [keeps_intros]:
  "\<forall>t \<in> set ts. t_status t = TaskStatusQueued \<Longrightarrow> keeps db_inv (insert_tasks e c jobID ts)"
  unfolding insert_tasks_def by (intro keeps_intros keeps_insert_tasks_loop)

lemma keeps_insert_document [keeps_intros]: "keeps db_inv (insert_document e d)"
  unfolding insert_document_def
  by (rule keeps_exec) (auto simp: keeps_def Let_def db_inv_defs intro: serial_ok_mono)

lemma keeps_insert_mapped_row [keeps_intros]: "keeps db_inv (insert_mapped_row e c m)"
  unfolding insert_mapped_row_def
  by (rule keeps_exec) (auto simp: keeps_def Let_def db_inv_defs intro: serial_ok_mono)

lemma keeps_insert_mapped_loop [keeps_intros]: "keeps db_inv (insert_mapped_loop e c ms)"
  by (induction ms) (auto intro!: keeps_intros)

lemma keeps_insert_mapped_batch [keeps_intros]: "keeps db_inv (insert_mapped_batch e c ms)"
  unfolding insert_mapped_batch_def by (intro keeps_intros)

lemma keeps_mark_canonical [keeps_intros]: "keeps db_inv (mark_canonical e u)"
  unfolding mark_canonical_def
  by (rule keeps_exec) (auto simp: keeps_def db_inv_defs distinct_update)

section \<open>A small database for concrete runs\<close>

text \<open>Clocks that count interactions, no failures, no locks, ids made of the interaction number.\<close>

definition demo_env :: env where
  "demo_env = \<lparr>go_now = int, pg_now = int, db_fault = (\<lambda>_. None), row_locked = (\<lambda>_ _. False),
     new_uuid = (\<lambda>n. replicate n CHR ''j''), collation_key = (\<lambda>x. x)\<rparr>"

definition demo_job :: job where
  "demo_job = \<lparr>j_id = ''j'', j_status = JobStatusRunning, j_type = ''crawl'', j_params = JNull, j_error = None,
     j_expires_at = Some 86400, j_deadline = Some 900, j_created_at = 0, j_updated_at = 0\<rparr>"

definition demo_task :: "int \<Rightarrow> string \<Rightarrow> task_status \<Rightarrow> task" where
  "demo_task i url st = \<lparr>t_id = i, t_job = ''j'', t_requested_url = url, t_final_url = url, t_depth = 0,
     t_status = st, t_error = Some ''e'', t_started_at = Some 0, t_heartbeat_at = Some 0,
     t_attempts = 1, t_created_at = 0, t_updated_at = 0\<rparr>"

definition demo_db :: db where
  "demo_db = \<lparr>jobs = [demo_job], tasks = [demo_task 1 ''u1'' TaskStatusQueued, demo_task 2 ''u2'' TaskStatusFailed],
     documents = [], mapped_urls = [], dedupe_cache = [], task_seq = 2, doc_seq = 0, map_seq = 0, tick = 5\<rparr>"

lemma demo_db_inv: "db_inv demo_db"
  by (simp add: demo_db_def demo_job_def demo_task_def db_inv_defs serial_ok_def task_ok_def job_exists_def job_types_def)

end
