(* ===== verification/Config.thy ===== *)
theory Config
  imports GoStrings
begin

text \<open>
  \<open>internal/config/config.go\<close>: the configuration records, their defaults and the
  cleanup switches.  Durations are nanoseconds in \<open>int\<close>, sizes are bytes in \<open>int\<close>.  Reading the YAML
  file and the environment is viper's work and not modelled.
\<close>

type_synonym duration = int

definition Millisecond :: duration where "Millisecond = 1000000"
definition Second :: duration where "Second = 1000000000"
definition Minute :: duration where "Minute = 60 * Second"
definition Hour :: duration where "Hour = 60 * Minute"

record server_config =
  sv_addr :: string

record database_config =
  db_url :: string
  db_max_open_conns :: int
  db_max_idle_conns :: int
  db_conn_max_idle :: duration
  db_conn_max_life :: duration

record http_config =
  hc_timeout :: duration
  hc_max_redirects :: int
  hc_max_body_bytes :: int
  hc_user_agent :: string

record worker_config =
  wc_pool_size :: int
  wc_per_host_limit :: int
  wc_per_host_rps :: int
  wc_max_retries :: int
  wc_backoff_base :: duration
  wc_backoff_max :: duration
  wc_lease_timeout :: duration
  wc_heartbeat_interval :: duration

record job_defaults =
  jd_max_tasks :: int
  jd_max_depth :: int
  jd_max_duration :: duration
  jd_max_bytes :: int
  jd_ttl :: duration
  jd_deadline :: duration

record crawl_config =
  cc_respect_robots :: bool
  cc_robots_fail_open :: bool
  cc_respect_nofollow :: bool
  cc_crawl_delay_ms :: int
  cc_strip_query :: bool
  cc_block_extensions :: "string list"
  cc_allowed_schemes :: "string list"
  cc_dedupe_cache :: bool
  cc_include_sitemaps :: bool
  cc_sitemap_url_limit :: int
  cc_sitemap_max_nested :: int

record browser_config =
  bc_enabled :: bool
  bc_headless :: bool
  bc_pool_size :: int
  bc_per_host_limit :: int
  bc_nav_timeout :: duration
  bc_wait_idle_timeout :: duration
  bc_executable_path :: string
  bc_user_agent :: string
  bc_viewport :: "int \<times> int"                      \<comment> \<open>width and height\<close>
  bc_max_page_lifetime :: duration

record cleanup_config =
  cl_interval :: duration
  cl_enabled :: bool
  cl_run_in :: "string list"
  cl_api_interval :: duration
  cl_worker_interval :: duration

record config =
  c_server :: server_config
  c_database :: database_config
  c_http :: http_config
  c_worker :: worker_config
  c_job_defaults :: job_defaults
  c_crawl :: crawl_config
  c_browser :: browser_config
  c_auth_enabled :: bool
  c_ratelimit_enabled :: bool
  c_cleanup :: cleanup_config

section \<open>Cleanup switches\<close>

fun any_fold :: "string list \<Rightarrow> string \<Rightarrow> bool" where
  "any_fold [] mode = False"
| "any_fold (m # ms) mode = (if equal_fold m mode then True else any_fold ms mode)"

definition enabled_for :: "cleanup_config \<Rightarrow> string \<Rightarrow> bool" where
  "enabled_for c mode =
     (if \<not> cl_enabled c then False
      else if length (cl_run_in c) = 0 then True
      else any_fold (cl_run_in c) mode)"

definition interval_for :: "cleanup_config \<Rightarrow> string \<Rightarrow> duration" where
  "interval_for c mode =
     (if mode = ''api'' \<and> cl_api_interval c > 0 then cl_api_interval c
      else if mode = ''worker'' \<and> cl_worker_interval c > 0 then cl_worker_interval c
      else cl_interval c)"

section \<open>The built-in defaults\<close>

text \<open>
  The values of \<open>applyDefaults\<close>, with the size strings read by \<open>parseByteSize\<close> and the duration
  strings by Go's duration syntax.
\<close>

definition default_config :: config where
  "default_config = \<lparr>
     c_server = \<lparr>sv_addr = '':8080''\<rparr>,
     c_database = \<lparr>db_url = '''', db_max_open_conns = 10, db_max_idle_conns = 5,
       db_conn_max_idle = 5 * Minute, db_conn_max_life = 30 * Minute\<rparr>,
     c_http = \<lparr>hc_timeout = 10 * Second, hc_max_redirects = 5, hc_max_body_bytes = 5 * 2 ^ 20,
       hc_user_agent = ''ByteFetchCrawler/0.1''\<rparr>,
     c_worker = \<lparr>wc_pool_size = 8, wc_per_host_limit = 2, wc_per_host_rps = 2, wc_max_retries = 3,
       wc_backoff_base = 500 * Millisecond, wc_backoff_max = 10 * Second,
       wc_lease_timeout = 60 * Second, wc_heartbeat_interval = 10 * Second\<rparr>,
     c_job_defaults = \<lparr>jd_max_tasks = 5000, jd_max_depth = 2, jd_max_duration = 15 * Minute,
       jd_max_bytes = 100 * 2 ^ 20, jd_ttl = 24 * Hour, jd_deadline = 15 * Minute\<rparr>,
     c_crawl = \<lparr>cc_respect_robots = True, cc_robots_fail_open = True, cc_respect_nofollow = False,
       cc_crawl_delay_ms = 0, cc_strip_query = True,
       cc_block_extensions = [''.pdf'', ''.jpg'', ''.jpeg'', ''.png'', ''.gif'', ''.webp'', ''.zip'',
         ''.tar'', ''.gz'', ''.exe'', ''.dmg'', ''.iso''],
       cc_allowed_schemes = [''http'', ''https''], cc_dedupe_cache = False,
       cc_include_sitemaps = False, cc_sitemap_url_limit = 1000, cc_sitemap_max_nested = 3\<rparr>,
     c_browser = \<lparr>bc_enabled = True, bc_headless = True, bc_pool_size = 4, bc_per_host_limit = 2,
       bc_nav_timeout = 15 * Second, bc_wait_idle_timeout = 3 * Second,
       bc_executable_path = '''', bc_user_agent = '''', bc_viewport = (1280, 720),
       bc_max_page_lifetime = 60 * Second\<rparr>,
     c_auth_enabled = False, c_ratelimit_enabled = False,
     c_cleanup = \<lparr>cl_interval = 1 * Hour, cl_enabled = True, cl_run_in = [],
       cl_api_interval = 0, cl_worker_interval = 0\<rparr>\<rparr>"

lemma any_fold_iff: "any_fold ms mode \<longleftrightarrow> (\<exists>m \<in> set ms. to_lower m = to_lower mode)"
  by (induction ms) (auto simp: equal_fold_def)

lemma enabled_for_iff:
  "enabled_for c mode \<longleftrightarrow> cl_enabled c \<and>
     (cl_run_in c = [] \<or> to_lower mode \<in> to_lower ` set (cl_run_in c))"
  by (auto simp: enabled_for_def any_fold_iff image_iff) metis

end
