(* ===== verification/Cleanup.thy ===== *)
theory Cleanup
  imports StoreInv Config
begin

text \<open>
  \<open>internal/cleanup/cleanup.go\<close>: one sweep connects, cancels the expired jobs and then deletes the
  jobs that are expired or past their deadline, with their tasks, documents and mapped URLs
  (\<open>ON DELETE CASCADE\<close>).  \<open>Run\<close> sweeps once and then at every tick of its timer until the
  context is done; the model runs it for a given number of ticks.

  The lemmas give the tables after a successful sweep exactly, and show that a sweep also
  removes finished jobs whose deadline has passed long before their time to live is over.
\<close>

definition past_deadline :: "time \<Rightarrow> job \<Rightarrow> bool" where
  "past_deadline now j \<longleftrightarrow> (case j_deadline j of None \<Rightarrow> False | Some x \<Rightarrow> x < now)"

definition cancel_if_expired :: "time \<Rightarrow> job \<Rightarrow> job" where
  "cancel_if_expired now j =
     (if expired now j \<and>
         j_status j \<notin> {JobStatusCancelled, JobStatusCompleted, JobStatusCompletedWithErrors}
      then j\<lparr>j_status := JobStatusCancelled, j_error := Some ''expired'', j_updated_at := now\<rparr> else j)"

text \<open>Deleting job rows, and what the foreign keys delete with them.\<close>

definition delete_jobs :: "(job \<Rightarrow> bool) \<Rightarrow> db \<Rightarrow> db" where
  "delete_jobs P s =
     (let gone = map j_id (filter P (jobs s))
      in s\<lparr>jobs := filter (\<lambda>j. \<not> P j) (jobs s),
           tasks := filter (\<lambda>t. t_job t \<notin> set gone) (tasks s),
           documents := filter (\<lambda>d. d_job d \<notin> set gone) (documents s),
           mapped_urls := filter (\<lambda>m. m_job m \<notin> set gone) (mapped_urls s)\<rparr>)"

definition connect :: "env \<Rightarrow> unit op" where
  "connect e = exec e Pool (\<lambda>_ s. (Ok (), s))"

definition cancel_expired :: "env \<Rightarrow> unit op" where
  "cancel_expired e = exec e Pool (\<lambda>now s. (Ok (), s\<lparr>jobs := map (cancel_if_expired now) (jobs s)\<rparr>))"

definition delete_expired :: "env \<Rightarrow> unit op" where
  "delete_expired e = exec e Pool (\<lambda>now s. (Ok (), delete_jobs (\<lambda>j. expired now j \<or> past_deadline now j) s))"

definition sweep :: "env \<Rightarrow> unit op" where
  "sweep e =
     andthen (connect e) (\<lambda>_.
       andthen (cancel_expired e) (\<lambda>_. delete_expired e))"

record cleanup_counters =
  cleanup_runs_total :: nat
  cleanup_errors_total :: nat

definition cleanup_round :: "env \<Rightarrow> cleanup_counters \<Rightarrow> db \<Rightarrow> cleanup_counters \<times> db" where
  "cleanup_round e m s =
     (case sweep e s of
        (Inl _, s') \<Rightarrow> (m\<lparr>cleanup_errors_total := Suc (cleanup_errors_total m)\<rparr>, s')
      | (Inr _, s') \<Rightarrow> (m\<lparr>cleanup_runs_total := Suc (cleanup_runs_total m)\<rparr>, s'))"

text \<open>\<open>Run\<close> up to the moment the context is done, after \<open>n\<close> ticks of the timer.\<close>

fun cleanup_run :: "env \<Rightarrow> nat \<Rightarrow> cleanup_counters \<Rightarrow> db \<Rightarrow> cleanup_counters \<times> db" where
  "cleanup_run e 0 m s = cleanup_round e m s"
| "cleanup_run e (Suc n) m s = (case cleanup_round e m s of (m', s') \<Rightarrow> cleanup_run e n m' s')"

section \<open>The invariant\<close>

lemma db_inv_delete_jobs: "db_inv s \<Longrightarrow> db_inv (delete_jobs P s)"
proof -
  assume inv: "db_inv s"
  let ?s = "delete_jobs P s"
  have ex: "job_exists i s \<Longrightarrow> i \<notin> set (map j_id (filter P (jobs s))) \<Longrightarrow> job_exists i ?s" for i
    by (auto simp: job_exists_def delete_jobs_def Let_def)
  have "jobs_ok ?s" using inv by (auto simp: db_inv_defs delete_jobs_def Let_def distinct_map_filter)
  moreover have "tasks_ok ?s"
    using inv ex by (auto simp: db_inv_defs serial_ok_filter distinct_map_filter)
      (auto simp: delete_jobs_def Let_def serial_ok_filter distinct_map_filter)
  moreover have "docs_ok ?s"
    using inv ex by (auto simp: db_inv_defs) (auto simp: delete_jobs_def Let_def serial_ok_filter)
  moreover have "maps_ok ?s"
    using inv ex by (auto simp: db_inv_defs) (auto simp: delete_jobs_def Let_def serial_ok_filter)
  moreover have "cache_ok ?s" using inv by (simp add: db_inv_defs delete_jobs_def Let_def)
  ultimately show ?thesis by (simp add: db_inv_def)
qed

lemma keeps_connect: "keeps db_inv (connect e)"
  by (simp add: connect_def keeps_read)

lemma keeps_cancel_expired_stmt: "keeps db_inv (cancel_expired e)"
  unfolding cancel_expired_def
  by (rule keeps_exec) (auto simp: keeps_def cancel_if_expired_def intro!: db_inv_map_jobs)

lemma keeps_delete_expired: "keeps db_inv (delete_expired e)"
  unfolding delete_expired_def by (rule keeps_exec) (auto simp: keeps_def db_inv_delete_jobs)

lemma keeps_sweep [keeps_intros]: "keeps db_inv (sweep e)"
  unfolding sweep_def
  by (intro keeps_intros keeps_connect keeps_cancel_expired_stmt keeps_delete_expired)

lemma keeps_cleanup_run: "db_inv s \<Longrightarrow> db_inv (snd (cleanup_run e n m s))"
proof -
  have r: "db_inv s \<Longrightarrow> db_inv (snd (cleanup_round e m s))" for m s
    using keepsD [OF keeps_sweep, of s e] by (auto simp: cleanup_round_def split: prod.splits sum.splits)
  show "db_inv s \<Longrightarrow> db_inv (snd (cleanup_run e n m s))"
  proof (induction n arbitrary: m s)
    case 0
    then show ?case using r by simp
  next
    case (Suc n)
    then show ?case using r [of s m] by (auto split: prod.splits)
  qed
qed

section \<open>What a sweep does\<close>

lemma exec_ok:
  "exec e c body s = (Inr x, s') \<Longrightarrow>
   db_fault e (tick s) = None \<and> body (stmt_now c (pg_now e (tick s))) (s\<lparr>tick := Suc (tick s)\<rparr>) = (Inr x, s')"
  by (auto simp: exec_def Let_def split: option.splits)

lemma cancel_if_expired_simps [simp]:
  "j_id (cancel_if_expired now j) = j_id j"
  "j_expires_at (cancel_if_expired now j) = j_expires_at j"
  "j_deadline (cancel_if_expired now j) = j_deadline j"
  by (simp_all add: cancel_if_expired_def)

lemma sweep_tables:
  assumes "sweep e s = (Ok (), s')"
  defines "n1 \<equiv> pg_now e (Suc (tick s))" and "n2 \<equiv> pg_now e (Suc (Suc (tick s)))"
  shows "s' = (delete_jobs (\<lambda>j. expired n2 j \<or> past_deadline n2 j)
    (s\<lparr>jobs := map (cancel_if_expired n1) (jobs s)\<rparr>))\<lparr>tick := tick s + 3\<rparr>"
  using assms(1)
  by (auto simp: sweep_def connect_def cancel_expired_def delete_expired_def stmt_now_def n1_def n2_def
      delete_jobs_def Let_def andthen_Ok_iff dest!: exec_ok)

text \<open>C29: After a successful sweep no job is left whose expiry or deadline is before the server's time, every
  other job is still there, and exactly the tasks, documents and mapped URLs of remaining jobs
  remain: a sweep never leaves a row without its job and never deletes a row of a job it keeps.\<close>

theorem sweep_exact:
  assumes "sweep e s = (Ok (), s')" and "db_inv s"
  defines "now \<equiv> pg_now e (Suc (Suc (tick s)))"
  shows "set (map j_id (jobs s')) = j_id ` {j \<in> set (jobs s). \<not> expired now j \<and> \<not> past_deadline now j}
    \<and> (\<forall>j \<in> set (jobs s'). \<not> expired now j \<and> \<not> past_deadline now j)
    \<and> tasks s' = filter (\<lambda>t. job_exists (t_job t) s') (tasks s)
    \<and> documents s' = filter (\<lambda>d. job_exists (d_job d) s') (documents s)
    \<and> mapped_urls s' = filter (\<lambda>m. job_exists (m_job m) s') (mapped_urls s)
    \<and> dedupe_cache s' = dedupe_cache s"
proof -
  let ?n1 = "pg_now e (Suc (tick s))"
  define P where "P = (\<lambda>j. expired now j \<or> past_deadline now j)"
  let ?c = "cancel_if_expired ?n1"
  have s': "s' = (delete_jobs P (s\<lparr>jobs := map ?c (jobs s)\<rparr>))\<lparr>tick := tick s + 3\<rparr>"
    using sweep_tables [OF assms(1)] by (simp add: now_def P_def)
  have P: "P (?c j) = P j" for j by (simp add: P_def expired_def past_deadline_def)
  have js: "jobs s' = map ?c (filter (\<lambda>j. \<not> P j) (jobs s))"
    by (simp add: s' delete_jobs_def Let_def filter_map o_def P)
  have ids: "set (map j_id (jobs s')) = j_id ` {j \<in> set (jobs s). \<not> P j}"
    unfolding js by (auto simp: image_image)
  have del: "set (map j_id (filter P (map ?c (jobs s)))) = j_id ` {j \<in> set (jobs s). P j}"
    by (auto simp: filter_map o_def P image_image)
  have gone: "i \<notin> set (map j_id (filter P (map ?c (jobs s)))) \<longleftrightarrow> job_exists i s'"
    if ex: "job_exists i s" for i
  proof -
    obtain j where j: "j \<in> set (jobs s)" "j_id j = i" using ex by (auto simp: job_exists_def)
    have u: "\<And>k. k \<in> set (jobs s) \<Longrightarrow> j_id k = i \<Longrightarrow> k = j"
      using assms(2) j distinct_map_inj_on_key [of j_id "jobs s"] by (auto simp: db_inv_defs)
    have "job_exists i s' \<longleftrightarrow> \<not> P j"
      unfolding job_exists_def ids using j u by blast
    moreover have "i \<in> set (map j_id (filter P (map ?c (jobs s)))) \<longleftrightarrow> P j"
      unfolding del using j u by blast
    ultimately show ?thesis by blast
  qed
  have fk: "\<forall>t \<in> set (tasks s). job_exists (t_job t) s" "\<forall>d \<in> set (documents s). job_exists (d_job d) s"
    "\<forall>m \<in> set (mapped_urls s). job_exists (m_job m) s"
    using assms(2) by (auto simp: db_inv_defs)
  have "tasks s' = filter (\<lambda>t. job_exists (t_job t) s') (tasks s)"
    "documents s' = filter (\<lambda>d. job_exists (d_job d) s') (documents s)"
    "mapped_urls s' = filter (\<lambda>m. job_exists (m_job m) s') (mapped_urls s)"
    unfolding s' using gone fk by (simp_all add: s' delete_jobs_def Let_def cong: filter_cong)
  moreover have "dedupe_cache s' = dedupe_cache s" by (simp add: s' delete_jobs_def Let_def)
  moreover have "\<forall>j \<in> set (jobs s'). \<not> P j" using P by (auto simp: js)
  ultimately show ?thesis using ids by (simp add: P_def)
qed

theorem sweep_exact_witness:
  "sweep demo_env (demo_db\<lparr>tick := 1000\<rparr>) = (Ok (), snd (sweep demo_env (demo_db\<lparr>tick := 1000\<rparr>))) \<and>
   tasks (snd (sweep demo_env (demo_db\<lparr>tick := 1000\<rparr>))) = []"
proof -
  have r: "fst (sweep demo_env (demo_db\<lparr>tick := 1000\<rparr>)) = Ok ()" by code_simp
  then have s: "sweep demo_env (demo_db\<lparr>tick := 1000\<rparr>) = (Ok (), snd (sweep demo_env (demo_db\<lparr>tick := 1000\<rparr>)))"
    by (simp add: prod_eq_iff)
  note x = sweep_exact [OF s]
  have "db_inv (demo_db\<lparr>tick := 1000\<rparr>)" by (simp add: demo_db_inv)
  note x = sweep_exact [OF s this]
  have "jobs (snd (sweep demo_env (demo_db\<lparr>tick := 1000\<rparr>))) = []" by code_simp
  then show ?thesis using x s by (simp add: job_exists_def)
qed

lemma in_delete_jobs:
  "d \<in> set (documents (delete_jobs P s)) \<longleftrightarrow>
     d \<in> set (documents s) \<and> d_job d \<notin> set (map j_id (filter P (jobs s)))"
  "m \<in> set (mapped_urls (delete_jobs P s)) \<longleftrightarrow>
     m \<in> set (mapped_urls s) \<and> m_job m \<notin> set (map j_id (filter P (jobs s)))"
  by (simp_all add: delete_jobs_def Let_def)

text \<open>A sweep deletes a job whose deadline has passed whatever its status and however much of its time to live is
  left: a completed job is gone, with its tasks, documents and mapped URLs, as soon as the
  processing deadline is over.\<close>

theorem sweep_deletes_past_deadline:
  assumes "sweep e s = (Ok (), s')" and "db_inv s" and "j \<in> set (jobs s)"
    and "j_deadline j = Some d" and "d < pg_now e (Suc (Suc (tick s)))"
  shows "\<not> job_exists (j_id j) s' \<and> (\<forall>d \<in> set (documents s'). d_job d \<noteq> j_id j)
    \<and> (\<forall>m \<in> set (mapped_urls s'). m_job m \<noteq> j_id j)"
proof -
  let ?n1 = "pg_now e (Suc (tick s))" and ?n2 = "pg_now e (Suc (Suc (tick s)))"
  define P where "P = (\<lambda>j. expired ?n2 j \<or> past_deadline ?n2 j)"
  let ?s = "s\<lparr>jobs := map (cancel_if_expired ?n1) (jobs s)\<rparr>"
  have P: "P (cancel_if_expired ?n1 k) = P k" for k by (simp add: P_def expired_def past_deadline_def)
  have Pj: "P j" using assms(4,5) by (simp add: P_def past_deadline_def)
  have u: "k = j" if "k \<in> set (jobs s)" "j_id k = j_id j" for k
    using assms(2,3) that distinct_map_inj_on_key [of j_id "jobs s" k j] by (simp add: db_inv_defs)
  have gone: "j_id j \<in> set (map j_id (filter P (jobs ?s)))"
    using assms(3) P Pj by (force simp: image_iff)
  have "\<not> job_exists (j_id j) (delete_jobs P ?s)"
    using P Pj u by (auto simp: job_exists_def delete_jobs_def Let_def)
  then show ?thesis
    unfolding sweep_tables [OF assms(1)] P_def [symmetric]
    using gone in_delete_jobs [of _ P ?s] by (simp del: set_map) metis
qed

theorem sweep_deletes_past_deadline_witness:
  "\<not> job_exists ''j'' (snd (sweep demo_env (demo_db\<lparr>tick := 1000, jobs := [demo_job\<lparr>j_status := JobStatusCompleted\<rparr>]\<rparr>)))"
proof -
  let ?s = "demo_db\<lparr>tick := 1000, jobs := [demo_job\<lparr>j_status := JobStatusCompleted\<rparr>]\<rparr>"
  have "fst (sweep demo_env ?s) = Ok ()" by code_simp
  then have s: "sweep demo_env ?s = (Ok (), snd (sweep demo_env ?s))" by (simp add: prod_eq_iff)
  have "db_inv ?s"
    by (simp add: demo_db_def demo_job_def demo_task_def db_inv_defs serial_ok_def task_ok_def job_exists_def job_types_def)
  from sweep_deletes_past_deadline [OF s this, of "demo_job\<lparr>j_status := JobStatusCompleted\<rparr>" 900]
  show ?thesis by (simp add: demo_job_def demo_env_def)
qed


end
