(* ===== verification/Queue.thy ===== *)
theory Queue
  imports Cleanup
begin

text \<open>
  The task queue seen as a whole: what a claim returns, when a job is finished, how the
  counts of a job fit together, and the lease that keeps two workers from holding the same
  task.  \<open>store_call\<close> names every statement of the store with its arguments, so a list of calls
  is an interleaving of the statements of any number of workers, API handlers and cleanup loops.
\<close>

section \<open>Interleavings of statements\<close>

datatype store_call =
    CallInsertJob string json time time
  | CallInsertTasks string "task list"
  | CallDequeue int
  | CallFinalURL int string
  | CallHeartbeat int
  | CallComplete int
  | CallFail int string
  | CallRetry int string
  | CallStartJob string
  | CallJobStatus string job_status string
  | CallFinish string
  | CallCancelExpired
  | CallInsertDocument document
  | CallInsertMapped "mapped_insert list"
  | CallMark string
  | CallSweep

fun run_call :: "env \<Rightarrow> store_call \<Rightarrow> db \<Rightarrow> db" where
  "run_call e (CallInsertJob typ params ex dl) s = ignoring (insert_job e Pool typ params ex dl) s"
| "run_call e (CallInsertTasks j ts) s = ignoring (insert_tasks e Pool j ts) s"
| "run_call e (CallDequeue lease) s = ignoring (dequeue_task e lease) s"
| "run_call e (CallFinalURL i url) s = ignoring (update_task_final_url e i url) s"
| "run_call e (CallHeartbeat i) s = ignoring (update_task_heartbeat e i) s"
| "run_call e (CallComplete i) s = ignoring (complete_task e i) s"
| "run_call e (CallFail i msg) s = ignoring (fail_task e i msg) s"
| "run_call e (CallRetry i msg) s = ignoring (retry_task e i msg) s"
| "run_call e (CallStartJob j) s = ignoring (start_job e j) s"
| "run_call e (CallJobStatus j st msg) s = ignoring (update_job_status e j st msg) s"
| "run_call e (CallFinish j) s = ignoring (finish_job e j) s"
| "run_call e CallCancelExpired s = ignoring (cancel_expired_jobs e) s"
| "run_call e (CallInsertDocument d) s = ignoring (insert_document e d) s"
| "run_call e (CallInsertMapped ms) s = ignoring (insert_mapped_batch e Pool ms) s"
| "run_call e (CallMark u) s = ignoring (mark_canonical e u) s"
| "run_call e CallSweep s = ignoring (sweep e) s"

text \<open>The program only inserts tasks in the queued state.\<close>

fun call_ok :: "store_call \<Rightarrow> bool" where
  "call_ok (CallInsertTasks j ts) = (\<forall>t \<in> set ts. t_status t = TaskStatusQueued)"
| "call_ok _ = True"

inductive store_step :: "env \<Rightarrow> db \<Rightarrow> db \<Rightarrow> bool" for e where
  call: "call_ok c \<Longrightarrow> store_step e s (run_call e c s)"

inductive store_reachable :: "env \<Rightarrow> db \<Rightarrow> bool" for e where
  start: "store_reachable e empty_db"
| step: "store_reachable e s \<Longrightarrow> store_step e s s' \<Longrightarrow> store_reachable e s'"

lemma keeps_ignoring: "keeps I f \<Longrightarrow> I s \<Longrightarrow> I (ignoring f s)"
  by (simp add: keeps_def ignoring_def)

lemma run_call_inv: "call_ok c \<Longrightarrow> db_inv s \<Longrightarrow> db_inv (run_call e c s)"
  by (cases c) (auto intro!: keeps_ignoring [where I = db_inv] keeps_intros)

text \<open>In every state that any interleaving of statements (from workers, API handlers and cleanup, with
  arbitrary arguments, failures and clocks) can reach, serial ids are unique and drawn from
  their sequence, no two tasks of a job have the same final URL, every task, document and mapped
  URL belongs to an existing job, a task being processed has a start and a heartbeat time, a
  failed task has an error and a counted attempt, and the dedupe cache has one row per URL.\<close>

theorem store_reachable_inv: "store_reachable e s \<Longrightarrow> db_inv s"
proof (induction rule: store_reachable.induct)
  case start
  show ?case by (rule db_inv_empty)
next
  case (step s s')
  then show ?case by (auto elim!: store_step.cases intro: run_call_inv)
qed

section \<open>Claiming a task\<close>

lemma hd_sort_key_min:
  assumes "sort_key f xs = x # ys"
  shows "x \<in> set xs" and "\<And>y. y \<in> set xs \<Longrightarrow> f x \<le> f y"
proof -
  have "set xs = set (x # ys)" using assms set_sort by metis
  then show "x \<in> set xs" by simp
  have "sorted (map f (x # ys))" using assms sorted_sort_key by metis
  then show "\<And>y. y \<in> set xs \<Longrightarrow> f x \<le> f y" using \<open>set xs = set (x # ys)\<close> by auto
qed

lemma claim_candidates_Nil:
  "claim_candidates l th s = [] \<longleftrightarrow> (\<forall>t \<in> set (tasks s). \<not> (claimable th t \<and> \<not> l (t_id t)))"
proof -
  have "sort_key t_id xs = [] \<longleftrightarrow> xs = []" for xs :: "task list"
    by (metis length_0_conv length_sort)
  then show ?thesis by (auto simp: claim_candidates_def filter_empty_conv)
qed

lemma dequeue_Ok:
  assumes "dequeue_task e lease s = (Ok t, s')"
  defines "now \<equiv> pg_now e (Suc (tick s))" and "th \<equiv> go_now e (tick s) - lease"
  shows "\<exists>t0 \<in> set (tasks s). t = claim now t0 \<and> claimable th t0 \<and> \<not> row_locked e (tick s + 2) (t_id t0)
    \<and> (\<forall>u \<in> set (tasks s). claimable th u \<and> \<not> row_locked e (tick s + 2) (t_id u) \<longrightarrow> t_id t0 \<le> t_id u)
    \<and> s' = update_task (t_id t0) (claim now) (s\<lparr>tick := tick s + 2\<rparr>)"
proof -
  let ?s = "s\<lparr>tick := Suc (Suc (tick s))\<rparr>"
  from assms(1) obtain t0 ts where c: "claim_candidates (row_locked e (Suc (Suc (tick s)))) th ?s = t0 # ts"
    and t: "t = claim now t0" and s': "s' = update_task (t_id t0) (claim now) ?s"
    by (auto simp: dequeue_task_def read_clock_def Let_def th_def now_def stmt_now_def
        dest!: exec_ok split: list.splits)
  note m = hd_sort_key_min [OF c [unfolded claim_candidates_def]]
  show ?thesis using m t s' by (intro bexI [of _ t0]) auto
qed


section \<open>Counting and finishing\<close>

lemma count_tasks_nonneg [simp]: "0 \<le> count_tasks j P s"
  by (simp add: count_tasks_def)

lemma count_tasks_pos: "0 < count_tasks j P s \<longleftrightarrow> (\<exists>t \<in> set (tasks s). t_job t = j \<and> P t)"
  by (auto simp: count_tasks_def filter_empty_conv)

lemma count_tasks_split:
  "count_tasks j (\<lambda>_. True) s =
     count_tasks j (\<lambda>t. t_status t = TaskStatusQueued) s + count_tasks j (\<lambda>t. t_status t = TaskStatusProcessing) s
   + count_tasks j (\<lambda>t. t_status t = TaskStatusDone) s + count_tasks j (\<lambda>t. t_status t = TaskStatusFailed) s
   + count_tasks j (\<lambda>t. t_status t = TaskStatusSkipped) s"
proof -
  have "length (filter (\<lambda>t. t_job t = j) ts) =
     length (filter (\<lambda>t. t_job t = j \<and> t_status t = TaskStatusQueued) ts)
   + length (filter (\<lambda>t. t_job t = j \<and> t_status t = TaskStatusProcessing) ts)
   + length (filter (\<lambda>t. t_job t = j \<and> t_status t = TaskStatusDone) ts)
   + length (filter (\<lambda>t. t_job t = j \<and> t_status t = TaskStatusFailed) ts)
   + length (filter (\<lambda>t. t_job t = j \<and> t_status t = TaskStatusSkipped) ts)" for ts
    by (induction ts) (auto split: task_status.splits intro: task_status.exhaust)
  from this [of "tasks s"] show ?thesis by (simp add: count_tasks_def)
qed

text \<open>The statistics of a job add up: the total is the sum of the five status counts, the total is what the
  task limit counts, and no count and no attempt sum is negative.\<close>

theorem job_stats_sum:
  assumes "db_inv s" and "get_job_stats e j s = (Ok st, s')"
  shows "js_total st = js_queued st + js_processing st + js_done st + js_failed st + js_skipped st
    \<and> js_total st = int (length (filter (\<lambda>t. t_job t = j) (tasks s)))
    \<and> 0 \<le> js_queued st \<and> 0 \<le> js_processing st \<and> 0 \<le> js_done st \<and> 0 \<le> js_failed st
    \<and> js_failed st \<le> js_attempts st \<and> s' = s\<lparr>tick := Suc (tick s)\<rparr>"
proof -
  let ?s = "s\<lparr>tick := Suc (tick s)\<rparr>"
  have st: "st = \<lparr>js_queued = count_tasks j (\<lambda>t. t_status t = TaskStatusQueued) ?s,
            js_processing = count_tasks j (\<lambda>t. t_status t = TaskStatusProcessing) ?s,
            js_done = count_tasks j (\<lambda>t. t_status t = TaskStatusDone) ?s,
            js_failed = count_tasks j (\<lambda>t. t_status t = TaskStatusFailed) ?s,
            js_skipped = count_tasks j (\<lambda>t. t_status t = TaskStatusSkipped) ?s,
            js_total = count_tasks j (\<lambda>_. True) ?s,
            js_attempts = sum_list (map t_attempts (filter (\<lambda>t. t_job t = j) (tasks ?s)))\<rparr>"
    and s': "s' = ?s"
    using assms(2) by (auto simp: get_job_stats_def dest!: exec_ok)
  have "\<forall>t \<in> set ts. task_ok t \<Longrightarrow> int (length (filter (\<lambda>t. t_job t = j \<and> t_status t = TaskStatusFailed) ts))
      \<le> sum_list (map t_attempts (filter (\<lambda>t. t_job t = j) ts))" for ts
    by (induction ts) (auto simp: task_ok_def)
  moreover have "\<forall>t \<in> set (tasks s). task_ok t" using assms(1) by (simp add: db_inv_defs)
  ultimately have "js_failed st \<le> js_attempts st" by (simp add: st count_tasks_def)
  then show ?thesis using count_tasks_split [of j ?s] s' by (simp add: st) (simp add: count_tasks_def)
qed

text \<open>The tables when no statement fails.\<close>

definition no_faults :: "env \<Rightarrow> bool" where
  "no_faults e \<longleftrightarrow> (\<forall>n. db_fault e n = None)"

lemma exec_no_faults:
  "no_faults e \<Longrightarrow> exec e c body s = body (stmt_now c (pg_now e (tick s))) (s\<lparr>tick := Suc (tick s)\<rparr>)"
  by (simp add: no_faults_def exec_def Let_def)

definition job_pending :: "string \<Rightarrow> db \<Rightarrow> bool" where
  "job_pending j s \<longleftrightarrow>
     (\<exists>t \<in> set (tasks s). t_job t = j \<and> t_status t \<in> {TaskStatusQueued, TaskStatusProcessing})"

definition job_has_failed :: "string \<Rightarrow> db \<Rightarrow> bool" where
  "job_has_failed j s \<longleftrightarrow> (\<exists>t \<in> set (tasks s). t_job t = j \<and> t_status t = TaskStatusFailed)"

lemma count_tasks_tick [simp]: "count_tasks j P (s\<lparr>tick := n\<rparr>) = count_tasks j P s"
  by (simp add: count_tasks_def)

lemma update_job_tick [simp]: "update_job j f (s\<lparr>tick := n\<rparr>) = (update_job j f s)\<lparr>tick := n\<rparr>"
  by (simp add: update_job_def)

lemma update_task_tick [simp]: "update_task i f (s\<lparr>tick := n\<rparr>) = (update_task i f s)\<lparr>tick := n\<rparr>"
  by (simp add: update_task_def)

definition finished :: "job_status \<Rightarrow> time \<Rightarrow> job \<Rightarrow> job" where
  "finished st now j = j\<lparr>j_status := st, j_error := None, j_updated_at := now\<rparr>"

lemma finish_job_no_faults:
  assumes "no_faults e"
  shows "finish_job e j s =
    (if job_pending j s then (Inl errPending, s\<lparr>tick := tick s + 1\<rparr>)
     else (Ok (), (update_job j (finished
             (if job_has_failed j s then JobStatusCompletedWithErrors else JobStatusCompleted)
             (pg_now e (tick s + 2))) s)\<lparr>tick := tick s + 3\<rparr>))"
proof -
  have pend: "0 < count_tasks j (\<lambda>t. t_status t = TaskStatusQueued) s +
      count_tasks j (\<lambda>t. t_status t = TaskStatusProcessing) s \<longleftrightarrow> job_pending j s"
    using count_tasks_pos [of j "\<lambda>t. t_status t = TaskStatusQueued" s]
      count_tasks_pos [of j "\<lambda>t. t_status t = TaskStatusProcessing" s]
      count_tasks_nonneg [of j "\<lambda>t. t_status t = TaskStatusQueued" s]
      count_tasks_nonneg [of j "\<lambda>t. t_status t = TaskStatusProcessing" s]
    by (auto simp: job_pending_def simp del: count_tasks_nonneg)
  have failed: "0 < count_tasks j (\<lambda>t. t_status t = TaskStatusFailed) s \<longleftrightarrow> job_has_failed j s"
    by (simp add: count_tasks_pos job_has_failed_def)
  show ?thesis
    using assms pend failed
    by (simp add: finish_job_def pending_task_counts_def has_failed_tasks_def update_job_status_def
        exec_no_faults andthen_def stmt_now_def nullif_empty_def finished_def [abs_def])
qed

text \<open>C26: When no statement fails, \<open>FinishJob\<close> refuses exactly while a task of the job is queued or processing and
  then changes nothing; otherwise it marks the job as completed, or as completed with errors if
  and only if some task failed, clears its error, and changes no other row.\<close>

theorem finish_job_spec:
  assumes "no_faults e"
  shows "finish_job e j s =
    (if job_pending j s then (Inl errPending, s\<lparr>tick := tick s + 1\<rparr>)
     else (Ok (), (update_job j (finished
             (if job_has_failed j s then JobStatusCompletedWithErrors else JobStatusCompleted)
             (pg_now e (tick s + 2))) s)\<lparr>tick := tick s + 3\<rparr>))"
  using assms by (rule finish_job_no_faults)

section \<open>Leases\<close>

text \<open>
  The claim of a worker on task \<open>x\<close> made no earlier than the server's time \<open>h\<close>: as long as nobody
  puts the task back into the queue, its row is finished or deleted, or it is processing with a
  heartbeat of at least \<open>h\<close>.
\<close>

definition lease_held :: "int \<Rightarrow> time \<Rightarrow> db \<Rightarrow> bool" where
  "lease_held x h s \<longleftrightarrow> x \<le> task_seq s \<and>
     (\<forall>t \<in> set (tasks s). t_id t = x \<longrightarrow> t_status t \<noteq> TaskStatusQueued \<and>
        (t_status t = TaskStatusProcessing \<longrightarrow> (\<exists>h'. t_heartbeat_at t = Some h' \<and> h \<le> h')))"

text \<open>The lease together with the clock: from interaction \<open>n\<close> on, the server's time is at least \<open>h\<close>.\<close>

definition lease_at :: "env \<Rightarrow> int \<Rightarrow> time \<Rightarrow> nat \<Rightarrow> db \<Rightarrow> bool" where
  "lease_at e x h n s \<longleftrightarrow> lease_held x h s \<and> n \<le> tick s \<and> (\<forall>k \<ge> n. h \<le> pg_now e k)"

lemma keeps_lease_exec:
  assumes "\<And>now s. h \<le> now \<Longrightarrow> lease_held x h s \<Longrightarrow> lease_held x h (snd (body now s)) \<and> tick (snd (body now s)) = tick s"
  shows "keeps (lease_at e x h n) (exec e Pool body)"
proof (rule keepsI)
  fix s assume l: "lease_at e x h n s"
  let ?s = "s\<lparr>tick := Suc (tick s)\<rparr>"
  have "h \<le> pg_now e (tick s)" and "lease_held x h ?s"
    using l by (auto simp: lease_at_def lease_held_def)
  then have "lease_held x h (snd (body (pg_now e (tick s)) ?s)) \<and> tick (snd (body (pg_now e (tick s)) ?s)) = Suc (tick s)"
    using assms [of "pg_now e (tick s)" ?s] by simp
  then show "lease_at e x h n (snd (exec e Pool body s))"
    using l \<open>lease_held x h ?s\<close> by (auto simp: lease_at_def exec_def Let_def stmt_now_def split: option.splits)
qed

lemma keeps_lease_task:
  assumes "\<And>now t. t_id (g now t) = t_id t"
    and "\<And>now t. h \<le> now \<Longrightarrow> t_id t = x \<Longrightarrow> i = x \<Longrightarrow> t_status t \<noteq> TaskStatusQueued \<Longrightarrow>
      t_status (g now t) \<noteq> TaskStatusQueued \<and>
      (t_status (g now t) = TaskStatusProcessing \<longrightarrow>
         (\<exists>h'. t_heartbeat_at (g now t) = Some h' \<and> h \<le> h') \<or>
         (t_status t = TaskStatusProcessing \<and> t_heartbeat_at (g now t) = t_heartbeat_at t))"
  shows "keeps (lease_at e x h n) (exec e Pool (\<lambda>now s. (r, update_task i (g now) s)))"
  by (rule keeps_lease_exec)
    (use assms in \<open>fastforce simp: lease_held_def update_task_def\<close>)

lemma lease_held_frame [simp]:
  "lease_held x h (s\<lparr>jobs := js\<rparr>) = lease_held x h s"
  "lease_held x h (s\<lparr>documents := ds\<rparr>) = lease_held x h s"
  "lease_held x h (s\<lparr>doc_seq := k\<rparr>) = lease_held x h s"
  "lease_held x h (s\<lparr>mapped_urls := ms\<rparr>) = lease_held x h s"
  "lease_held x h (s\<lparr>map_seq := k\<rparr>) = lease_held x h s"
  "lease_held x h (s\<lparr>dedupe_cache := c\<rparr>) = lease_held x h s"
  "lease_held x h (s\<lparr>tick := k\<rparr>) = lease_held x h s"
  by (simp_all add: lease_held_def)

lemma lease_held_delete: "lease_held x h s \<Longrightarrow> lease_held x h (delete_jobs P s)"
  by (auto simp: lease_held_def delete_jobs_def Let_def)

text \<open>Every call except a retry of \<open>x\<close> itself keeps the lease.\<close>

lemma keeps_lease_insert_tasks: "keeps (lease_at e x h n) (insert_tasks e Pool j ts)"
proof -
  have row: "keeps (lease_at e x h n) (insert_task_row e Pool j t)" for t
    unfolding insert_task_row_def by (rule keeps_lease_exec) (auto simp: lease_held_def Let_def)
  have prep: "keeps (lease_at e x h n) (prepare e Pool)"
    unfolding prepare_def by (rule keeps_lease_exec) simp
  have "keeps (lease_at e x h n) (insert_tasks_loop e Pool j ts)"
    by (induction ts) (auto intro!: keeps_intros row)
  with prep show ?thesis unfolding insert_tasks_def by (intro keeps_intros)
qed

lemma keeps_lease_insert_mapped: "keeps (lease_at e x h n) (insert_mapped_batch e Pool ms)"
proof -
  have row: "keeps (lease_at e x h n) (insert_mapped_row e Pool m)" for m
    unfolding insert_mapped_row_def by (rule keeps_lease_exec) (auto simp: Let_def lease_held_def)
  have prep: "keeps (lease_at e x h n) (prepare e Pool)"
    unfolding prepare_def by (rule keeps_lease_exec) simp
  have "keeps (lease_at e x h n) (insert_mapped_loop e Pool ms)"
    by (induction ms) (auto intro!: keeps_intros row)
  with prep show ?thesis unfolding insert_mapped_batch_def by (intro keeps_intros)
qed

lemma keeps_lease_dequeue: "keeps (lease_at e x h n) (dequeue_task e lease)"
proof (rule keepsI)
  fix s assume l: "lease_at e x h n s"
  have k: "keeps (lease_at e x h n) (exec e Pool (\<lambda>now s.
      (case claim_candidates (row_locked e (tick s)) th s of
         [] \<Rightarrow> (Inl ErrNoRows, s)
       | t # _ \<Rightarrow> (Ok (claim now t), update_task (t_id t) (claim now) s))))" for th
    by (rule keeps_lease_exec)
      (auto simp: lease_held_def update_task_def claim_def split: list.splits)
  have "lease_at e x h n (s\<lparr>tick := Suc (tick s)\<rparr>)" using l by (simp add: lease_at_def)
  then show "lease_at e x h n (snd (dequeue_task e lease s))"
    using keepsD [OF k] by (simp add: dequeue_task_def read_clock_def Let_def)
qed

lemma keeps_lease_finish: "keeps (lease_at e x h n) (finish_job e j)"
  unfolding finish_job_def pending_task_counts_def has_failed_tasks_def update_job_status_def
  by (intro keeps_intros keeps_lease_exec; auto intro!: keeps_intros keeps_lease_exec simp: update_job_def)

lemma keeps_lease_sweep: "keeps (lease_at e x h n) (sweep e)"
proof -
  have "keeps (lease_at e x h n) (connect e)"
    unfolding connect_def by (rule keeps_lease_exec) simp
  moreover have "keeps (lease_at e x h n) (cancel_expired e)"
    unfolding cancel_expired_def by (rule keeps_lease_exec) (auto simp: lease_held_def)
  moreover have "keeps (lease_at e x h n) (delete_expired e)"
    unfolding delete_expired_def
    by (rule keeps_lease_exec) (auto simp: lease_held_delete, simp add: delete_jobs_def Let_def)
  ultimately show ?thesis unfolding sweep_def by (auto intro!: keeps_intros)
qed

lemma run_call_lease:
  assumes "\<And>msg. c \<noteq> CallRetry x msg" and "lease_at e x h n s"
  shows "lease_at e x h n (run_call e c s)"
proof -
  have u: "keeps (lease_at e x h n) (update_task_final_url e i url)" for i url
    unfolding update_task_final_url_def by (rule keeps_lease_exec) (auto simp: lease_held_def)
  have r: "keeps (lease_at e x h n) (retry_task e i msg)" if "i \<noteq> x" for i msg
    unfolding retry_task_def by (rule keeps_lease_task) (use that in auto)
  have t: "keeps (lease_at e x h n) (update_task_heartbeat e i)"
    "keeps (lease_at e x h n) (complete_task e i)" "keeps (lease_at e x h n) (fail_task e i msg)" for i msg
    unfolding update_task_heartbeat_def complete_task_def fail_task_def
    by (rule keeps_lease_task; simp)+
  have j: "keeps (lease_at e x h n) (start_job e i)" "keeps (lease_at e x h n) (update_job_status e i st msg)"
    "keeps (lease_at e x h n) (cancel_expired_jobs e)" "keeps (lease_at e x h n) (mark_canonical e i)"
    "keeps (lease_at e x h n) (insert_job e Pool i ps ex dl)" "keeps (lease_at e x h n) (insert_document e d)"
    for i st msg ps ex dl d
    unfolding start_job_def update_job_status_def cancel_expired_jobs_def mark_canonical_def
      insert_job_def insert_document_def
    by (rule keeps_lease_exec; auto simp: lease_held_def update_job_def Let_def)+
  note ops = u t j keeps_lease_insert_tasks keeps_lease_insert_mapped keeps_lease_dequeue
    keeps_lease_finish keeps_lease_sweep
  show ?thesis
    using assms by (cases c) (auto intro!: keeps_ignoring [where I = "lease_at e x h n"] ops r)
qed

lemma run_calls_lease:
  "(\<And>msg. CallRetry x msg \<notin> set cs) \<Longrightarrow> lease_at e x h n s \<Longrightarrow> lease_at e x h n (fold (run_call e) cs s)"
proof (induction cs arbitrary: s)
  case Nil
  then show ?case by simp
next
  case (Cons c cs)
  have "lease_at e x h n (run_call e c s)"
    using Cons.prems by (intro run_call_lease) auto
  then show ?case using Cons.prems by (auto intro: Cons.IH)
qed

definition demo_run :: db where
  "demo_run = fold (run_call demo_env)
     [CallInsertJob ''crawl'' JNull 86400 900, CallInsertTasks ''j'' [new_task ''u'' ''u'' 0 TaskStatusQueued],
      CallDequeue 120] empty_db"

theorem store_reachable_inv_witness:
  "store_reachable demo_env demo_run \<and> tasks demo_run \<noteq> [] \<and> db_inv demo_run"
proof -
  have step: "store_reachable demo_env s \<Longrightarrow> call_ok c \<Longrightarrow> store_reachable demo_env (run_call demo_env c s)" for s c
    by (auto intro: store_reachable.step store_step.call)
  have "store_reachable demo_env demo_run"
    unfolding demo_run_def fold_simps o_apply id_apply
    by (intro step start) (simp_all add: new_task_def)
  moreover have "tasks demo_run \<noteq> []" by code_simp
  ultimately show ?thesis using store_reachable_inv by blast
qed


theorem job_stats_sum_witness:
  "js_total (projr (fst (get_job_stats demo_env ''j'' demo_db))) = 2 \<and>
   js_failed (projr (fst (get_job_stats demo_env ''j'' demo_db))) \<le> js_attempts (projr (fst (get_job_stats demo_env ''j'' demo_db)))"
proof -
  have "get_job_stats demo_env ''j'' demo_db =
     (Ok (projr (fst (get_job_stats demo_env ''j'' demo_db))), snd (get_job_stats demo_env ''j'' demo_db))"
    by (simp add: get_job_stats_def exec_def demo_env_def Let_def)
  from job_stats_sum [OF demo_db_inv this] show ?thesis by (simp add: demo_db_def demo_task_def)
qed

lemma demo_no_faults: "no_faults demo_env" by (simp add: no_faults_def demo_env_def)

theorem finish_job_spec_witness:
  "fst (finish_job demo_env ''j'' demo_db) = Inl errPending \<and>
   map j_status (jobs (snd (finish_job demo_env ''j'' (update_task 1 (\<lambda>t. t\<lparr>t_status := TaskStatusDone\<rparr>) demo_db)))) =
     [JobStatusCompletedWithErrors]"
  unfolding finish_job_spec [OF demo_no_faults]
  by (simp add: job_pending_def job_has_failed_def demo_db_def demo_task_def update_task_def
     update_job_def finished_def demo_job_def)

text \<open>A lease is exclusive: after a worker claimed a task, no claim with a threshold up to the time of that
  claim returns the same task, however the statements of other workers, API handlers and
  cleanup loops are interleaved in between, as long as nobody puts that task back with a retry.\<close>

theorem lease_exclusive:
  assumes "db_inv s" and "dequeue_task e lease s = (Ok t, s1)"
    and "\<And>k. tick s < k \<Longrightarrow> pg_now e (Suc (tick s)) \<le> pg_now e k"
    and "\<And>msg. CallRetry (t_id t) msg \<notin> set cs"
    and "dequeue_task e lease' (fold (run_call e) cs s1) = (Ok u, s2)"
    and "go_now e (tick (fold (run_call e) cs s1)) - lease' \<le> pg_now e (Suc (tick s))"
  shows "t_id u \<noteq> t_id t"
proof
  assume eq: "t_id u = t_id t"
  let ?h = "pg_now e (Suc (tick s))" and ?s = "fold (run_call e) cs s1"
  from dequeue_Ok [OF assms(2)] obtain t0 where t0: "t0 \<in> set (tasks s)" "t = claim ?h t0"
    and s1: "s1 = update_task (t_id t0) (claim ?h) (s\<lparr>tick := tick s + 2\<rparr>)" by blast
  have id: "t_id t = t_id t0" by (simp add: t0 claim_def)
  have "t_id t0 \<le> task_seq s" using assms(1) t0 by (auto simp: db_inv_defs serial_ok_def)
  then have "lease_at e (t_id t) ?h (Suc (tick s)) s1"
    using assms(3) unfolding id by (auto simp: lease_at_def lease_held_def s1 update_task_def claim_def)
  then have l: "lease_at e (t_id t) ?h (Suc (tick s)) ?s" by (rule run_calls_lease [OF assms(4)])
  from dequeue_Ok [OF assms(5)] obtain u0 where u0: "u0 \<in> set (tasks ?s)" "t_id u0 = t_id u"
    "claimable (go_now e (tick ?s) - lease') u0" by (auto simp: claim_def)
  then show False using l eq assms(6) by (fastforce simp: lease_at_def lease_held_def claimable_def)
qed

definition demo_calls :: "store_call list" where
  "demo_calls = [CallHeartbeat 1, CallInsertTasks ''j'' [new_task ''v'' ''v'' 1 TaskStatusQueued]]"

theorem lease_exclusive_witness:
  "\<exists>t s1 u s2. dequeue_task demo_env 120 demo_db = (Ok t, s1)
     \<and> dequeue_task demo_env 120 (fold (run_call demo_env) demo_calls s1) = (Ok u, s2) \<and> t_id u \<noteq> t_id t"
proof -
  let ?r1 = "dequeue_task demo_env 120 demo_db"
  let ?s = "fold (run_call demo_env) demo_calls (snd ?r1)"
  let ?r2 = "dequeue_task demo_env 120 ?s"
  have "is_ok (fst ?r1)" "is_ok (fst ?r2)" by code_simp+
  then have r: "?r1 = (Ok (projr (fst ?r1)), snd ?r1)" "?r2 = (Ok (projr (fst ?r2)), snd ?r2)"
    by (auto simp: prod_eq_iff is_ok_def split: sum.splits)
  have "tick ?s = 10" by code_simp
  then have t: "go_now demo_env (tick ?s) - 120 \<le> pg_now demo_env (Suc (tick demo_db))"
    by (simp add: demo_env_def)
  have "t_id (projr (fst ?r2)) \<noteq> t_id (projr (fst ?r1))"
    by (rule lease_exclusive [OF demo_db_inv r(1) _ _ r(2) t])
      (simp_all add: demo_env_def demo_calls_def)
  then show ?thesis using r by blast
qed

text \<open>\<open>RetryTask\<close> does not look at the state of the row: a worker whose lease has expired puts a task back into the
  queue that another worker has completed, also when the job is already finished, and the next
  claim can hand it out again although the job's status says that it is completed.\<close>

theorem late_retry_requeues_done_task:
  assumes "no_faults e" and "t \<in> set (tasks s)"
  shows "\<exists>t' \<in> set (tasks (snd (retry_task e (t_id t) msg s))).
     t_id t' = t_id t \<and> t_status t' = TaskStatusQueued \<and> claimable th t'
     \<and> jobs (snd (retry_task e (t_id t) msg s)) = jobs s"
proof -
  let ?s = "s\<lparr>tick := Suc (tick s)\<rparr>" and ?now = "pg_now e (tick s)"
  let ?f = "\<lambda>u. u\<lparr>t_status := TaskStatusQueued, t_error := nullif_empty msg, t_attempts := t_attempts u + 1,
    t_heartbeat_at := None, t_updated_at := ?now\<rparr>"
  have s': "snd (retry_task e (t_id t) msg s) = update_task (t_id t) ?f ?s"
    using assms(1) by (simp add: retry_task_def exec_no_faults stmt_now_def)
  show ?thesis unfolding s'
    by (rule bexI [of _ "?f t"]) (use assms(2) in \<open>force simp: update_task_def claimable_def\<close>)+
qed

theorem late_retry_requeues_done_task_witness:
  "\<exists>t' \<in> set (tasks (snd (retry_task demo_env 2 ''timeout'' demo_db))). t_id t' = 2 \<and> t_status t' = TaskStatusQueued"
  using late_retry_requeues_done_task [OF demo_no_faults, of "demo_task 2 ''u2'' TaskStatusFailed" demo_db "''timeout''"]
  by (auto simp: demo_db_def demo_task_def)

end
