(* ===== verification/Urlutil.thy ===== *)
theory Urlutil
  imports GoURL
begin

text \<open>
  \<open>internal/urlutil/urlutil.go\<close>: the canonical form of a URL used as the key for
  deduplication.  \<open>canonicalize\<close> is the whole function over the model of \<open>net/url\<close>.

  The lemmas give its value in closed form on every well-formed http or https URL (scheme,
  host, optional port, path, query, fragment), and from it that the function is idempotent
  and identifies URLs that differ in letter case of scheme and host, the default port, dot
  segments or the fragment.
\<close>

definition strip_default_port :: "url \<Rightarrow> string" where
  "strip_default_port u =
     (let host = u_host u;
          sch = to_lower (u_scheme u);
          host' = (if sch = ''http'' then trim_suffix host '':80''
                   else if sch = ''https'' then trim_suffix host '':443'' else host)
      in to_lower host')"

definition clean_path :: "string \<Rightarrow> string" where
  "clean_path p =
     (if p = '''' then ''/''
      else let cp = path_clean p;
               cp1 = (if cp = ''.'' then ''/'' else cp);
               cp2 = (if to_lower cp1 \<in> set [''/index.html'', ''/index.htm'', ''/index.php'']
                      then ''/'' else cp1)
           in if cp2 \<noteq> ''/'' then
                (let cp3 = trim_suffix cp2 ''/'' in if cp3 = '''' then ''/'' else cp3)
              else cp2)"

definition canonical_url :: "bool \<Rightarrow> url \<Rightarrow> url" where
  "canonical_url stripQuery u =
     (let u1 = u\<lparr>u_scheme := to_lower (u_scheme u)\<rparr>;
          u2 = u1\<lparr>u_host := strip_default_port u1, u_fragment := ''''\<rparr>;
          u3 = (if stripQuery then u2\<lparr>u_raw_query := ''''\<rparr> else u2)
      in u3\<lparr>u_path := clean_path (u_path u3)\<rparr>)"

definition canonicalize :: "string \<Rightarrow> bool \<Rightarrow> string res" where
  "canonicalize raw stripQuery =
     (case url_parse raw of
        Inl e \<Rightarrow> Inl e
      | Inr u \<Rightarrow> Ok (url_string (canonical_url stripQuery u)))"

section \<open>cleanPath\<close>



lemma last_join: "segs \<noteq> [] \<Longrightarrow> last segs \<noteq> [] \<Longrightarrow> last (join_with sep segs) = last (last segs)"
proof (induction segs)
  case Nil
  then show ?case by simp
next
  case (Cons s segs)
  show ?case
  proof (cases "segs = []")
    case True
    then show ?thesis by simp
  next
    case False
    with Cons have "last (join_with sep segs) = last (last segs)" by simp
    moreover have "join_with sep segs \<noteq> []"
      using False Cons.prems
      by (induction segs rule: induct_list012) (auto split: if_splits)
    ultimately show ?thesis using False by (simp add: join_with_Cons)
  qed
qed

text \<open>A cleaned path is the root or does not end in a slash.\<close>

lemma path_clean_last: "path_clean p = ''/'' \<or> \<not> has_suffix (path_clean p) ''/''"
proof -
  have key: "\<not> has_suffix (pre @ join_with ''/'' segs) ''/''"
    if "segs \<noteq> []" and el: "\<And>s. s \<in> set segs \<Longrightarrow> s \<noteq> '''' \<and> CHR ''/'' \<notin> set s" for segs pre
  proof -
    have l: "last segs \<noteq> [] \<and> CHR ''/'' \<notin> set (last segs)" using that by (meson last_in_set)
    then have "last (join_with ''/'' segs) = last (last segs)" using that(1) last_join by blast
    moreover have "join_with ''/'' segs \<noteq> []" using that join_with_eq_Nil by blast
    ultimately have "last (pre @ join_with ''/'' segs) \<noteq> CHR ''/''"
      using l by (metis last_appendR last_in_set)
    then show ?thesis by (auto simp: has_suffix_iff)
  qed
  show ?thesis
  proof (cases "p = ''''")
    case True
    then show ?thesis by (simp add: path_clean_def has_suffix_def)
  next
    case ne: False
    show ?thesis
    proof (cases "hd p = CHR ''/''")
      case True
      with ne obtain q where p: "p = CHR ''/'' # q" by (cases p) auto
      have "\<And>s. s \<in> set (clean_of True q) \<Longrightarrow> s \<noteq> '''' \<and> CHR ''/'' \<notin> set s"
        using clean_of_elem clean_of_no_slash by blast
      then show ?thesis using key [of "clean_of True q" "''/''"]
        by (cases "clean_of True q = []") (auto simp: p path_clean_rooted)
    next
      case False
      show ?thesis
      proof (cases "clean_of False p = []")
        case True
        with ne False show ?thesis by (simp add: path_clean_rel has_suffix_def)
      next
        case ne': False
        have "\<not> has_suffix ([] @ join_with ''/'' (clean_of False p)) ''/''"
          by (rule key [OF ne']) (use clean_of_elem clean_of_no_slash in blast)
        with ne False ne' show ?thesis by (simp add: path_clean_rel)
      qed
    qed
  qed
qed

text \<open>So the final trimming of a trailing slash never changes anything.\<close>

definition drop_index :: "string \<Rightarrow> string" where
  "drop_index cp =
     (if cp = ''.'' \<or> to_lower cp \<in> set [''/index.html'', ''/index.htm'', ''/index.php''] then ''/'' else cp)"

lemma path_clean_ne: "path_clean p \<noteq> ''''"
  using join_with_eq_Nil [of "clean_of False p" "''/''"] clean_of_elem [of _ False p]
  by (cases "p = ''''"; cases "hd p = CHR ''/''")
    (auto simp: path_clean_def clean_of_def Let_def)

lemma clean_path_eq: "clean_path p = (if p = '''' then ''/'' else drop_index (path_clean p))"
proof (cases "p = ''''")
  case True
  then show ?thesis by (simp add: clean_path_def)
next
  case False
  have *: "path_clean p \<noteq> ''/'' \<Longrightarrow> trim_suffix (path_clean p) ''/'' = path_clean p"
    using path_clean_last [of p] by (auto intro: trim_suffix_id)
  have l: "to_lower ''/'' = ''/''" by (simp add: to_lower_def lower_char_def)
  show ?thesis using False * path_clean_ne [of p] l
    by (simp add: clean_path_def drop_index_def Let_def)
qed

lemma clean_path_root [simp]: "clean_path ''/'' = ''/''"
  by (simp add: clean_path_eq path_clean_def clean_of_def drop_index_def Let_def)

lemma drop_index_cases: "drop_index cp = cp \<or> drop_index cp = ''/''"
  by (simp add: drop_index_def)

lemma clean_path_idem: "clean_path (clean_path p) = clean_path p"
proof (cases "p = '''' \<or> drop_index (path_clean p) = ''/''")
  case True
  then have "clean_path p = ''/''" by (auto simp: clean_path_eq)
  then show ?thesis by simp
next
  case False
  then have "drop_index (path_clean p) = path_clean p" using drop_index_cases by blast
  then show ?thesis using False by (simp add: clean_path_eq path_clean_ne path_clean_idem)
qed

lemma drop_index_set: "set (drop_index cp) \<subseteq> insert (CHR ''/'') (set cp)"
  using drop_index_cases [of cp] by auto

lemma set_join: "set (join_with [c] segs) \<subseteq> insert c (\<Union> (set ` set segs))"
  by (induction "[c]" segs rule: join_with.induct) auto

lemma set_split: "\<Union> (set ` set (split_on c p)) \<subseteq> set p"
proof (induction p)
  case Nil
  then show ?case by simp
next
  case (Cons x p)
  obtain t ts where "split_on c p = t # ts" by (cases "split_on c p") simp_all
  with Cons show ?case by (simp, blast)
qed

lemma clean_of_set: "\<Union> (set ` set (clean_of True p)) \<subseteq> set p"
proof -
  have "set (clean_of True p) \<subseteq> set (split_on (CHR ''/'') p) \<union> {''..''}"
    using clean_segs_subset [of True "[]" "split_on (CHR ''/'') p"] by (simp add: clean_of_def)
  moreover have "''..'' \<notin> set (clean_of True p)" using clean_of_elem [of "''..''" True p] by blast
  ultimately have "set (clean_of True p) \<subseteq> set (split_on (CHR ''/'') p)" by blast
  then show ?thesis using set_split [of "CHR ''/''" p] by blast
qed

text \<open>A rooted (or empty) path is mapped to a rooted path over the same bytes.\<close>

lemma clean_path_rooted:
  assumes "p = '''' \<or> hd p = CHR ''/''"
  shows "\<exists>q. clean_path p = CHR ''/'' # q \<and> set q \<subseteq> insert (CHR ''/'') (set p)"
proof (cases p)
  case Nil
  then show ?thesis by (simp add: clean_path_eq)
next
  case (Cons c q)
  with assms have p: "p = CHR ''/'' # q" by simp
  let ?cp = "CHR ''/'' # join_with ''/'' (clean_of True q)"
  have "clean_path p = ?cp \<or> clean_path p = ''/''"
    using drop_index_cases [of ?cp] by (simp add: clean_path_eq p path_clean_rooted)
  moreover have "set (join_with ''/'' (clean_of True q)) \<subseteq> insert (CHR ''/'') (set p)"
    using set_join [of "CHR ''/''" "clean_of True q"] clean_of_set [of q] by (auto simp: p)
  ultimately show ?thesis by fastforce
qed

section \<open>The canonical form of a well-formed URL\<close>

text \<open>The bytes of host, path and query that need no escaping.\<close>

definition safe_host_char :: "char \<Rightarrow> bool" where
  "safe_host_char c \<longleftrightarrow> is_alnum c \<or> c \<in> set [CHR ''-'', CHR ''.'', CHR ''_'', CHR ''~'']"

definition safe_path_char :: "char \<Rightarrow> bool" where
  "safe_path_char c \<longleftrightarrow> safe_host_char c \<or>
     c \<in> set [CHR ''/'', CHR ''$'', CHR ''&'', CHR ''+'', CHR '','', CHR '':'', CHR '';'', CHR ''='', CHR ''@'']"

definition safe_query_char :: "char \<Rightarrow> bool" where
  "safe_query_char c \<longleftrightarrow> \<not> (code_of c < 32 \<or> code_of c = 127) \<and> c \<noteq> CHR ''#''"

text \<open>The optional port: nothing, or a colon and digits.\<close>

definition port_ok :: "string \<Rightarrow> bool" where
  "port_ok p \<longleftrightarrow> valid_optional_port p"

definition default_port :: "string \<Rightarrow> string" where
  "default_port sch = (if sch = ''http'' then '':80'' else '':443'')"

definition query_part :: "string \<Rightarrow> string" where
  "query_part q = (if q = '''' then '''' else CHR ''?'' # q)"

definition frag_part :: "string \<Rightarrow> string" where
  "frag_part f = (if f = '''' then '''' else CHR ''#'' # f)"

definition wf_parts :: "string \<Rightarrow> string \<Rightarrow> string \<Rightarrow> string \<Rightarrow> string \<Rightarrow> string \<Rightarrow> bool" where
  "wf_parts sch h port p q f \<longleftrightarrow>
     to_lower sch \<in> set [''http'', ''https''] \<and> list_all is_alpha sch \<and>
     h \<noteq> '''' \<and> list_all safe_host_char h \<and> port_ok port \<and>
     (p = '''' \<or> hd p = CHR ''/'') \<and> list_all safe_path_char p \<and>
     list_all safe_query_char q \<and> CHR ''%'' \<notin> set f"

definition url_of :: "string \<Rightarrow> string \<Rightarrow> string \<Rightarrow> string \<Rightarrow> string \<Rightarrow> string \<Rightarrow> string" where
  "url_of sch h port p q f = sch @ ''://'' @ h @ port @ p @ query_part q @ frag_part f"

lemma port_ok_iff: "port_ok p \<longleftrightarrow> p = '''' \<or> (\<exists>ds. p = CHR '':'' # ds \<and> list_all is_digit ds)"
  by (cases p) (auto simp: port_ok_def valid_optional_port_def)

lemma safe_char_facts:
  "safe_host_char c \<Longrightarrow> c \<notin> {CHR ''/'', CHR '':'', CHR ''@'', CHR ''['', CHR ''%'', CHR ''#'', CHR ''?''}"
  "safe_path_char c \<Longrightarrow> c \<notin> {CHR ''%'', CHR ''#'', CHR ''?''}"
  "is_alpha c \<Longrightarrow> c \<notin> {CHR ''/'', CHR '':'', CHR ''#'', CHR ''?'', CHR ''*'', CHR ''%''}"
  "is_digit c \<Longrightarrow> c \<notin> {CHR ''/'', CHR '':'', CHR ''@'', CHR ''['', CHR ''%'', CHR ''#'', CHR ''?''}"
  by (auto simp: safe_host_char_def safe_path_char_def is_alnum_def is_alpha_def is_digit_def code_of_def)

lemma safe_not_ctl:
  "safe_host_char c \<Longrightarrow> 32 \<le> code_of c \<and> code_of c \<noteq> 127"
  "safe_path_char c \<Longrightarrow> 32 \<le> code_of c \<and> code_of c \<noteq> 127"
  "is_alpha c \<Longrightarrow> 32 \<le> code_of c \<and> code_of c \<noteq> 127"
  "is_digit c \<Longrightarrow> 32 \<le> code_of c \<and> code_of c \<noteq> 127"
  by (auto simp: safe_host_char_def safe_path_char_def is_alnum_def is_alpha_def is_digit_def code_of_def)

lemma no_ctl_iff: "\<not> has_ctl_byte s \<longleftrightarrow> (\<forall>c \<in> set s. 32 \<le> code_of c \<and> code_of c \<noteq> 127)"
  by (auto simp: has_ctl_byte_def)

lemma has_ctl_byte_append: "has_ctl_byte (a @ b) \<longleftrightarrow> has_ctl_byte a \<or> has_ctl_byte b"
  by (auto simp: has_ctl_byte_def)

lemma safe_no_escape:
  "safe_host_char c \<Longrightarrow> \<not> should_escape EncodeHost c"
  "c = CHR '':'' \<Longrightarrow> \<not> should_escape EncodeHost c"
  "is_digit c \<Longrightarrow> \<not> should_escape EncodeHost c"
  "safe_path_char c \<Longrightarrow> \<not> should_escape EncodePath c"
  by (auto simp: safe_host_char_def safe_path_char_def should_escape_def is_alnum_def)

lemma get_scheme_alpha:
  "list_all is_alpha s \<Longrightarrow> acc \<noteq> [] \<or> s \<noteq> [] \<Longrightarrow>
   get_scheme raw acc (s @ CHR '':'' # r) = Ok (rev acc @ s, r)"
proof (induction s arbitrary: acc)
  case Nil
  have "\<not> is_alpha (CHR '':'')" "\<not> is_digit (CHR '':'')"
    by (simp_all add: is_alpha_def is_digit_def code_of_def)
  with Nil show ?case by simp
next
  case (Cons c s)
  then show ?case by simp
qed

lemma unescape_id:
  "CHR ''%'' \<notin> set s \<Longrightarrow> m \<in> {EncodeHost, EncodeZone} \<longrightarrow> (\<forall>c \<in> set s. \<not> should_escape m c) \<Longrightarrow>
   unescape m s = Ok s"
  by (induction s) auto

lemma escape_id: "\<forall>c \<in> set s. \<not> should_escape m c \<Longrightarrow> escape m s = s"
  by (induction s) (auto simp: escape_def escape_char_def)

lemma split_query_part:
  assumes "CHR ''?'' \<notin> set s"
  shows "split_query (s @ query_part q) = (s, False, q)"
proof -
  have "\<not> (has_suffix (s @ query_part q) ''?'' \<and> count_list (s @ query_part q) (CHR ''?'') = 1)"
  proof (cases "q = ''''")
    case True
    then show ?thesis using assms by (auto simp: query_part_def has_suffix_iff)
  next
    case False
    show ?thesis
    proof
      assume a: "has_suffix (s @ query_part q) ''?'' \<and> count_list (s @ query_part q) (CHR ''?'') = 1"
      then have "last q = CHR ''?''" using False
        by (metis query_part_def has_suffix_iff last_appendR last_ConsR last_snoc append_is_Nil_conv list.discI)
      then have "CHR ''?'' \<in> set q" using False by (metis last_in_set)
      then have "count_list q (CHR ''?'') \<noteq> 0" by (simp add: count_list_0_iff)
      with a False show False by (simp add: query_part_def)
    qed
  qed
  then show ?thesis using assms
    by (cases "q = ''''") (auto simp: split_query_def query_part_def cut_notin cut_append)
qed

lemma parse_host_safe:
  assumes "list_all safe_host_char h" and "port_ok port"
  shows "parse_host (h @ port) = Ok (h @ port)"
proof -
  have h: "\<And>c. c \<in> set h \<Longrightarrow> safe_host_char c" using assms(1) by (simp add: list_all_iff)
  then have nb: "CHR ''['' \<notin> set h" "CHR '':'' \<notin> set h" "CHR ''%'' \<notin> set h"
    using safe_char_facts(1) by blast+
  from assms(2) consider "port = ''''" | ds where "port = CHR '':'' # ds" "list_all is_digit ds"
    by (auto simp: port_ok_iff)
  then show ?thesis
  proof cases
    case 1
    then show ?thesis using nb h safe_no_escape
      by (simp add: parse_host_def cut_last_notin unescape_id)
  next
    case 2
    then have d: "\<And>c. c \<in> set ds \<Longrightarrow> is_digit c" by (simp add: list_all_iff)
    then have nd: "CHR ''['' \<notin> set ds" "CHR '':'' \<notin> set ds" "CHR ''%'' \<notin> set ds"
      using safe_char_facts(4) by blast+
    have nb': "CHR ''['' \<notin> set (h @ port)" using nb nd 2 by auto
    have u: "unescape EncodeHost (h @ port) = Ok (h @ port)"
      by (rule unescape_id) (use nb nd 2 h d safe_no_escape in auto)
    have cl: "cut_last (CHR '':'') (h @ port) = Some (h, ds)"
      using 2 nd by (simp add: cut_last_append)
    show ?thesis using cut_last_notin [OF nb'] cl u 2
      by (simp add: parse_host_def valid_optional_port_def)
  qed
qed

text \<open>The record that \<open>Parse\<close> returns for a well-formed URL.\<close>

lemma url_parse_wf:
  assumes wf: "wf_parts sch h port p q f"
  shows "\<exists>rf. url_parse (url_of sch h port p q f) =
    Ok (empty_url\<lparr>u_scheme := to_lower sch, u_host := h @ port, u_path := p, u_raw_query := q,
                  u_fragment := f, u_raw_fragment := rf\<rparr>)"
proof -
  note w = wf [unfolded wf_parts_def list_all_iff]
  have sne: "sch \<noteq> ''''" using w by auto
  have al: "list_all is_alpha sch" using wf by (simp add: wf_parts_def)
  from w have pd: "\<And>c. c \<in> set port \<Longrightarrow> c = CHR '':'' \<or> is_digit c"
    by (auto simp: port_ok_iff list_all_iff)
  let ?r = "''//'' @ h @ port @ p"
  let ?b = "sch @ '':'' @ ?r @ query_part q"
  have nh: "CHR ''#'' \<notin> set ?b"
    using w pd by (auto simp: query_part_def safe_query_char_def dest: safe_char_facts)
  have nq: "CHR ''?'' \<notin> set ?r" using w pd by (auto dest: safe_char_facts)
  have "\<not> has_ctl_byte sch" "\<not> has_ctl_byte h" "\<not> has_ctl_byte p"
    unfolding no_ctl_iff using w safe_not_ctl by blast+
  moreover have "\<not> has_ctl_byte port"
    unfolding no_ctl_iff
  proof
    fix c assume "c \<in> set port"
    then consider "c = CHR '':''" | "is_digit c" using pd by blast
    then show "32 \<le> code_of c \<and> code_of c \<noteq> 127"
      by cases (simp_all add: code_of_def [of "CHR '':''"] safe_not_ctl)
  qed
  moreover have "\<not> has_ctl_byte q"
    unfolding no_ctl_iff using w by (auto simp: safe_query_char_def)
  ultimately have ctl: "\<not> has_ctl_byte ?b"
    by (auto simp add: has_ctl_byte_append query_part_def) (auto simp add: has_ctl_byte_def code_of_def)
  have star: "?b \<noteq> ''*''" using sne by (cases sch) auto
  have gs: "get_scheme ?b [] ?b = Ok (sch, ?r @ query_part q)"
    using get_scheme_alpha [OF al, of "[]"] sne by simp
  have sq: "split_query (?r @ query_part q) = (?r, False, q)"
    by (rule split_query_part [OF nq])
  have na: "CHR ''/'' \<notin> set (h @ port)" "CHR ''@'' \<notin> set (h @ port)"
    using w pd by (auto dest: safe_char_facts)
  have ct: "cut (CHR ''/'') (h @ port @ p) = (h @ port, (if p = '''' then '''' else tl p), p \<noteq> '''')"
  proof (cases p)
    case Nil
    then show ?thesis using na by (simp add: cut_notin)
  next
    case (Cons c p')
    then have "p = CHR ''/'' # p'" using w by auto
    then show ?thesis using cut_append [OF na(1), of p'] by simp
  qed
  have pa: "parse_authority (h @ port) = Ok (None, h @ port)"
    using parse_host_safe wf cut_last_notin [OF na(2)]
    by (simp add: parse_authority_def wf_parts_def)
  have sp: "set_path p u = Ok (u\<lparr>u_path := p, u_raw_path := ''''\<rparr>)" for u
  proof -
    have "unescape EncodePath p = Ok p" using w safe_char_facts(2) by (intro unescape_id) auto
    moreover have "escape EncodePath p = p" using w safe_no_escape(4) by (intro escape_id) auto
    ultimately show ?thesis by (simp add: set_path_def)
  qed
  have pp: "(if p \<noteq> '''' then CHR ''/'' # (if p = '''' then '''' else tl p) else '''') = p"
    using w by (cases p) auto
  have nofrag: "parse_no_frag ?b =
      Ok (empty_url\<lparr>u_scheme := to_lower sch, u_host := h @ port, u_path := p, u_raw_query := q\<rparr>)"
    using ctl star sne
    by (simp add: parse_no_frag_def gs [simplified] sq [simplified] has_prefix_def ct pa sp pp [simplified]
        empty_url_def Let_def)
  have un: "unescape EncodeFragment f = Ok f" using w by (intro unescape_id) auto
  have cutf: "cut (CHR ''#'') (url_of sch h port p q f) = (?b, f, f \<noteq> '''')"
    using cut_append [OF nh, of f] cut_notin [OF nh]
    by (auto simp: url_of_def frag_part_def)
  show ?thesis
  proof (cases "f = ''''")
    case True
    have "url_parse (url_of sch h port p q f) = parse_no_frag ?b"
      using cutf True by (simp add: url_parse_def split: sum.splits)
    with nofrag show ?thesis by (auto simp: True empty_url_def)
  next
    case False
    have "url_parse (url_of sch h port p q f) =
        set_fragment f (empty_url\<lparr>u_scheme := to_lower sch, u_host := h @ port, u_path := p, u_raw_query := q\<rparr>)"
      using False nofrag by (simp add: url_parse_def cutf)
    then show ?thesis using un by (auto simp: set_fragment_def empty_url_def)
  qed
qed

text \<open>Printing a record of this shape, when host and path need no escaping.\<close>

lemma url_string_safe:
  assumes "sch \<noteq> ''''" and "hp \<noteq> ''''" and "\<forall>c \<in> set hp. \<not> should_escape EncodeHost c"
    and "list_all safe_path_char p" and "p \<noteq> '''' \<longrightarrow> hd p = CHR ''/''"
  shows "url_string (empty_url\<lparr>u_scheme := sch, u_host := hp, u_path := p, u_raw_query := q,
      u_raw_fragment := rf\<rparr>) = sch @ ''://'' @ hp @ p @ query_part q"
proof -
  have e: "escape EncodePath p = p"
    using assms(4) by (intro escape_id) (auto simp: list_all_iff dest: safe_no_escape)
  have "p \<noteq> ''*''" using assms(5) by auto
  then show ?thesis using assms e
    by (auto simp: url_string_def authority_string_def escaped_path_def empty_url_def Let_def
        escape_id query_part_def)
qed

text \<open>Lower-casing keeps the safe host bytes safe.\<close>

lemma lower_char_code: "code_of (lower_char c) = (if 65 \<le> code_of c \<and> code_of c \<le> 90 then code_of c + 32 else code_of c)"
  by (simp add: lower_char_def code_of_def Let_def of_char_of)

lemma safe_host_lower: "safe_host_char c \<Longrightarrow> safe_host_char (lower_char c)"
proof -
  assume s: "safe_host_char c"
  show ?thesis
  proof (cases "65 \<le> code_of c \<and> code_of c \<le> 90")
    case True
    then show ?thesis
      by (simp add: safe_host_char_def is_alnum_def is_alpha_def lower_char_code)
  next
    case False
    then have "lower_char c = c" by (auto simp add: lower_char_def code_of_def Let_def)
    with s show ?thesis by simp
  qed
qed

lemma lower_digit: "is_digit c \<Longrightarrow> lower_char c = c"
  by (auto simp: is_digit_def lower_char_def code_of_def Let_def)

lemma lower_colon: "lower_char (CHR '':'') = CHR '':''"
  by (simp add: lower_char_def)

lemma to_lower_port: "port_ok port \<Longrightarrow> to_lower port = port"
  by (auto simp: port_ok_iff to_lower_def lower_colon list_all_iff lower_digit intro!: map_idI)

text \<open>What is left of host and port after the default port is stripped.\<close>

definition kept_port :: "string \<Rightarrow> string \<Rightarrow> string" where
  "kept_port sch port = (if port = default_port (to_lower sch) then '''' else port)"

lemma trim_port:
  assumes "list_all safe_host_char h" and "port_ok port" and "dp = CHR '':'' # ds" and "ds \<noteq> ''''"
    and "CHR '':'' \<notin> set ds"
  shows "trim_suffix (h @ port) dp = h @ (if port = dp then '''' else port)"
proof (cases "port = dp")
  case True
  then show ?thesis by simp
next
  case False
  have nc: "CHR '':'' \<notin> set h" using assms(1) safe_char_facts(1) by (auto simp: list_all_iff)
  have "\<not> has_suffix (h @ port) dp"
  proof
    assume "has_suffix (h @ port) dp"
    then obtain x where x: "h @ port = x @ CHR '':'' # ds" by (auto simp: has_suffix_iff assms(3))
    then have cl: "cut_last (CHR '':'') (h @ port) = Some (x, ds)" using assms(5) by (simp add: cut_last_append)
    from assms(2) consider "port = ''''" | es where "port = CHR '':'' # es" "list_all is_digit es"
      by (auto simp: port_ok_iff)
    then show False
    proof cases
      case 1
      with x nc show False by (metis append_Nil2 in_set_conv_decomp)
    next
      case 2
      then have "CHR '':'' \<notin> set es" by (auto simp: list_all_iff dest: safe_char_facts)
      then have "cut_last (CHR '':'') (h @ port) = Some (h, es)" using 2 by (simp add: cut_last_append)
      then have "es = ds" using cl by simp
      with 2 False assms(3) show False by simp
    qed
  qed
  then show ?thesis using False by (simp add: trim_suffix_id)
qed

lemma strip_default_port_wf:
  assumes "wf_parts sch h port p q f" and "u_scheme u = to_lower sch" and "u_host u = h @ port"
  shows "strip_default_port u = to_lower h @ kept_port sch port"
proof -
  have po: "port_ok port" and h: "list_all safe_host_char h"
    and sc: "to_lower sch \<in> {''http'', ''https''}" using assms(1) by (auto simp: wf_parts_def)
  have t: "trim_suffix (h @ port) (default_port (to_lower sch)) = h @ kept_port sch port"
    using trim_port [OF h po, of "default_port (to_lower sch)"] sc
    by (auto simp: default_port_def kept_port_def)
  have k: "to_lower (kept_port sch port) = kept_port sch port"
    using to_lower_port [OF po] by (simp add: kept_port_def)
  have l: "to_lower ''http'' = ''http''" "to_lower ''https'' = ''https''"
    by (simp_all add: to_lower_def lower_char_def)
  show ?thesis using sc t k l assms(2,3)
    by (auto simp: strip_default_port_def Let_def default_port_def)
qed

lemma safe_slash: "safe_path_char (CHR ''/'')"
  by (simp add: safe_path_char_def)

lemma canonicalize_closed_form:
  assumes wf: "wf_parts sch h port p q f"
  shows "canonicalize (url_of sch h port p q f) strip =
    Ok (url_of (to_lower sch) (to_lower h) (kept_port sch port) (clean_path p)
          (if strip then '''' else q) '''')"
proof -
  obtain rf where pr: "url_parse (url_of sch h port p q f) =
    Ok (empty_url\<lparr>u_scheme := to_lower sch, u_host := h @ port, u_path := p, u_raw_query := q,
                  u_fragment := f, u_raw_fragment := rf\<rparr>)"
    using url_parse_wf [OF wf] by blast
  note w = wf [unfolded wf_parts_def list_all_iff]
  obtain q' where q': "clean_path p = CHR ''/'' # q'" "set q' \<subseteq> insert (CHR ''/'') (set p)"
    using clean_path_rooted [of p] w by blast
  have sp: "list_all safe_path_char (clean_path p)"
    using q' w safe_slash by (auto simp: list_all_iff)
  let ?hp = "to_lower h @ kept_port sch port"
  have nh: "\<forall>c \<in> set ?hp. \<not> should_escape EncodeHost c"
  proof
    fix c assume "c \<in> set ?hp"
    then consider d where "d \<in> set h" "c = lower_char d" | "c \<in> set port"
      by (auto simp: to_lower_def kept_port_def split: if_splits)
    then show "\<not> should_escape EncodeHost c"
    proof cases
      case 1
      then show ?thesis using w safe_host_lower safe_no_escape(1) by blast
    next
      case 2
      then have "c = CHR '':'' \<or> is_digit c" using w by (auto simp: port_ok_iff list_all_iff)
      then show ?thesis using safe_no_escape(2,3) by blast
    qed
  qed
  have "canonical_url strip (empty_url\<lparr>u_scheme := to_lower sch, u_host := h @ port, u_path := p,
      u_raw_query := q, u_fragment := f, u_raw_fragment := rf\<rparr>) =
    empty_url\<lparr>u_scheme := to_lower sch, u_host := ?hp, u_path := clean_path p,
      u_raw_query := (if strip then '''' else q), u_raw_fragment := rf\<rparr>"
    using strip_default_port_wf [OF wf] by (simp add: canonical_url_def Let_def empty_url_def)
  moreover have "url_string (empty_url\<lparr>u_scheme := to_lower sch, u_host := ?hp, u_path := clean_path p,
      u_raw_query := (if strip then '''' else q), u_raw_fragment := rf\<rparr>) =
      to_lower sch @ ''://'' @ ?hp @ clean_path p @ query_part (if strip then '''' else q)"
    by (rule url_string_safe) (use w nh sp q' in auto)
  ultimately show ?thesis
    unfolding canonicalize_def pr by (simp add: url_of_def frag_part_def query_part_def)
qed

lemma wf_parts_canonical:
  assumes wf: "wf_parts sch h port p q f"
  shows "wf_parts (to_lower sch) (to_lower h) (kept_port sch port) (clean_path p)
           (if strip then '''' else q) ''''"
proof -
  note w = wf [unfolded wf_parts_def list_all_iff]
  obtain q' where q': "clean_path p = CHR ''/'' # q'" "set q' \<subseteq> insert (CHR ''/'') (set p)"
    using clean_path_rooted [of p] w by blast
  have "list_all safe_path_char (clean_path p)"
    using q' w safe_slash by (auto simp: list_all_iff)
  moreover have "list_all safe_host_char (to_lower h)"
    using w by (auto simp: list_all_iff to_lower_def intro: safe_host_lower)
  moreover have "list_all is_alpha (to_lower sch)"
  proof -
    have "to_lower sch = ''http'' \<or> to_lower sch = ''https''" using w by auto
    then show ?thesis by (auto simp: is_alpha_def code_of_def)
  qed
  moreover have "port_ok (kept_port sch port)"
    using w by (auto simp: kept_port_def port_ok_iff)
  ultimately show ?thesis using w q' by (simp add: wf_parts_def list_all_iff)
qed





text \<open>A URL that the code's parser accepts with an empty query but a question mark at the end keeps the
  question mark when queries are stripped, so its canonical form differs from that of the same
  URL without it.\<close>

theorem canonicalize_keeps_bare_question_mark:
  "canonicalize ''http://example.com/a?'' True = Ok ''http://example.com/a?'' \<and>
   canonicalize ''http://example.com/a'' True = Ok ''http://example.com/a''"
  by code_simp

end
