(* ===== verification/Jobs.thy ===== *)
theory Jobs
  imports Queue Urlutil
begin

text \<open>
  \<open>createJobWithSeeds\<close> of \<open>internal/server/jobs.go\<close>: one transaction that inserts a job and the
  tasks of its seeds.  \<open>in_tx\<close> is the code's begin, roll back on error, commit; the dedupe cache
  is read on the pool while the transaction is open.

  The lemmas show that a failed creation leaves the tables as they were, and what a successful
  one adds.
\<close>

section \<open>Transactions\<close>

definition in_tx :: "env \<Rightarrow> (conn \<Rightarrow> 'a op) \<Rightarrow> 'a op" where
  "in_tx e body s =
     (case begin_tx e s of
        (Inl err, s1) \<Rightarrow> (Inl err, s1)
      | (Inr tx, s1) \<Rightarrow>
          (case body tx s1 of
             (Inl err, s2) \<Rightarrow> (Inl err, rollback s1 s2)
           | (Inr x, s2) \<Rightarrow>
               (case commit e s1 s2 of
                  (Inl err, s3) \<Rightarrow> (Inl err, s3)
                | (Inr _, s3) \<Rightarrow> (Ok x, s3))))"

section \<open>Creating a job\<close>

record task_seed =
  seed_requested_url :: string
  seed_depth :: int
  seed_abort_if_duplicate :: bool

definition seed_final_url :: "config \<Rightarrow> string \<Rightarrow> string" where
  "seed_final_url cfg requested =
     (case canonicalize requested (cc_strip_query (c_crawl cfg)) of
        Inl _ \<Rightarrow> requested
      | Inr canon \<Rightarrow> canon)"

fun seed_tasks :: "env \<Rightarrow> config \<Rightarrow> task_seed list \<Rightarrow> task list \<Rightarrow> (task list) op" where
  "seed_tasks e cfg [] ts = (\<lambda>s. (Ok ts, s))"
| "seed_tasks e cfg (seed # seeds) ts =
     (let finalURL = seed_final_url cfg (seed_requested_url seed);
          ts' = ts @ [new_task (seed_requested_url seed) finalURL (seed_depth seed) TaskStatusQueued]
      in if cc_dedupe_cache (c_crawl cfg)
         then andthen (should_skip_canonical (has_seen_canonical e) finalURL) (\<lambda>seen.
           if seen
           then (if seed_abort_if_duplicate seed then (\<lambda>s. (Inl ErrSeedAlreadyProcessed, s))
                 else seed_tasks e cfg seeds ts)
           else seed_tasks e cfg seeds ts')
         else seed_tasks e cfg seeds ts')"

text \<open>The statements between \<open>BeginTx\<close> and \<open>Commit\<close>.\<close>

definition create_job_body ::
    "env \<Rightarrow> config \<Rightarrow> string \<Rightarrow> json \<Rightarrow> task_seed list \<Rightarrow> time \<Rightarrow> time \<Rightarrow> conn \<Rightarrow> string op" where
  "create_job_body e cfg jobType params seeds expiresAt deadline tx =
     andthen (insert_job e tx jobType params expiresAt deadline) (\<lambda>jobID.
     andthen (seed_tasks e cfg seeds []) (\<lambda>ts.
     andthen (if length ts > 0 then insert_tasks e tx jobID ts else (\<lambda>s. (Ok (), s))) (\<lambda>_.
       (\<lambda>s. (Ok jobID, s)))))"

definition create_job_with_seeds ::
    "env \<Rightarrow> config \<Rightarrow> string \<Rightarrow> json \<Rightarrow> task_seed list \<Rightarrow> string op" where
  "create_job_with_seeds e cfg jobType params seeds s =
     (case read_clock e s of (t1, s1) \<Rightarrow>
      case read_clock e s1 of (t2, s2) \<Rightarrow>
        let expiresAt = t1 + jd_ttl (c_job_defaults cfg);
            deadline = t2 + jd_deadline (c_job_defaults cfg)
        in in_tx e (create_job_body e cfg jobType params seeds expiresAt deadline) s2)"

section \<open>Failures leave no trace\<close>

definition same_tables :: "db \<Rightarrow> db \<Rightarrow> bool" where
  "same_tables s s' \<longleftrightarrow> jobs s' = jobs s \<and> tasks s' = tasks s \<and> documents s' = documents s
     \<and> mapped_urls s' = mapped_urls s \<and> dedupe_cache s' = dedupe_cache s"

lemma same_tables_refl [simp]: "same_tables s s" "same_tables s (s\<lparr>tick := n\<rparr>)"
  by (simp_all add: same_tables_def)

lemma same_tables_trans: "same_tables s1 s2 \<Longrightarrow> same_tables s2 s3 \<Longrightarrow> same_tables s1 s3"
  by (simp add: same_tables_def)

lemma same_tables_rollback [simp]: "same_tables s (rollback s s')"
  by (simp add: same_tables_def rollback_def)

lemma same_tables_begin: "begin_tx e s = (r, s1) \<Longrightarrow> same_tables s s1"
  by (auto simp: begin_tx_def exec_def Let_def split: option.splits)

lemma same_tables_commit:
  "commit e s1 s2 = (Inl err, s3) \<Longrightarrow> same_tables s1 s3"
  "commit e s1 s2 = (Ok (), s3) \<Longrightarrow> s3 = s2\<lparr>tick := tick s3\<rparr>"
  by (auto simp: commit_def exec_def Let_def split: option.splits sum.splits prod.splits)

lemma in_tx_error:
  "in_tx e body s = (Inl err, s') \<Longrightarrow> same_tables s s'"
  by (auto simp: in_tx_def split: prod.splits sum.splits
      dest!: same_tables_begin same_tables_commit(1) intro: same_tables_trans)

lemma in_tx_Ok:
  assumes "in_tx e body s = (Ok x, s')"
  obtains tx s1 s2 where "begin_tx e s = (Ok tx, s1)" "s1 = s\<lparr>tick := Suc (tick s)\<rparr>"
    "tx = Tx (pg_now e (tick s))" "body tx s1 = (Ok x, s2)" "s' = s2\<lparr>tick := tick s'\<rparr>"
  using assms
  by (auto simp: in_tx_def begin_tx_def stmt_now_def split: prod.splits sum.splits
      dest!: exec_ok same_tables_commit(2))

section \<open>Rolling back keeps the invariant\<close>

definition later_seqs :: "db \<Rightarrow> db \<Rightarrow> bool" where
  "later_seqs s0 s \<longleftrightarrow> task_seq s0 \<le> task_seq s \<and> doc_seq s0 \<le> doc_seq s \<and> map_seq s0 \<le> map_seq s"

lemma later_seqs_simps [simp]:
  "later_seqs s0 (s\<lparr>tick := n\<rparr>) = later_seqs s0 s" "later_seqs s0 (s\<lparr>jobs := js\<rparr>) = later_seqs s0 s"
  "later_seqs s0 (s\<lparr>tasks := ts\<rparr>) = later_seqs s0 s" "later_seqs s0 (s\<lparr>mapped_urls := ms\<rparr>) = later_seqs s0 s"
  "later_seqs s0 s0"
  by (simp_all add: later_seqs_def)

lemma db_inv_rollback: "db_inv s0 \<Longrightarrow> later_seqs s0 s \<Longrightarrow> db_inv (rollback s0 s)"
  by (auto simp: db_inv_defs rollback_def later_seqs_def job_exists_def intro: serial_ok_mono)

lemma keeps_later_exec:
  "(\<And>now s. later_seqs s0 s \<Longrightarrow> later_seqs s0 (snd (body now s))) \<Longrightarrow> keeps (later_seqs s0) (exec e c body)"
  by (rule keeps_exec) (simp_all add: tick_free_def keeps_def)

lemma keeps_later [keeps_intros]:
  "keeps (later_seqs s0) (insert_job e c typ params ex dl)" "keeps (later_seqs s0) (insert_task_row e c j t)"
  "keeps (later_seqs s0) (insert_mapped_row e c m)" "keeps (later_seqs s0) (prepare e c)"
  "keeps (later_seqs s0) (has_seen_canonical e u)"
  by (auto simp: insert_job_def insert_task_row_def insert_mapped_row_def prepare_def has_seen_canonical_def
      Let_def later_seqs_def intro!: keeps_later_exec)

lemma keeps_later_loops [keeps_intros]:
  "keeps (later_seqs s0) (insert_tasks_loop e c j ts)" "keeps (later_seqs s0) (insert_mapped_loop e c ms)"
  by (induction ts, auto intro!: keeps_intros) (induction ms, auto intro!: keeps_intros)

lemma keeps_later_batches [keeps_intros]:
  "keeps (later_seqs s0) (insert_tasks e c j ts)" "keeps (later_seqs s0) (insert_mapped_batch e c ms)"
  by (auto simp: insert_tasks_def insert_mapped_batch_def intro!: keeps_intros)

lemma in_tx_state:
  assumes "tick_free I" and "I s" and "\<And>tx. I (snd (body tx (s\<lparr>tick := Suc (tick s)\<rparr>)))"
    and "\<And>s0 s. I s0 \<Longrightarrow> later_seqs s0 s \<Longrightarrow> I (rollback s0 s)" and "\<And>tx s0. keeps (later_seqs s0) (body tx)"
  shows "I (snd (in_tx e body s))"
proof -
  let ?s1 = "s\<lparr>tick := Suc (tick s)\<rparr>"
  note ticks = assms(1) [unfolded tick_free_def, rule_format]
  have I1: "I ?s1" using assms(2) by (simp add: ticks)
  have b: "s1 = ?s1" if "begin_tx e s = (r, s1)" for r s1
    using that by (auto simp: begin_tx_def exec_def Let_def split: option.splits)
  have k: "I s2" "I (rollback ?s1 s2)" if "body tx ?s1 = (q, s2)" for tx q s2
  proof -
    show "I s2" using assms(3) [of tx] that by simp
    have "later_seqs ?s1 (snd (body tx ?s1))" using keepsD [OF assms(5)] by simp
    then show "I (rollback ?s1 s2)" using assms(4) [OF I1] that by (metis snd_conv)
  qed
  have c: "I s3" if "I s2" "I (rollback s1 s2)" "commit e s1 s2 = (q, s3)" for s1 s2 q s3
  proof -
    have "rollback s1 (s2\<lparr>tick := n\<rparr>) = (rollback s1 s2)\<lparr>tick := n\<rparr>" for n by (simp add: rollback_def)
    then show ?thesis using that by (auto simp: commit_def exec_def Let_def ticks split: option.splits)
  qed
  show ?thesis
    by (auto simp: in_tx_def I1 split: prod.splits sum.splits dest!: b intro: k c [OF k])
qed

lemma keeps_in_tx:
  assumes "\<And>tx. keeps db_inv (body tx)" and "\<And>tx s0. keeps (later_seqs s0) (body tx)"
  shows "keeps db_inv (in_tx e body)"
  by (rule keepsI, rule in_tx_state) (auto intro: assms db_inv_rollback keepsD [OF assms(1)])

lemma keeps_should_skip [keeps_intros]:
  "keeps I (f url) \<Longrightarrow> keeps I (should_skip_canonical f url)"
  by (simp add: should_skip_canonical_def keeps_return)

lemma keeps_seed_tasks [keeps_intros]:
  assumes "\<And>u. keeps I (has_seen_canonical e u)"
  shows "keeps I (seed_tasks e cfg seeds ts)"
  using assms by (induction seeds arbitrary: ts) (auto simp: Let_def intro!: keeps_intros)

section \<open>What a successful creation adds\<close>

definition seed_task :: "config \<Rightarrow> task_seed \<Rightarrow> task" where
  "seed_task cfg seed = new_task (seed_requested_url seed)
     (seed_final_url cfg (seed_requested_url seed)) (seed_depth seed) TaskStatusQueued"

definition seen_before :: "string \<Rightarrow> db \<Rightarrow> bool" where
  "seen_before url s \<longleftrightarrow> url \<noteq> '''' \<and> url \<in> fst ` set (dedupe_cache s)"

definition seed_skipped :: "config \<Rightarrow> db \<Rightarrow> task_seed \<Rightarrow> bool" where
  "seed_skipped cfg s seed \<longleftrightarrow> cc_dedupe_cache (c_crawl cfg) \<and>
     seen_before (seed_final_url cfg (seed_requested_url seed)) s"

lemma should_skip_Ok:
  "should_skip_canonical (has_seen_canonical e) u s = (Ok b, s') \<Longrightarrow>
   (b \<longleftrightarrow> seen_before u s) \<and> s' = s\<lparr>tick := tick s'\<rparr>"
  by (auto simp: should_skip_canonical_def has_seen_canonical_def seen_before_def filter_empty_conv
      dest!: exec_ok split: if_splits)

lemma seen_before_tick [simp]: "seen_before u (s\<lparr>tick := n\<rparr>) = seen_before u s"
  by (simp add: seen_before_def)

lemma seed_skipped_tick [simp]: "seed_skipped cfg (s\<lparr>tick := n\<rparr>) = seed_skipped cfg s"
  by (rule ext) (simp add: seed_skipped_def)

lemma seed_tasks_Ok:
  "seed_tasks e cfg seeds ts s = (Ok ts', s') \<Longrightarrow>
   ts' = ts @ map (seed_task cfg) (filter (\<lambda>x. \<not> seed_skipped cfg s x) seeds) \<and> s' = s\<lparr>tick := tick s'\<rparr>
   \<and> (\<forall>x \<in> set seeds. seed_skipped cfg s x \<longrightarrow> \<not> seed_abort_if_duplicate x)"
proof (induction seeds arbitrary: ts s)
  case Nil
  then show ?case by simp
next
  case (Cons seed seeds)
  let ?u = "seed_final_url cfg (seed_requested_url seed)"
  let ?ts = "ts @ [seed_task cfg seed]"
  show ?case
  proof (cases "cc_dedupe_cache (c_crawl cfg)")
    case False
    then have "seed_tasks e cfg seeds ?ts s = (Ok ts', s')" "\<not> seed_skipped cfg s seed"
      using Cons.prems by (simp_all add: seed_task_def Let_def seed_skipped_def)
    then show ?thesis using Cons.IH [of ?ts s] by simp
  next
    case True
    then obtain b s1 where b: "should_skip_canonical (has_seen_canonical e) ?u s = (Ok b, s1)"
      and k: "(if b then (if seed_abort_if_duplicate seed then (\<lambda>s. (Inl ErrSeedAlreadyProcessed, s))
                 else seed_tasks e cfg seeds ts) else seed_tasks e cfg seeds ?ts) s1 = (Ok ts', s')"
      using Cons.prems unfolding seed_task_def by (auto simp: andthen_Ok_iff Let_def)
    note q = should_skip_Ok [OF b]
    have sk: "seed_skipped cfg s seed \<longleftrightarrow> b" using q True by (simp add: seed_skipped_def)
    have s1: "seed_skipped cfg s1 = seed_skipped cfg s" using q by (metis seed_skipped_tick)
    have tick: "s1\<lparr>tick := n\<rparr> = s\<lparr>tick := n\<rparr>" for n using q by (metis db.surjective db.update_convs(9))
    show ?thesis
    proof (cases b)
      case True
      then have "seed_tasks e cfg seeds ts s1 = (Ok ts', s')" "\<not> seed_abort_if_duplicate seed"
        using k by (auto split: if_splits)
      then show ?thesis using Cons.IH [of ts s1] sk True s1 tick by auto
    next
      case False
      then have "seed_tasks e cfg seeds ?ts s1 = (Ok ts', s')" using k by simp
      then show ?thesis using Cons.IH [of ?ts s1] sk False s1 tick by auto
    qed
  qed
qed

text \<open>What \<open>InsertTasks\<close> adds: one queued row for each new final URL of the job.\<close>

definition stored_as :: "string \<Rightarrow> task \<Rightarrow> task \<Rightarrow> bool" where
  "stored_as jobID t r \<longleftrightarrow> t_job r = jobID \<and> t_requested_url r = t_requested_url t
     \<and> t_final_url r = t_final_url t \<and> t_depth r = t_depth t \<and> t_status r = t_status t \<and> t_attempts r = 0"

definition urls_of :: "string \<Rightarrow> task list \<Rightarrow> string list" where
  "urls_of jobID ts = map t_final_url (filter (\<lambda>t. t_job t = jobID) ts)"

lemma urls_of_append [simp]: "urls_of j (xs @ ys) = urls_of j xs @ urls_of j ys"
  by (simp add: urls_of_def)

lemma in_urls_of: "url \<in> set (urls_of j ts) \<longleftrightarrow> (\<exists>u \<in> set ts. t_job u = j \<and> t_final_url u = url)"
  by (auto simp: urls_of_def)

lemma insert_task_row_Ok:
  assumes "insert_task_row e c j t s = (Ok (), s')"
  shows "\<exists>new. tasks s' = tasks s @ new \<and> map t_final_url new = first_occ (urls_of j (tasks s)) [t_final_url t]
    \<and> (\<forall>r \<in> set new. stored_as j t r) \<and> jobs s' = jobs s \<and> documents s' = documents s
    \<and> mapped_urls s' = mapped_urls s \<and> dedupe_cache s' = dedupe_cache s"
  using assms
  by (auto simp: insert_task_row_def Let_def stored_as_def in_urls_of dest!: exec_ok split: if_splits)

lemma insert_tasks_loop_Ok:
  "insert_tasks_loop e c j ts s = (Ok (), s') \<Longrightarrow>
   \<exists>new. tasks s' = tasks s @ new \<and> map t_final_url new = first_occ (urls_of j (tasks s)) (map t_final_url ts)
    \<and> (\<forall>r \<in> set new. \<exists>t \<in> set ts. stored_as j t r) \<and> jobs s' = jobs s \<and> documents s' = documents s
    \<and> mapped_urls s' = mapped_urls s \<and> dedupe_cache s' = dedupe_cache s"
proof (induction ts arbitrary: s)
  case Nil
  then show ?case by simp
next
  case (Cons t ts)
  then obtain s1 where r: "insert_task_row e c j t s = (Ok (), s1)" and l: "insert_tasks_loop e c j ts s1 = (Ok (), s')"
    by (auto simp: andthen_Ok_iff)
  obtain n1 where n1: "tasks s1 = tasks s @ n1" "map t_final_url n1 = first_occ (urls_of j (tasks s)) [t_final_url t]"
    "\<forall>r \<in> set n1. stored_as j t r" "jobs s1 = jobs s" "documents s1 = documents s"
    "mapped_urls s1 = mapped_urls s" "dedupe_cache s1 = dedupe_cache s"
    using insert_task_row_Ok [OF r] by blast
  obtain n2 where n2: "tasks s' = tasks s1 @ n2" "map t_final_url n2 = first_occ (urls_of j (tasks s1)) (map t_final_url ts)"
    "\<forall>r \<in> set n2. \<exists>t \<in> set ts. stored_as j t r" "jobs s' = jobs s1" "documents s' = documents s1"
    "mapped_urls s' = mapped_urls s1" "dedupe_cache s' = dedupe_cache s1"
    using Cons.IH [OF l] by blast
  have "filter (\<lambda>t. t_job t = j) n1 = n1" using n1(3) by (simp add: filter_id_conv stored_as_def)
  then have "urls_of j (tasks s1) = urls_of j (tasks s) @ map t_final_url n1" by (simp add: n1(1) urls_of_def)
  then have "first_occ (urls_of j (tasks s1)) (map t_final_url ts) =
      first_occ ([t_final_url t] @ urls_of j (tasks s)) (map t_final_url ts)"
    using n1(2) by (intro first_occ_cong) auto
  then have "map t_final_url (n1 @ n2) = first_occ (urls_of j (tasks s)) (map t_final_url (t # ts))"
    using n1(2) n2(2) first_occ_append [of "urls_of j (tasks s)" "[t_final_url t]" "map t_final_url ts"] by simp
  then show ?case using n1 n2 by (intro exI [of _ "n1 @ n2"]) auto
qed

lemma insert_tasks_Ok:
  assumes "insert_tasks e c j ts s = (Ok (), s')"
  shows "\<exists>new. tasks s' = tasks s @ new \<and> map t_final_url new = first_occ (urls_of j (tasks s)) (map t_final_url ts)
    \<and> (\<forall>r \<in> set new. \<exists>t \<in> set ts. stored_as j t r) \<and> jobs s' = jobs s \<and> documents s' = documents s
    \<and> mapped_urls s' = mapped_urls s \<and> dedupe_cache s' = dedupe_cache s"
proof -
  obtain s1 where "prepare e c s = (Ok (), s1)" and l: "insert_tasks_loop e c j ts s1 = (Ok (), s')"
    using assms by (auto simp: insert_tasks_def andthen_Ok_iff)
  then have "s1 = s\<lparr>tick := Suc (tick s)\<rparr>" by (auto simp: prepare_def dest!: exec_ok)
  then show ?thesis using insert_tasks_loop_Ok [OF l] by simp
qed

lemma insert_job_Ok:
  assumes "insert_job e c typ params ex dl s = (Ok i, s')"
  shows "\<exists>now. s' = s\<lparr>tick := Suc (tick s), jobs := jobs s @
         [\<lparr>j_id = i, j_status = JobStatusQueued, j_type = typ, j_params = params, j_error = None,
           j_expires_at = Some ex, j_deadline = Some dl, j_created_at = now, j_updated_at = now\<rparr>]\<rparr>
    \<and> \<not> job_exists i s \<and> typ \<in> set job_types"
  using assms by (auto simp: insert_job_def Let_def dest!: exec_ok split: if_splits)

section \<open>Atomicity and contents\<close>

lemma create_job_error:
  assumes "create_job_with_seeds e cfg typ params seeds s = (Inl err, s')"
  shows "same_tables s s'"
proof -
  have "same_tables (s\<lparr>tick := Suc (Suc (tick s))\<rparr>) s'"
    using assms by (auto simp: create_job_with_seeds_def read_clock_def Let_def dest!: in_tx_error)
  then show ?thesis by (simp add: same_tables_def)
qed


lemma create_job_Ok:
  assumes "db_inv s" and "create_job_with_seeds e cfg typ params seeds s = (Ok jobID, s')"
  shows "\<exists>j new. jobs s' = jobs s @ [j] \<and> \<not> job_exists jobID s
    \<and> j_id j = jobID \<and> j_status j = JobStatusQueued \<and> j_type j = typ \<and> j_params j = params
    \<and> j_expires_at j = Some (go_now e (tick s) + jd_ttl (c_job_defaults cfg))
    \<and> j_deadline j = Some (go_now e (tick s + 1) + jd_deadline (c_job_defaults cfg))
    \<and> tasks s' = tasks s @ new
    \<and> map t_final_url new = first_occ [] (map (\<lambda>x. seed_final_url cfg (seed_requested_url x))
         (filter (\<lambda>x. \<not> seed_skipped cfg s x) seeds))
    \<and> (\<forall>t \<in> set new. \<exists>x \<in> set seeds. stored_as jobID (seed_task cfg x) t)
    \<and> documents s' = documents s \<and> mapped_urls s' = mapped_urls s \<and> dedupe_cache s' = dedupe_cache s
    \<and> (\<forall>x \<in> set seeds. seed_abort_if_duplicate x \<longrightarrow> \<not> seed_skipped cfg s x)"
proof -
  let ?ex = "go_now e (tick s) + jd_ttl (c_job_defaults cfg)"
  let ?dl = "go_now e (tick s + 1) + jd_deadline (c_job_defaults cfg)"
  let ?plan = "map (seed_task cfg) (filter (\<lambda>x. \<not> seed_skipped cfg s x) seeds)"
  have "in_tx e (create_job_body e cfg typ params seeds ?ex ?dl) (s\<lparr>tick := Suc (Suc (tick s))\<rparr>) = (Ok jobID, s')"
    using assms(2) by (simp add: create_job_with_seeds_def read_clock_def Let_def)
  then obtain tx s1 s4 where s1: "s1 = s\<lparr>tick := Suc (Suc (Suc (tick s)))\<rparr>"
    and b: "create_job_body e cfg typ params seeds ?ex ?dl tx s1 = (Ok jobID, s4)"
    and s': "s' = s4\<lparr>tick := tick s'\<rparr>" by (rule in_tx_Ok) auto
  obtain s2 s3 ts where j: "insert_job e tx typ params ?ex ?dl s1 = (Ok jobID, s2)"
    and t: "seed_tasks e cfg seeds [] s2 = (Ok ts, s3)"
    and i: "(if length ts > 0 then insert_tasks e tx jobID ts else (\<lambda>s. (Ok (), s))) s3 = (Ok (), s4)"
    using b by (auto simp: create_job_body_def andthen_Ok_iff)
  obtain now where s2: "s2 = s1\<lparr>tick := Suc (tick s1), jobs := jobs s1 @
         [\<lparr>j_id = jobID, j_status = JobStatusQueued, j_type = typ, j_params = params, j_error = None,
           j_expires_at = Some ?ex, j_deadline = Some ?dl, j_created_at = now, j_updated_at = now\<rparr>]\<rparr>"
    and new: "\<not> job_exists jobID s"
    using insert_job_Ok [OF j] s1 by auto
  have sk: "seed_skipped cfg s2 = seed_skipped cfg s"
    by (rule ext) (simp add: s2 s1 seed_skipped_def seen_before_def)
  note p = seed_tasks_Ok [OF t, unfolded sk]
  have ts: "ts = ?plan" and e3: "s3 = s2\<lparr>tick := tick s3\<rparr>" using p by simp_all
  have s3: "tasks s3 = tasks s" "jobs s3 = jobs s2" "documents s3 = documents s" "mapped_urls s3 = mapped_urls s"
    "dedupe_cache s3 = dedupe_cache s"
    by (subst e3, simp add: s2 s1)+
  have none: "urls_of jobID (tasks s) = []"
    using assms(1) new by (auto simp: urls_of_def filter_empty_conv db_inv_defs)
  have "\<exists>n. tasks s4 = tasks s3 @ n \<and> map t_final_url n = first_occ (urls_of jobID (tasks s3)) (map t_final_url ts)
    \<and> (\<forall>r \<in> set n. \<exists>t \<in> set ts. stored_as jobID t r) \<and> jobs s4 = jobs s3 \<and> documents s4 = documents s3
    \<and> mapped_urls s4 = mapped_urls s3 \<and> dedupe_cache s4 = dedupe_cache s3"
    using i insert_tasks_Ok [of e tx jobID ts s3 s4] by (cases "ts = []") auto
  then obtain n where n: "tasks s4 = tasks s @ n" "map t_final_url n = first_occ [] (map t_final_url ?plan)"
    "\<forall>r \<in> set n. \<exists>t \<in> set ?plan. stored_as jobID t r" "jobs s4 = jobs s2" "documents s4 = documents s"
    "mapped_urls s4 = mapped_urls s" "dedupe_cache s4 = dedupe_cache s"
    unfolding s3 none ts by blast
  have fu: "map t_final_url ?plan = map (\<lambda>x. seed_final_url cfg (seed_requested_url x))
         (filter (\<lambda>x. \<not> seed_skipped cfg s x) seeds)" by (simp add: seed_task_def new_task_def)
  have e4: "jobs s' = jobs s4" "tasks s' = tasks s4" "documents s' = documents s4"
    "mapped_urls s' = mapped_urls s4" "dedupe_cache s' = dedupe_cache s4"
    by (subst s', simp)+
  have "jobs s' = jobs s @ [last (jobs s2)]" "j_id (last (jobs s2)) = jobID"
    "j_status (last (jobs s2)) = JobStatusQueued" "j_type (last (jobs s2)) = typ" "j_params (last (jobs s2)) = params"
    "j_expires_at (last (jobs s2)) = Some ?ex" "j_deadline (last (jobs s2)) = Some ?dl"
    by (simp_all add: e4 n(4) s2 s1)
  then show ?thesis using n new p e4 unfolding fu by (intro exI [of _ "last (jobs s2)"] exI [of _ n]) auto
qed

text \<open>C14: A successful creation adds exactly one job, queued, of the given type, with its expiry and deadline computed
  from the configured TTL and deadline, under a new id; and exactly one queued task at attempt 0
  for each canonical seed URL, in the order of the seeds and without repetition, leaving out the
  seeds that the dedupe cache knows.  No other table changes, and no seed that aborts on a
  duplicate was known.\<close>

theorem create_job_adds:
  assumes "db_inv s" and "create_job_with_seeds e cfg typ params seeds s = (Ok jobID, s')"
  shows "\<exists>j new. jobs s' = jobs s @ [j] \<and> \<not> job_exists jobID s
    \<and> j_id j = jobID \<and> j_status j = JobStatusQueued \<and> j_type j = typ \<and> j_params j = params
    \<and> j_expires_at j = Some (go_now e (tick s) + jd_ttl (c_job_defaults cfg))
    \<and> j_deadline j = Some (go_now e (tick s + 1) + jd_deadline (c_job_defaults cfg))
    \<and> tasks s' = tasks s @ new
    \<and> map t_final_url new = first_occ [] (map (\<lambda>x. seed_final_url cfg (seed_requested_url x))
         (filter (\<lambda>x. \<not> seed_skipped cfg s x) seeds))
    \<and> (\<forall>t \<in> set new. \<exists>x \<in> set seeds. stored_as jobID (seed_task cfg x) t)
    \<and> documents s' = documents s \<and> mapped_urls s' = mapped_urls s \<and> dedupe_cache s' = dedupe_cache s
    \<and> (\<forall>x \<in> set seeds. seed_abort_if_duplicate x \<longrightarrow> \<not> seed_skipped cfg s x)"
  using assms by (rule create_job_Ok)

lemma keeps_create_job [keeps_intros]: "keeps db_inv (create_job_with_seeds e cfg typ params seeds)"
proof -
  have body: "keeps db_inv (create_job_body e cfg typ params seeds ex dl tx)" for ex dl tx
    unfolding create_job_body_def
  proof (rule keeps_andthen [OF keeps_insert_job], rule keeps_andthen_result [OF keeps_seed_tasks [OF keeps_reads(5)]],
      rule keeps_andthen [OF _ keeps_return])
    fix jobID ts s s'
    assume "seed_tasks e cfg seeds [] s = (Ok ts, s')"
    from seed_tasks_Ok [OF this] have "\<forall>t \<in> set ts. t_status t = TaskStatusQueued"
      by (auto simp: seed_task_def new_task_def)
    then show "keeps db_inv (if length ts > 0 then insert_tasks e tx jobID ts else (\<lambda>s. (Ok (), s)))"
      by (auto intro!: keeps_intros)
  qed
  have later: "keeps (later_seqs s0) (create_job_body e cfg typ params seeds ex dl tx)" for s0 ex dl tx
    unfolding create_job_body_def by (auto intro!: keeps_intros)
  show ?thesis
    using keepsD [OF keeps_in_tx [OF body later]]
    by (auto simp: create_job_with_seeds_def read_clock_def Let_def intro!: keepsI)
qed

text \<open>A batch job all of whose seeds are in the dedupe cache is created all the same: the call succeeds and the
  new job is queued with no task at all, so no claim will ever return one of its tasks and
  nothing starts or finishes it.\<close>

theorem batch_of_duplicates_has_no_tasks:
  assumes "db_inv s" and "create_job_with_seeds e cfg typ params seeds s = (Ok jobID, s')"
    and "\<forall>x \<in> set seeds. seed_skipped cfg s x"
  shows "\<exists>j \<in> set (jobs s'). j_id j = jobID \<and> j_status j = JobStatusQueued \<and> (\<forall>t \<in> set (tasks s'). t_job t \<noteq> jobID)"
proof -
  have "in_tx e (create_job_body e cfg typ params seeds (go_now e (tick s) + jd_ttl (c_job_defaults cfg))
      (go_now e (tick s + 1) + jd_deadline (c_job_defaults cfg))) (s\<lparr>tick := Suc (Suc (tick s))\<rparr>) = (Ok jobID, s')"
    using assms(2) by (simp add: create_job_with_seeds_def read_clock_def Let_def)
  then obtain tx s1 s4 where s1: "s1 = s\<lparr>tick := Suc (Suc (Suc (tick s)))\<rparr>"
    and b: "create_job_body e cfg typ params seeds (go_now e (tick s) + jd_ttl (c_job_defaults cfg))
      (go_now e (tick s + 1) + jd_deadline (c_job_defaults cfg)) tx s1 = (Ok jobID, s4)"
    and s': "s' = s4\<lparr>tick := tick s'\<rparr>" by (rule in_tx_Ok) auto
  obtain s2 s3 ts ex dl where j: "insert_job e tx typ params ex dl s1 = (Ok jobID, s2)"
    and t: "seed_tasks e cfg seeds [] s2 = (Ok ts, s3)"
    and i: "(if length ts > 0 then insert_tasks e tx jobID ts else (\<lambda>s. (Ok (), s))) s3 = (Ok (), s4)"
    using b by (auto simp: create_job_body_def andthen_Ok_iff)
  obtain now where s2: "s2 = s1\<lparr>tick := Suc (tick s1), jobs := jobs s1 @
         [\<lparr>j_id = jobID, j_status = JobStatusQueued, j_type = typ, j_params = params, j_error = None,
           j_expires_at = Some ex, j_deadline = Some dl, j_created_at = now, j_updated_at = now\<rparr>]\<rparr>"
    and new: "\<not> job_exists jobID s"
    using insert_job_Ok [OF j] s1 by auto
  have "seed_skipped cfg s2 = seed_skipped cfg s"
    by (rule ext) (simp add: s2 s1 seed_skipped_def seen_before_def)
  then have "ts = []" and s3: "s3 = s2\<lparr>tick := tick s3\<rparr>"
    using seed_tasks_Ok [OF t] assms(3) by (auto simp: filter_empty_conv)
  then have s4: "s4 = s3" using i by simp
  have e: "tasks s' = tasks s" "jobs s' = jobs s2"
    by (subst s', simp add: s4, subst s3, simp add: s2 s1)+
  have "\<forall>t \<in> set (tasks s). t_job t \<noteq> jobID" using assms(1) new by (auto simp: db_inv_defs)
  then show ?thesis unfolding e by (simp add: s2)
qed

definition demo_config :: config where
  "demo_config = default_config\<lparr>c_crawl := (c_crawl default_config)\<lparr>cc_dedupe_cache := True\<rparr>\<rparr>"

definition demo_cached :: db where
  "demo_cached = demo_db\<lparr>dedupe_cache := [(''http://h.org/'', 0)]\<rparr>"

definition demo_seed :: "string \<Rightarrow> bool \<Rightarrow> task_seed" where
  "demo_seed u abort = \<lparr>seed_requested_url = u, seed_depth = 0, seed_abort_if_duplicate = abort\<rparr>"

lemma demo_cached_inv: "db_inv demo_cached"
  using demo_db_inv by (simp add: demo_cached_def db_inv_defs job_exists_def demo_db_def)


theorem create_job_adds_witness:
  "\<exists>s'. create_job_with_seeds demo_env demo_config ''crawl'' JNull
       [demo_seed ''http://b.org?q'' False, demo_seed ''http://H.org'' False, demo_seed ''http://B.org:80/'' False] demo_cached
     = (Ok ''jjjjjjjjj'', s') \<and> length (tasks s') = Suc (length (tasks demo_cached))"
proof -
  let ?x = "[demo_seed ''http://b.org?q'' False, demo_seed ''http://H.org'' False, demo_seed ''http://B.org:80/'' False]"
  let ?r = "create_job_with_seeds demo_env demo_config ''crawl'' JNull ?x demo_cached"
  have "fst ?r = Ok ''jjjjjjjjj''" by code_simp
  then have r: "?r = (Ok ''jjjjjjjjj'', snd ?r)" by (simp add: prod_eq_iff)
  have "first_occ [] (map (\<lambda>x. seed_final_url demo_config (seed_requested_url x))
         (filter (\<lambda>x. \<not> seed_skipped demo_config demo_cached x) ?x)) = [''http://b.org/'']" by code_simp
  with create_job_adds [OF demo_cached_inv r] obtain new where
    "tasks (snd ?r) = tasks demo_cached @ new" "map t_final_url new = [''http://b.org/'']" by auto
  then have "length (tasks (snd ?r)) = Suc (length (tasks demo_cached))" by auto
  with r show ?thesis by blast
qed

theorem batch_of_duplicates_has_no_tasks_witness:
  "\<exists>s' jobID. create_job_with_seeds demo_env demo_config ''batch_scrape'' JNull [demo_seed ''http://h.org'' False] demo_cached
     = (Ok jobID, s') \<and> (\<forall>t \<in> set (tasks s'). t_job t \<noteq> jobID)"
proof -
  let ?r = "create_job_with_seeds demo_env demo_config ''batch_scrape'' JNull [demo_seed ''http://h.org'' False] demo_cached"
  have "fst ?r = Ok ''jjjjjjjjj''" by code_simp
  then have r: "?r = (Ok ''jjjjjjjjj'', snd ?r)" by (simp add: prod_eq_iff)
  have "\<forall>x \<in> set [demo_seed ''http://h.org'' False]. seed_skipped demo_config demo_cached x" by code_simp
  from batch_of_duplicates_has_no_tasks [OF demo_cached_inv r this] r show ?thesis by blast
qed

end
