(* ===== verification/Listing.thy ===== *)
theory Listing
  imports Queue "HOL-Library.Product_Lexorder" "HOL-Library.List_Lexorder" "HOL-Library.Char_ord"
    "HOL-Library.Multiset"
begin

text \<open>
  The paged queries of \<open>internal/store/store.go\<close> (\<open>ListDocuments\<close>, \<open>ListMapped\<close> and their \<open>After\<close>
  variants) and the export loop of \<open>internal/server/routes.go\<close> that walks through them with the
  id of the last row as its cursor.

  The locale \<open>pager\<close> is the interface between the loop and a table: what a page holds and that
  reading it changes nothing.  The loop is verified once against it (it ends for every sortDir
  order, and sorted by id it writes every row once and in order) and the locale is interpreted
  for the documents and the mapped URLs of a job.  Sorted by a URL column the loop can skip rows:
  the last lemma gives such a run.
\<close>

section \<open>ORDER BY\<close>

definition order_dir :: "string \<Rightarrow> string" where
  "order_dir sortDir = (if to_lower sortDir = ''desc'' then ''DESC'' else ''ASC'')"

definition document_order_column :: "string \<Rightarrow> string" where
  "document_order_column orderBy =
     (if to_lower orderBy = ''created_at'' then ''created_at''
      else if to_lower orderBy = ''final_url'' then ''final_url''
      else ''id'')"

definition map_order_column :: "string \<Rightarrow> string" where
  "map_order_column orderBy =
     (if to_lower orderBy = ''created_at'' then ''created_at''
      else if to_lower orderBy = ''target_url'' then ''target_url''
      else ''id'')"

text \<open>The value of a column as the server compares it.\<close>

datatype column_value = NumValue int | TextValue string

instantiation column_value :: linorder
begin

fun less_eq_column_value :: "column_value \<Rightarrow> column_value \<Rightarrow> bool" where
  "less_eq_column_value (NumValue a) (NumValue b) = (a \<le> b)"
| "less_eq_column_value (NumValue a) (TextValue b) = True"
| "less_eq_column_value (TextValue a) (NumValue b) = False"
| "less_eq_column_value (TextValue a) (TextValue b) = (a \<le> b)"

definition less_column_value :: "column_value \<Rightarrow> column_value \<Rightarrow> bool" where
  "less_column_value a b = (a \<le> b \<and> \<not> b \<le> a)"

instance
proof
  fix x y z :: column_value
  show "(x < y) = (x \<le> y \<and> \<not> y \<le> x)" by (simp add: less_column_value_def)
  show "x \<le> x" by (cases x) auto
  show "x \<le> y \<Longrightarrow> y \<le> z \<Longrightarrow> x \<le> z" by (cases x; cases y; cases z) auto
  show "x \<le> y \<Longrightarrow> y \<le> x \<Longrightarrow> x = y" by (cases x; cases y) auto
  show "x \<le> y \<or> y \<le> x" by (cases x; cases y) auto
qed

end

definition document_column :: "env \<Rightarrow> string \<Rightarrow> document_row \<Rightarrow> column_value" where
  "document_column e col r =
     (if col = ''created_at'' then NumValue (d_created_at r)
      else if col = ''final_url'' then TextValue (collation_key e (d_final_url r))
      else NumValue (d_id r))"

definition mapped_column :: "env \<Rightarrow> string \<Rightarrow> mapped_row \<Rightarrow> column_value" where
  "mapped_column e col r =
     (if col = ''created_at'' then NumValue (m_created_at r)
      else if col = ''target_url'' then TextValue (collation_key e (m_target_url r))
      else NumValue (m_id r))"

text \<open>\<open>ORDER BY column dir, id dir\<close>.\<close>

definition order_rows :: "('r \<Rightarrow> column_value) \<Rightarrow> ('r \<Rightarrow> int) \<Rightarrow> string \<Rightarrow> 'r list \<Rightarrow> 'r list" where
  "order_rows col rid order rs =
     (let asc = sort_key (\<lambda>r. (col r, rid r)) rs in if order = ''DESC'' then rev asc else asc)"

section \<open>The queries\<close>

definition limit_offset :: "int \<Rightarrow> int \<Rightarrow> 'r list \<Rightarrow> 'r list" where
  "limit_offset limit offset rs = take (nat limit) (drop (nat offset) rs)"

definition beyond :: "string \<Rightarrow> int \<Rightarrow> int \<Rightarrow> bool" where
  "beyond order cursor i \<longleftrightarrow> (if order = ''DESC'' then i < cursor else i > cursor)"

definition list_documents ::
    "env \<Rightarrow> string \<Rightarrow> int \<Rightarrow> int \<Rightarrow> string \<Rightarrow> string \<Rightarrow> (document_row list) op" where
  "list_documents e jobID limit offset sortDir orderBy =
     exec e Pool (\<lambda>_ s.
       (Ok (limit_offset limit offset
          (order_rows (document_column e (document_order_column orderBy)) d_id (order_dir sortDir)
             (filter (\<lambda>r. d_job r = jobID) (documents s)))), s))"

definition list_documents_after ::
    "env \<Rightarrow> string \<Rightarrow> int \<Rightarrow> int \<Rightarrow> string \<Rightarrow> string \<Rightarrow> (document_row list) op" where
  "list_documents_after e jobID limit afterCursor sortDir orderBy =
     exec e Pool (\<lambda>_ s.
       (Ok (limit_offset limit 0
          (order_rows (document_column e (document_order_column orderBy)) d_id (order_dir sortDir)
             (filter (\<lambda>r. d_job r = jobID \<and> beyond (order_dir sortDir) afterCursor (d_id r)) (documents s)))), s))"

definition list_mapped ::
    "env \<Rightarrow> string \<Rightarrow> int \<Rightarrow> int \<Rightarrow> string \<Rightarrow> string \<Rightarrow> (mapped_row list) op" where
  "list_mapped e jobID limit offset sortDir orderBy =
     exec e Pool (\<lambda>_ s.
       (Ok (limit_offset limit offset
          (order_rows (mapped_column e (map_order_column orderBy)) m_id (order_dir sortDir)
             (filter (\<lambda>r. m_job r = jobID) (mapped_urls s)))), s))"

definition list_mapped_after ::
    "env \<Rightarrow> string \<Rightarrow> int \<Rightarrow> int \<Rightarrow> string \<Rightarrow> string \<Rightarrow> (mapped_row list) op" where
  "list_mapped_after e jobID limit afterCursor sortDir orderBy =
     exec e Pool (\<lambda>_ s.
       (Ok (limit_offset limit 0
          (order_rows (mapped_column e (map_order_column orderBy)) m_id (order_dir sortDir)
             (filter (\<lambda>r. m_job r = jobID \<and> beyond (order_dir sortDir) afterCursor (m_id r)) (mapped_urls s)))), s))"

section \<open>The export loop\<close>

text \<open>The page that the list and export handlers read at a cursor.\<close>

definition documents_page ::
    "env \<Rightarrow> string \<Rightarrow> int \<Rightarrow> string \<Rightarrow> string \<Rightarrow> int \<Rightarrow> (document_row list) op" where
  "documents_page e jobID limit sortDir orderBy cursor =
     (if cursor > 0 then list_documents_after e jobID limit cursor sortDir orderBy
      else list_documents e jobID limit 0 sortDir orderBy)"

definition mapped_page ::
    "env \<Rightarrow> string \<Rightarrow> int \<Rightarrow> string \<Rightarrow> string \<Rightarrow> int \<Rightarrow> (mapped_row list) op" where
  "mapped_page e jobID limit sortDir orderBy cursor =
     (if cursor > 0 then list_mapped_after e jobID limit cursor sortDir orderBy
      else list_mapped e jobID limit 0 sortDir orderBy)"

text \<open>
  The loop writes the rows of each page and moves the cursor to the last row, until a page is
  empty, or after one page unless \<open>all\<close> is set.  It has no bound in the code: \<open>fuel\<close> counts the
  pages, and \<open>None\<close> stands for a loop that has not ended after that many.
\<close>

fun export_loop ::
    "nat \<Rightarrow> (int \<Rightarrow> ('r list, 's) action) \<Rightarrow> ('r \<Rightarrow> int) \<Rightarrow> bool \<Rightarrow> int \<Rightarrow> 'r list \<Rightarrow>
     's \<Rightarrow> (('r list \<times> int) res \<times> 's) option" where
  "export_loop 0 page rid all cursor out s = None"
| "export_loop (Suc fuel) page rid all cursor out s =
     (case page cursor s of
        (Inl err, s') \<Rightarrow> Some (Inl err, s')
      | (Inr rows, s') \<Rightarrow>
          (if rows = [] then Some (Ok (out, cursor), s')
           else if \<not> all then Some (Ok (out @ rows, rid (last rows)), s')
           else export_loop fuel page rid all (rid (last rows)) (out @ rows) s'))"

definition export_documents ::
    "nat \<Rightarrow> env \<Rightarrow> string \<Rightarrow> int \<Rightarrow> int \<Rightarrow> string \<Rightarrow> string \<Rightarrow> bool \<Rightarrow> db \<Rightarrow>
     ((document_row list \<times> int) res \<times> db) option" where
  "export_documents fuel e jobID limit after sortDir orderBy all =
     export_loop fuel (documents_page e jobID limit sortDir orderBy) d_id all after []"

definition export_map ::
    "nat \<Rightarrow> env \<Rightarrow> string \<Rightarrow> int \<Rightarrow> int \<Rightarrow> string \<Rightarrow> string \<Rightarrow> bool \<Rightarrow> db \<Rightarrow>
     ((mapped_row list \<times> int) res \<times> db) option" where
  "export_map fuel e jobID limit after sortDir orderBy all =
     export_loop fuel (mapped_page e jobID limit sortDir orderBy) m_id all after []"

section \<open>The interface of a paged table\<close>

definition rest :: "string \<Rightarrow> int \<Rightarrow> int \<Rightarrow> bool" where
  "rest order c i \<longleftrightarrow> c \<le> 0 \<or> beyond order c i"

lemma rest_step: "rest order c i \<Longrightarrow> 0 < i \<Longrightarrow> rest order i k \<Longrightarrow> rest order c k"
  by (auto simp: rest_def beyond_def split: if_splits)

lemma not_rest_self: "0 < i \<Longrightarrow> \<not> rest order i i"
  by (simp add: rest_def beyond_def)

lemma filter_after_last_taken:
  assumes "sorted_wrt R xs" and "\<And>a b. R a b \<Longrightarrow> \<not> R b a" and "take n xs \<noteq> []"
  shows "filter (R (last (take n xs))) xs = drop n xs"
proof -
  let ?l = "last (take n xs)"
  have l: "take n xs = butlast (take n xs) @ [?l]" using assms(3) by simp
  have "sorted_wrt R (take n xs @ drop n xs)" using assms(1) by simp
  then have s: "sorted_wrt R (take n xs)" "\<forall>a \<in> set (take n xs). \<forall>b \<in> set (drop n xs). R a b"
    unfolding sorted_wrt_append by auto
  have "sorted_wrt R (butlast (take n xs) @ [?l])" using s(1) l by simp
  then have "\<forall>a \<in> set (butlast (take n xs)). R a ?l" unfolding sorted_wrt_append by simp
  then have "\<forall>a \<in> set (butlast (take n xs) @ [?l]). \<not> R ?l a" using assms(2) by auto
  then have "filter (R ?l) (take n xs) = []" using l by (simp only: filter_empty_conv)
  moreover have "filter (R ?l) (drop n xs) = drop n xs"
    using s(2) last_in_set [OF assms(3)] by (simp add: filter_id_conv)
  moreover have "filter (R ?l) xs = filter (R ?l) (take n xs) @ filter (R ?l) (drop n xs)"
    by (metis append_take_drop_id filter_append)
  ultimately show ?thesis by simp
qed

definition by_id :: "string \<Rightarrow> ('r \<Rightarrow> int) \<Rightarrow> 'r list \<Rightarrow> 'r list" where
  "by_id order rid xs = (if order = ''DESC'' then rev (sort_key rid xs) else sort_key rid xs)"

lemma set_by_id [simp]: "set (by_id order rid xs) = set xs"
  by (simp add: by_id_def)

lemma filter_by_id: "filter P (by_id order rid xs) = by_id order rid (filter P xs)"
  by (auto simp: by_id_def filter_sort rev_filter [symmetric])

lemma sorted_by_id:
  assumes "distinct (map rid xs)"
  shows "sorted_wrt (\<lambda>a b. beyond order (rid a) (rid b)) (by_id order rid xs)"
proof -
  let ?ys = "sort_key rid xs"
  have "distinct (map rid ?ys)" using assms by (simp add: distinct_map)
  then have "sorted_wrt (<) (map rid ?ys)" by (simp add: strict_sorted_iff)
  then have "sorted_wrt (\<lambda>a b. rid a < rid b) ?ys" by (simp add: sorted_wrt_map)
  then show ?thesis by (simp add: by_id_def beyond_def sorted_wrt_rev)
qed

locale pager =
  fixes rows :: "'s \<Rightarrow> 'r list"
    and rid :: "'r \<Rightarrow> int"
    and order :: string
    and ordered :: "'r list \<Rightarrow> 'r list"
    and limit :: int
    and page :: "int \<Rightarrow> ('r list, 's) action"
    and inv :: "'s \<Rightarrow> bool"
  assumes perm: "set (ordered xs) = set xs"
    and frame: "inv s \<Longrightarrow> inv (snd (page c s)) \<and> rows (snd (page c s)) = rows s"
    and ids: "inv s \<Longrightarrow> distinct (map rid (rows s)) \<and> (\<forall>r \<in> set (rows s). 0 < rid r)"
    and content: "inv s \<Longrightarrow> fst (page c s) = Ok rs \<Longrightarrow>
      rs = take (nat limit) (ordered (filter (\<lambda>r. rest order c (rid r)) (rows s)))"
begin

lemma page_last:
  assumes "inv s" and "page c s = (Ok rs, s')" and "rs \<noteq> []"
  shows "inv s'" and "rows s' = rows s" and "last rs \<in> set (rows s)" and "0 < rid (last rs)"
    and "rest order c (rid (last rs))"
proof -
  show "inv s'" "rows s' = rows s" using frame [OF assms(1), of c] assms(2) by auto
  have "last rs \<in> set (ordered (filter (\<lambda>r. rest order c (rid r)) (rows s)))"
    using content [OF assms(1), of c rs] assms(2) last_in_set [OF assms(3)] by (metis fst_conv in_set_takeD)
  then show "last rs \<in> set (rows s)" "rest order c (rid (last rs))" by (simp_all add: perm)
  then show "0 < rid (last rs)" using ids [OF assms(1)] by blast
qed

text \<open>The cursor leaves at least one row behind, so the loop ends whatever the sort column.\<close>

lemma fewer_left:
  assumes "x \<in> set (rows s)" and "0 < rid x" and "rest order c (rid x)"
  shows "length (filter (\<lambda>r. rest order (rid x) (rid r)) (rows s)) < length (filter (\<lambda>r. rest order c (rid r)) (rows s))"
proof -
  let ?F = "\<lambda>c. filter (\<lambda>r. rest order c (rid r)) (rows s)"
  have "length (filter (\<lambda>r. rest order (rid x) (rid r)) (?F c)) < length (?F c)"
    by (rule length_filter_less [of x]) (use assms not_rest_self in auto)
  moreover have "?F (rid x) = filter (\<lambda>r. rest order (rid x) (rid r)) (?F c)"
    using rest_step [OF assms(3,2)] by (auto intro: filter_cong)
  ultimately show ?thesis by simp
qed

lemma export_ends:
  assumes "inv s" and "length (filter (\<lambda>r. rest order c (rid r)) (rows s)) < fuel"
  shows "export_loop fuel page rid all c out s \<noteq> None"
  using assms
proof (induction fuel arbitrary: c out s)
  case 0
  then show ?case by simp
next
  case (Suc fuel)
  obtain r s' where p: "page c s = (r, s')" by (cases "page c s")
  show ?case
  proof (cases r)
    case (Inl err)
    then show ?thesis using p by simp
  next
    case (Inr rs)
    show ?thesis
    proof (cases "rs = [] \<or> \<not> all")
      case True
      then show ?thesis using p Inr by auto
    next
      case False
      then have ne: "rs \<noteq> []" by simp
      note l = page_last [OF Suc.prems(1) p [unfolded Inr] ne]
      have "length (filter (\<lambda>r. rest order (rid (last rs)) (rid r)) (rows s)) < fuel"
        using fewer_left [OF l(3-5)] Suc.prems(2) by linarith
      then have "export_loop fuel page rid all (rid (last rs)) (out @ rs) s' \<noteq> None"
        using Suc.IH [of s' "rid (last rs)" "out @ rs"] l(1,2) by simp
      then show ?thesis using p Inr False by simp
    qed
  qed
qed

text \<open>Sorted by id, all pages together are the remaining rows in order, each once.\<close>

lemma rest_after_page:
  assumes "inv s" and rs: "rs = take (nat limit) (by_id order rid (filter (\<lambda>r. rest order c (rid r)) (rows s)))"
    and "rs \<noteq> []" and "0 < rid (last rs)" and "rest order c (rid (last rs))"
  shows "by_id order rid (filter (\<lambda>r. rest order (rid (last rs)) (rid r)) (rows s)) =
    drop (nat limit) (by_id order rid (filter (\<lambda>r. rest order c (rid r)) (rows s)))"
proof -
  let ?F = "\<lambda>c. filter (\<lambda>r. rest order c (rid r)) (rows s)"
  let ?l = "rid (last rs)"
  have F: "?F ?l = filter (\<lambda>r. beyond order ?l (rid r)) (?F c)"
    using rest_step [OF assms(5,4)] assms(4) by (auto simp: rest_def intro: filter_cong)
  have "filter (\<lambda>r. beyond order ?l (rid r)) (by_id order rid (?F c)) = drop (nat limit) (by_id order rid (?F c))"
    unfolding rs
  proof (rule filter_after_last_taken [where R = "\<lambda>a b. beyond order (rid a) (rid b)"])
    show "sorted_wrt (\<lambda>a b. beyond order (rid a) (rid b)) (by_id order rid (?F c))"
      using ids [OF assms(1)] by (intro sorted_by_id) (simp add: distinct_map_filter)
  qed (use assms(3) rs in \<open>auto simp: beyond_def split: if_splits\<close>)
  then show ?thesis unfolding F by (simp add: filter_by_id)
qed

lemma export_all_by_id:
  assumes sorted: "\<And>xs. ordered xs = by_id order rid xs" and "0 < limit"
    and "inv s" and "export_loop fuel page rid True c out s = Some (Ok (out', c'), s')"
  shows "out' = out @ by_id order rid (filter (\<lambda>r. rest order c (rid r)) (rows s))"
  using assms(3,4)
proof (induction fuel arbitrary: c out s)
  case 0
  then show ?case by simp
next
  case (Suc fuel)
  let ?F = "\<lambda>c. filter (\<lambda>r. rest order c (rid r)) (rows s)"
  obtain rs s1 where p: "page c s = (Ok rs, s1)"
    using Suc.prems(2) by (cases "page c s"; cases "fst (page c s)") auto
  have rs: "rs = take (nat limit) (by_id order rid (?F c))"
    using content [OF Suc.prems(1), of c rs] p sorted by simp
  show ?case
  proof (cases "rs = []")
    case True
    then have "by_id order rid (?F c) = []" using rs assms(2) by simp
    then show ?thesis using Suc.prems(2) p True by simp
  next
    case False
    note l = page_last [OF Suc.prems(1) p False]
    let ?l = "rid (last rs)"
    have d: "by_id order rid (?F ?l) = drop (nat limit) (by_id order rid (?F c))"
      by (rule rest_after_page [OF Suc.prems(1) rs False l(4,5)])
    have "out' = (out @ rs) @ by_id order rid (?F ?l)"
      using Suc.IH [of s1 ?l "out @ rs"] Suc.prems(2) p False l(1,2) by simp
    moreover have "rs @ drop (nat limit) (by_id order rid (?F c)) = by_id order rid (?F c)"
      unfolding rs by (rule append_take_drop_id)
    ultimately show ?thesis unfolding d by simp
  qed
qed

lemma export_no_error:
  assumes "\<And>c s. inv s \<Longrightarrow> is_ok (fst (page c s))"
    and "inv s" and "export_loop fuel page rid all c out s = Some (r, s')"
  shows "\<exists>x. r = Ok x"
  using assms(2,3)
proof (induction fuel arbitrary: c out s)
  case 0
  then show ?case by simp
next
  case (Suc fuel)
  obtain q s1 where p: "page c s = (q, s1)" by (cases "page c s")
  then obtain rs where q: "q = Ok rs"
    using assms(1) [OF Suc.prems(1), of c] by (cases q) auto
  show ?case
  proof (cases "rs = [] \<or> \<not> all")
    case True
    then show ?thesis using Suc.prems(2) p q by (auto split: if_splits)
  next
    case False
    have "inv s1" using frame [OF Suc.prems(1), of c] p by simp
    then show ?thesis using Suc.IH [of s1 "rid (last rs)" "out @ rs"] Suc.prems(2) p q False by simp
  qed
qed

end

section \<open>Documents and mapped URLs\<close>

lemma set_order_rows [simp]: "set (order_rows col rid order xs) = set xs"
  by (simp add: order_rows_def Let_def)

lemma order_rows_id:
  assumes "\<And>r. col r = NumValue (rid r)"
  shows "order_rows col rid order xs = by_id order rid xs"
proof -
  have "insort_key (\<lambda>r. (col r, rid r)) x ys = insort_key rid x ys" for x ys
    by (induction ys) (auto simp: assms less_eq_prod_def less_column_value_def)
  then have "sort_key (\<lambda>r. (col r, rid r)) xs = sort_key rid xs"
    by (induction xs) (simp_all add: sort_key_def)
  then show ?thesis by (simp add: order_rows_def by_id_def)
qed

lemma documents_page_keeps: "keeps db_inv (documents_page e jobID limit sortDir orderBy c)"
  unfolding documents_page_def list_documents_after_def list_documents_def by (intro keeps_intros)

lemma mapped_page_keeps: "keeps db_inv (mapped_page e jobID limit sortDir orderBy c)"
  unfolding mapped_page_def list_mapped_after_def list_mapped_def by (intro keeps_intros)

lemma page_tables:
  "documents (snd (documents_page e jobID limit sortDir orderBy c s)) = documents s"
  "mapped_urls (snd (mapped_page e jobID limit sortDir orderBy c s)) = mapped_urls s"
  by (simp_all add: documents_page_def list_documents_after_def list_documents_def mapped_page_def
      list_mapped_after_def list_mapped_def exec_def Let_def split: option.splits)

interpretation docs: pager
  "\<lambda>s. filter (\<lambda>r. d_job r = jobID) (documents s)" d_id "order_dir sortDir"
  "order_rows (document_column e (document_order_column orderBy)) d_id (order_dir sortDir)"
  limit "documents_page e jobID limit sortDir orderBy" db_inv
  for e jobID limit sortDir orderBy
proof
  fix s c rs assume inv: "db_inv s"
  show "db_inv (snd (documents_page e jobID limit sortDir orderBy c s)) \<and>
      filter (\<lambda>r. d_job r = jobID) (documents (snd (documents_page e jobID limit sortDir orderBy c s))) =
      filter (\<lambda>r. d_job r = jobID) (documents s)"
    using keepsD [OF documents_page_keeps inv] by (simp add: page_tables)
  show "distinct (map d_id (filter (\<lambda>r. d_job r = jobID) (documents s))) \<and>
      (\<forall>r \<in> set (filter (\<lambda>r. d_job r = jobID) (documents s)). 0 < d_id r)"
    using inv by (auto simp: db_inv_defs serial_ok_def distinct_map_filter)
  assume "fst (documents_page e jobID limit sortDir orderBy c s) = Ok rs"
  then show "rs = take (nat limit)
      (order_rows (document_column e (document_order_column orderBy)) d_id (order_dir sortDir)
        (filter (\<lambda>r. rest (order_dir sortDir) c (d_id r)) (filter (\<lambda>r. d_job r = jobID) (documents s))))"
    by (auto simp: documents_page_def list_documents_after_def list_documents_def exec_def Let_def
        limit_offset_def rest_def conj_commute split: option.splits if_splits)
qed simp

interpretation mapped: pager
  "\<lambda>s. filter (\<lambda>r. m_job r = jobID) (mapped_urls s)" m_id "order_dir sortDir"
  "order_rows (mapped_column e (map_order_column orderBy)) m_id (order_dir sortDir)"
  limit "mapped_page e jobID limit sortDir orderBy" db_inv
  for e jobID limit sortDir orderBy
proof
  fix s c rs assume inv: "db_inv s"
  show "db_inv (snd (mapped_page e jobID limit sortDir orderBy c s)) \<and>
      filter (\<lambda>r. m_job r = jobID) (mapped_urls (snd (mapped_page e jobID limit sortDir orderBy c s))) =
      filter (\<lambda>r. m_job r = jobID) (mapped_urls s)"
    using keepsD [OF mapped_page_keeps inv] by (simp add: page_tables)
  show "distinct (map m_id (filter (\<lambda>r. m_job r = jobID) (mapped_urls s))) \<and>
      (\<forall>r \<in> set (filter (\<lambda>r. m_job r = jobID) (mapped_urls s)). 0 < m_id r)"
    using inv by (auto simp: db_inv_defs serial_ok_def distinct_map_filter)
  assume "fst (mapped_page e jobID limit sortDir orderBy c s) = Ok rs"
  then show "rs = take (nat limit)
      (order_rows (mapped_column e (map_order_column orderBy)) m_id (order_dir sortDir)
        (filter (\<lambda>r. rest (order_dir sortDir) c (m_id r)) (filter (\<lambda>r. m_job r = jobID) (mapped_urls s))))"
    by (auto simp: mapped_page_def list_mapped_after_def list_mapped_def exec_def Let_def
        limit_offset_def rest_def conj_commute split: option.splits if_splits)
qed simp

lemma page_ok:
  assumes "no_faults e"
  shows "is_ok (fst (documents_page e jobID limit sortDir orderBy c s))"
    and "is_ok (fst (mapped_page e jobID limit sortDir orderBy c s))"
  using assms by (simp_all add: documents_page_def list_documents_after_def list_documents_def
      mapped_page_def list_mapped_after_def list_mapped_def exec_no_faults)

lemma by_id_column:
  "document_order_column orderBy = ''id'' \<Longrightarrow>
     order_rows (document_column e (document_order_column orderBy)) d_id order xs = by_id order d_id xs"
  "map_order_column orderBy = ''id'' \<Longrightarrow>
     order_rows (mapped_column e (map_order_column orderBy)) m_id order ys = by_id order m_id ys"
  by (auto intro!: order_rows_id simp: document_column_def mapped_column_def)

text \<open>The export of all pages always ends, for every sort column and direction, page limit and start cursor
  and also when statements fail: one page more than the job has rows is enough, because
  every page moves the cursor past at least one row.\<close>

theorem export_terminates:
  assumes "db_inv s"
  shows "export_documents (Suc (length (documents s))) e jobID limit after sortDir orderBy all s \<noteq> None
    \<and> export_map (Suc (length (mapped_urls s))) e jobID limit after sortDir orderBy all s \<noteq> None"
proof -
  have len: "length (filter P (filter Q xs)) < Suc (length xs)" for P Q and xs :: "'a list"
    by (meson le_imp_less_Suc le_trans length_filter_le)
  then show ?thesis
    unfolding export_documents_def export_map_def
    by (intro conjI docs.export_ends mapped.export_ends assms len)
qed

text \<open>C17: An export of all pages of a job sorted by id (in either direction, from any cursor, with any page
  size) ends and writes every document of the job beyond the cursor exactly once and in order.\<close>

theorem export_documents_complete:
  assumes "db_inv s" and "no_faults e" and "0 < limit" and "document_order_column orderBy = ''id''"
  shows "\<exists>c s'. export_documents (Suc (length (documents s))) e jobID limit after sortDir orderBy True s =
    Some (Ok (by_id (order_dir sortDir) d_id
       (filter (\<lambda>r. d_job r = jobID \<and> rest (order_dir sortDir) after (d_id r)) (documents s)), c), s')"
proof -
  let ?page = "documents_page e jobID limit sortDir orderBy"
  let ?F = "filter (\<lambda>r. rest (order_dir sortDir) after (d_id r)) (filter (\<lambda>r. d_job r = jobID) (documents s))"
  have "length ?F < Suc (length (documents s))" by (meson le_imp_less_Suc le_trans length_filter_le)
  then obtain r s' where x: "export_loop (Suc (length (documents s))) ?page d_id True after [] s = Some (r, s')"
    using docs.export_ends [OF assms(1)] by fast
  obtain out c where r: "r = Ok (out, c)"
    using docs.export_no_error [OF page_ok(1) [OF assms(2)] assms(1) x] by auto
  have "out = [] @ by_id (order_dir sortDir) d_id ?F"
    by (rule docs.export_all_by_id [OF by_id_column(1) [OF assms(4)] assms(3,1) x [unfolded r]])
  then show ?thesis using x r by (auto simp: export_documents_def conj_commute)
qed

definition demo_doc :: "int \<Rightarrow> string \<Rightarrow> document_row" where
  "demo_doc i url = \<lparr>d_job = ''j'', d_requested_url = url, d_final_url = url, d_title = '''', d_content_md = '''',
     d_content_raw = '''', d_meta = JNull, d_id = i, d_created_at = 0\<rparr>"

definition demo_docs :: db where
  "demo_docs = demo_db\<lparr>documents := [demo_doc 1 ''b'', demo_doc 2 ''a'', demo_doc 3 ''c''], doc_seq := 3\<rparr>"

lemma demo_docs_inv: "db_inv demo_docs"
  using demo_db_inv
  by (simp add: demo_docs_def demo_doc_def db_inv_defs serial_ok_def demo_db_def demo_job_def job_exists_def)

theorem export_terminates_witness:
  "\<exists>x. export_documents 4 demo_env ''j'' 1 0 ''desc'' ''final_url'' True demo_docs = Some x"
  using export_terminates [OF demo_docs_inv, of demo_env "''j''" 1 0 "''desc''" "''final_url''" True]
  by (auto simp: demo_docs_def eval_nat_numeral)

theorem export_documents_complete_witness:
  "\<exists>c s'. export_documents 4 demo_env ''j'' 2 0 ''desc'' ''id'' True demo_docs =
     Some (Ok ([demo_doc 3 ''c'', demo_doc 2 ''a'', demo_doc 1 ''b''], c), s')"
proof -
  have l: "Suc (length (documents demo_docs)) = 4" by (simp add: demo_docs_def)
  have c: "document_order_column ''id'' = ''id''" by code_simp
  have f: "by_id (order_dir ''desc'') d_id (filter (\<lambda>r. d_job r = ''j'' \<and> rest (order_dir ''desc'') 0 (d_id r)) (documents demo_docs)) =
      [demo_doc 3 ''c'', demo_doc 2 ''a'', demo_doc 1 ''b'']" by code_simp
  show ?thesis
    using export_documents_complete [OF demo_docs_inv demo_no_faults _ c, of 2 "''j''" 0 "''desc''"]
    unfolding l f by simp
qed

text \<open>Sorted by \<open>final_url\<close> an export of all pages can skip rows: the cursor is the id of the last row written,
  so rows with a smaller id that come later in the URL order are never written.  Here the job has
  three documents and the export of all pages writes two.\<close>

theorem export_by_url_skips_rows:
  "map_option (map_sum id (map d_id \<circ> fst) \<circ> fst)
     (export_documents 4 demo_env ''j'' 1 0 ''asc'' ''final_url'' True demo_docs) = Some (Ok [2, 3])
   \<and> map d_id (filter (\<lambda>r. d_job r = ''j'') (documents demo_docs)) = [1, 2, 3]"
  by code_simp

end
