(* ===== verification/Content.thy ===== *)
theory Content
  imports Store "HOL-Library.List_Lexorder" "HOL-Library.Char_ord"
begin

text \<open>
  From a fetched page to stored outputs and back: \<open>internal/extract/extract.go\<close>,
  \<open>internal/format/format.go\<close> and the output functions of \<open>internal/server/routes.go\<close>.

  The HTML library, the Markdown converter and the Markdown stripper are the fields of
  \<open>libs\<close>; a parsed document is seen through the queries the code makes (\<open>html_doc\<close>, after
  the noisy elements are removed).  A Go map is an association list with distinct keys; where the code iterates
  over a map, the argument \<open>iter\<close> gives the order.
\<close>

section \<open>Extraction\<close>

record html_doc =
  doc_title :: string                                  \<comment> \<open>text of the first title element\<close>
  doc_attr :: "string \<Rightarrow> string \<Rightarrow> string option"       \<comment> \<open>attribute of the first match of a selector\<close>
  doc_anchors :: "(string \<times> string option) list"       \<comment> \<open>\<open>href\<close> and \<open>rel\<close> of the links, in order\<close>
  doc_body_text :: string
  doc_body_html :: string

record libs =
  html_parse :: "string \<Rightarrow> html_doc res"
  html_to_md :: "string \<Rightarrow> string res"
  strip_md :: "string \<Rightarrow> string"

record extracted =
  x_url :: string
  x_title :: string
  x_text :: string
  x_html :: string
  x_meta :: "(string \<times> string) list"
  x_links :: "string list"

text \<open>\<open>strings.Fields\<close>.\<close>

fun fields_acc :: "string \<Rightarrow> string \<Rightarrow> string list" where
  "fields_acc w [] = (if w = '''' then [] else [rev w])"
| "fields_acc w (c # cs) =
     (if is_space c then (if w = '''' then fields_acc '''' cs else rev w # fields_acc '''' cs)
      else fields_acc (c # w) cs)"

definition fields :: "string \<Rightarrow> string list" where
  "fields s = fields_acc '''' s"

text \<open>The content of the first \<open>meta\<close> element whose attribute has the given value.\<close>

definition meta_selector :: "string \<Rightarrow> string \<Rightarrow> string" where
  "meta_selector attr val = ''meta['' @ attr @ [CHR ''='', CHR 0x22] @ val @ [CHR 0x22, CHR '']'']"

definition content_of :: "html_doc \<Rightarrow> string \<Rightarrow> string \<Rightarrow> string option" where
  "content_of d attr val = doc_attr d (meta_selector attr val) ''content''"

definition set_trimmed :: "string \<Rightarrow> string option \<Rightarrow> (string \<times> string) list \<Rightarrow> (string \<times> string) list" where
  "set_trimmed key found meta =
     (case found of None \<Rightarrow> meta | Some v \<Rightarrow> AList.update key (trim_space v) meta)"

fun extract_links :: "(string \<times> string option) list \<Rightarrow> string list" where
  "extract_links [] = []"
| "extract_links ((href, rel) # as) =
     (case rel of
        Some r \<Rightarrow> if contains (to_lower r) ''nofollow'' then extract_links as
                  else trim_space href # extract_links as
      | None \<Rightarrow> trim_space href # extract_links as)"

definition extract_meta :: "html_doc \<Rightarrow> string \<Rightarrow> string \<Rightarrow> string \<times> (string \<times> string) list" where
  "extract_meta d now title0 =
     (let m0 = [(''site_name'', ''''), (''title'', title0), (''description'', ''''), (''language'', ''''), (''created_at'', now)];
          m1 = set_trimmed ''description'' (content_of d ''name'' ''description'') m0;
          m2 = (if map_of m1 ''description'' = Some ''''
                then set_trimmed ''description'' (content_of d ''property'' ''og:description'') m1 else m1);
          m3 = (case content_of d ''name'' ''robots'' of
                  None \<Rightarrow> m2 | Some v \<Rightarrow> AList.update ''robots'' (to_lower (trim_space v)) m2);
          m4 = set_trimmed ''site_name'' (content_of d ''property'' ''og:site_name'') m3;
          m5 = set_trimmed ''language'' (doc_attr d ''html'' ''lang'') m4
      in if title0 = '''' then
           (case content_of d ''property'' ''og:title'' of
              None \<Rightarrow> (title0, m5)
            | Some v \<Rightarrow> (trim_space v, AList.update ''title'' (trim_space v) m5))
         else (title0, m5))"

definition extract_page :: "libs \<Rightarrow> string \<Rightarrow> string \<Rightarrow> string \<Rightarrow> extracted res" where
  "extract_page lib now rawURL body =
     (case html_parse lib body of
        Inl err \<Rightarrow> Inl err
      | Inr d \<Rightarrow>
          (case extract_meta d now (trim_space (doc_title d)) of (title, meta) \<Rightarrow>
             Ok \<lparr>x_url = rawURL, x_title = title,
                 x_text = trim_space (join_with '' '' (fields (doc_body_text d))),
                 x_html = trim_space (doc_body_html d), x_meta = meta,
                 x_links = extract_links (doc_anchors d)\<rparr>))"

section \<open>Formats\<close>

definition newline :: string where "newline = [CHR 10]"

definition markdown_from_extract :: "libs \<Rightarrow> extracted \<Rightarrow> string res" where
  "markdown_from_extract lib x =
     (case html_to_md lib (x_html x) of
        Inl err \<Rightarrow> Inl err
      | Inr md0 \<Rightarrow>
          (let mdText = trim_space md0
           in if x_title x \<noteq> '''' \<and> \<not> contains mdText (x_title x)
              then Ok (''# '' @ x_title x @ newline @ newline @ mdText) else Ok mdText))"

definition format_content :: "libs \<Rightarrow> extracted \<Rightarrow> string \<Rightarrow> string res" where
  "format_content lib x fmt =
     (let f = to_lower fmt
      in if f = FormatMarkdown then markdown_from_extract lib x
         else if f = FormatHTML then Ok (x_html x)
         else if f = FormatText then
           (case markdown_from_extract lib x of
              Inl err \<Rightarrow> Inl err
            | Inr mdText \<Rightarrow> Ok (trim_space (strip_md lib mdText)))
         else Fail (''unsupported format: '' @ fmt))"

text \<open>\<open>renderOutputs\<close> of the scrape handler.\<close>

fun render_outputs_loop :: "libs \<Rightarrow> extracted \<Rightarrow> string list \<Rightarrow> (string \<times> string) list \<Rightarrow> (string \<times> string) list res" where
  "render_outputs_loop lib x [] out = Ok out"
| "render_outputs_loop lib x (f # fs) out =
     (if f \<in> fst ` set out then render_outputs_loop lib x fs out
      else case format_content lib x f of
             Inl err \<Rightarrow> Inl err
           | Inr content \<Rightarrow> render_outputs_loop lib x fs (AList.update f content out))"

definition render_outputs :: "libs \<Rightarrow> extracted \<Rightarrow> string list \<Rightarrow> (string \<times> string) list res" where
  "render_outputs lib x formats = render_outputs_loop lib x formats []"

section \<open>Ordering the outputs of a response\<close>

record document_output =
  out_format :: string
  out_content :: string

definition default_output_format :: string where
  "default_output_format = FormatMarkdown"

fun preferred_loop :: "string list \<Rightarrow> string list \<Rightarrow> string list \<Rightarrow> string list" where
  "preferred_loop seen out [] = out"
| "preferred_loop seen out (f # fs) =
     (let f' = to_lower f
      in if f' = '''' then preferred_loop seen out fs
         else if f' \<in> set seen then preferred_loop seen out fs
         else preferred_loop (f' # seen) (out @ [f']) fs)"

definition ensure_preferred :: "string list \<Rightarrow> string list" where
  "ensure_preferred preferred =
     (if length preferred = 0 then [default_output_format]
      else let out = preferred_loop [] [] preferred
           in if length out = 0 then [default_output_format] else out)"

fun add_outputs :: "(string \<times> string) list \<Rightarrow> string list \<Rightarrow> string list \<Rightarrow> document_output list \<Rightarrow>
    string list \<times> document_output list" where
  "add_outputs outputs [] seen result = (seen, result)"
| "add_outputs outputs (f # fs) seen result =
     (let f' = to_lower f
      in if f' \<in> set seen then add_outputs outputs fs seen result
         else case map_of outputs f' of
                None \<Rightarrow> add_outputs outputs fs seen result
              | Some content \<Rightarrow>
                  add_outputs outputs fs (f' # seen) (result @ [\<lparr>out_format = f', out_content = content\<rparr>]))"

definition ordered_outputs :: "(string list \<Rightarrow> string list) \<Rightarrow> (string \<times> string) list \<Rightarrow> string list \<Rightarrow> document_output list" where
  "ordered_outputs iter outputs preferred =
     (case add_outputs outputs (ensure_preferred preferred) [] [] of (seen, result) \<Rightarrow>
        snd (add_outputs outputs (iter (map fst outputs)) seen result))"

definition fallback_outputs :: "string list \<Rightarrow> string \<Rightarrow> document_output list" where
  "fallback_outputs preferred content =
     [\<lparr>out_format = hd (ensure_preferred preferred), out_content = content\<rparr>]"

section \<open>Stored metadata\<close>

definition OutputsMetaKey :: string where "OutputsMetaKey = ''outputs''"

text \<open>Decoding a JSON object into a Go map: a repeated key overwrites.\<close>

definition json_fields :: "(string \<times> json) list \<Rightarrow> (string \<times> json) list" where
  "json_fields kvs = fold (\<lambda>(k, v). AList.update k v) kvs []"

definition marshal_any_map :: "(string \<times> json) list \<Rightarrow> json" where
  "marshal_any_map m = JObj (sort_key fst m)"

definition marshal_string_map :: "(string \<times> string) list \<Rightarrow> json" where
  "marshal_string_map m = JObj (map (\<lambda>(k, v). (k, JStr v)) (sort_key fst m))"

text \<open>The output map read back from the metadata, for the dynamic type of the JSON value.\<close>

fun json_string :: "json \<Rightarrow> string" where
  "json_string (JStr s) = s"
| "json_string _ = ''''"

definition item_field :: "(string \<times> json) list \<Rightarrow> string \<Rightarrow> string" where
  "item_field m k = (case map_of m k of None \<Rightarrow> '''' | Some v \<Rightarrow> json_string v)"

fun output_items :: "json list \<Rightarrow> (string \<times> string) list \<Rightarrow> (string \<times> string) list" where
  "output_items [] om = om"
| "output_items (JObj kvs # items) om =
     (let m = json_fields kvs; fmtv = item_field m ''format''; content = item_field m ''content''
      in if fmtv = '''' \<or> content = '''' then output_items items om
         else output_items items (AList.update (to_lower fmtv) content om))"
| "output_items (_ # items) om = output_items items om"

fun output_fields :: "(string \<times> json) list \<Rightarrow> string list \<Rightarrow> (string \<times> string) list \<Rightarrow> (string \<times> string) list" where
  "output_fields m [] om = om"
| "output_fields m (k # ks) om =
     (case map_of m k of
        Some (JStr content) \<Rightarrow> output_fields m ks (AList.update (to_lower k) content om)
      | _ \<Rightarrow> output_fields m ks om)"

fun output_map :: "(string list \<Rightarrow> string list) \<Rightarrow> json \<Rightarrow> (string \<times> string) list" where
  "output_map iter (JObj kvs) = (let m = json_fields kvs in output_fields m (iter (map fst m)) [])"
| "output_map iter (JArr items) = output_items items []"
| "output_map iter _ = []"

definition extract_outputs ::
    "(string list \<Rightarrow> string list) \<Rightarrow> (string \<times> json) list \<Rightarrow> string list \<Rightarrow> string \<Rightarrow>
     document_output list \<times> (string \<times> json) list" where
  "extract_outputs iter meta preferred fallback =
     (case map_of meta OutputsMetaKey of
        None \<Rightarrow> (fallback_outputs preferred fallback, meta)
      | Some raw \<Rightarrow>
          (let meta' = AList.delete OutputsMetaKey meta;
               ordered = ordered_outputs iter (output_map iter raw) preferred
           in if length ordered = 0 then (fallback_outputs preferred fallback, meta') else (ordered, meta')))"

text \<open>
  Stored metadata is always a JSON object (\<open>storeDocument\<close> writes nothing else); any other value
  leaves the map as it was made.  \<open>rfc3339\<close> prints a time as \<open>Format(time.RFC3339)\<close> does in the process's zone.\<close>

definition build_meta ::
    "(time \<Rightarrow> string) \<Rightarrow> json \<Rightarrow> job \<Rightarrow> string \<Rightarrow> string \<Rightarrow> (string \<times> json) list" where
  "build_meta rfc3339 raw j requestedURL finalURL =
     (let m0 = (case raw of JObj kvs \<Rightarrow> json_fields kvs | _ \<Rightarrow> []);
          m1 = AList.update ''requested_url'' (JStr requestedURL) m0;
          m2 = AList.update ''final_url'' (JStr finalURL) m1
      in case j_expires_at j of
           None \<Rightarrow> m2
         | Some t \<Rightarrow> AList.update ''expires_at'' (JStr (rfc3339 t)) m2)"

definition formats_from_job :: "job \<Rightarrow> string list" where
  "formats_from_job j =
     (case j_params j of
        JObj kvs \<Rightarrow>
          (case map_of (json_fields kvs) ''output_format'' of
             Some raw \<Rightarrow> formats_from_any raw default_output_format
           | None \<Rightarrow> [default_output_format])
      | _ \<Rightarrow> [default_output_format])"

record document_response =
  resp_id :: int
  resp_job :: string
  resp_outputs :: "document_output list"
  resp_meta :: "(string \<times> json) list"

definition document_from_row ::
    "(time \<Rightarrow> string) \<Rightarrow> (string list \<Rightarrow> string list) \<Rightarrow> document_row \<Rightarrow> job \<Rightarrow> string list \<Rightarrow> document_response" where
  "document_from_row rfc3339 iter r j preferred =
     (case extract_outputs iter (build_meta rfc3339 (d_meta r) j (d_requested_url r) (d_final_url r)) preferred (d_content_md r)
      of (outputs, cleaned) \<Rightarrow>
        \<lparr>resp_id = d_id r, resp_job = d_job r, resp_outputs = outputs, resp_meta = cleaned\<rparr>)"

section \<open>Outputs in order\<close>

definition output_of :: "(string \<times> string) list \<Rightarrow> string \<Rightarrow> document_output" where
  "output_of outputs f = \<lparr>out_format = f, out_content = the (map_of outputs f)\<rparr>"

lemma preferred_loop_eq: "preferred_loop seen out fs = out @ first_occ seen (filter (\<lambda>f. f \<noteq> '''') (map to_lower fs))"
  by (induction seen out fs rule: preferred_loop.induct) (auto simp: Let_def)

lemma add_outputs_eq:
  "snd (add_outputs outputs fs seen result) =
     result @ map (output_of outputs) (first_occ seen (filter (\<lambda>f. f \<in> fst ` set outputs) (map to_lower fs)))
   \<and> set (fst (add_outputs outputs fs seen result)) =
     set seen \<union> set (filter (\<lambda>f. f \<in> fst ` set outputs) (map to_lower fs))"
proof (induction outputs fs seen result rule: add_outputs.induct)
  case (1 outputs seen result)
  then show ?case by simp
next
  case (2 outputs f fs seen result)
  let ?f = "to_lower f"
  show ?case
  proof (cases "?f \<in> set seen")
    case True
    then show ?thesis using 2(1) [OF refl True] by (auto simp: Let_def)
  next
    case False
    show ?thesis
    proof (cases "map_of outputs ?f")
      case None
      then have "?f \<notin> fst ` set outputs" by (simp add: map_of_eq_None_iff)
      then show ?thesis using 2(2) [OF refl False None] False None by (simp add: Let_def)
    next
      case (Some c)
      then have "?f \<in> fst ` set outputs" by (metis domI dom_map_of_conv_image_fst)
      then show ?thesis using 2(3) [OF refl False Some] False Some by (simp add: Let_def output_of_def)
    qed
  qed
qed

lemma ordered_outputs_eq:
  "ordered_outputs iter outputs preferred =
     map (output_of outputs) (first_occ [] (filter (\<lambda>f. f \<in> fst ` set outputs)
       (map to_lower (ensure_preferred preferred @ iter (map fst outputs)))))"
proof -
  let ?P = "\<lambda>f. f \<in> fst ` set outputs"
  obtain seen result where a: "add_outputs outputs (ensure_preferred preferred) [] [] = (seen, result)"
    by (cases "add_outputs outputs (ensure_preferred preferred) [] []")
  have r: "result = map (output_of outputs) (first_occ [] (filter ?P (map to_lower (ensure_preferred preferred))))"
    and s: "set seen = set (filter ?P (map to_lower (ensure_preferred preferred)))"
    using add_outputs_eq [of outputs "ensure_preferred preferred" "[]" "[]"] by (simp_all add: a)
  have "first_occ seen us = first_occ (filter ?P (map to_lower (ensure_preferred preferred)) @ []) us" for us
    by (rule first_occ_cong) (simp add: s)
  then show ?thesis
    using add_outputs_eq [of outputs "iter (map fst outputs)" seen result]
    by (simp add: ordered_outputs_def a r first_occ_append)
qed

text \<open>The outputs of a response are, for any order in which Go may iterate over the output map, the preferred
  formats that have an output, in the order asked for, followed by the other formats; each format
  once, with its content.\<close>

theorem ordered_outputs_spec:
  "ordered_outputs iter outputs preferred =
     map (output_of outputs) (first_occ [] (filter (\<lambda>f. f \<in> fst ` set outputs)
       (map to_lower (ensure_preferred preferred @ iter (map fst outputs)))))"
  by (rule ordered_outputs_eq)

text \<open>Formats as \<open>Values\<close> yields them: lower case, not empty, each once.\<close>

definition clean_formats :: "string list \<Rightarrow> bool" where
  "clean_formats fs \<longleftrightarrow> fs \<noteq> [] \<and> distinct fs \<and> (\<forall>f \<in> set fs. f \<noteq> '''' \<and> to_lower f = f)"

lemma ensure_preferred_clean: "clean_formats fs \<Longrightarrow> ensure_preferred fs = fs"
proof -
  assume c: "clean_formats fs"
  then have "map to_lower fs = fs" by (simp add: clean_formats_def map_idI)
  moreover have "filter (\<lambda>f. f \<noteq> '''') fs = fs" using c by (simp add: clean_formats_def filter_id_conv)
  ultimately show ?thesis using c by (simp add: ensure_preferred_def preferred_loop_eq Let_def clean_formats_def first_occ_id)
qed

lemma ordered_outputs_clean:
  assumes "clean_formats fs" and "set (map fst outputs) = set fs" and "set (iter (map fst outputs)) \<subseteq> set fs"
  shows "ordered_outputs iter outputs fs = map (output_of outputs) fs"
proof -
  have low: "map to_lower fs = fs" using assms(1) by (simp add: clean_formats_def map_idI)
  let ?P = "\<lambda>f. f \<in> fst ` set outputs"
  have "filter ?P fs = fs" using assms(2) by (auto simp: filter_id_conv)
  moreover have "first_occ (fs @ []) (filter ?P (map to_lower (iter (map fst outputs)))) = []"
  proof -
    have "set (map to_lower (iter (map fst outputs))) \<subseteq> set fs"
      using assms(1,3) by (auto simp: clean_formats_def)
    then have "set (first_occ (fs @ []) (filter ?P (map to_lower (iter (map fst outputs))))) = {}" by auto
    then show ?thesis by (simp only: set_empty)
  qed
  moreover have "first_occ [] fs = fs" using assms(1) by (simp add: clean_formats_def first_occ_id)
  ultimately show ?thesis
    using low by (simp add: ordered_outputs_eq ensure_preferred_clean [OF assms(1)] first_occ_append)
qed

end
