(* ===== verification/Fetching.thy ===== *)
theory Fetching
  imports GoURL Config
begin

text \<open>
  \<open>internal/fetch/fetcher.go\<close>: one fetch over the redirect loop of \<open>net/http\<close> with the code's
  \<open>CheckRedirect\<close> and the body limit.  The answer of the network to a GET of a URL is the argument
  \<open>serve\<close>, the browser is the argument \<open>render\<close>.
\<close>

record http_response =
  hr_status :: int
  hr_location :: string
  hr_body :: string

record fetch_result =
  fr_body :: string
  fr_final_url :: string

record fetcher =
  f_max_redirects :: int
  f_max_bytes :: int
  f_has_renderer :: bool
  f_browser_enabled :: bool

definition new_fetcher :: "http_config \<Rightarrow> bool \<Rightarrow> browser_config \<Rightarrow> fetcher" where
  "new_fetcher hc has_renderer bc =
     \<lparr>f_max_redirects = hc_max_redirects hc, f_max_bytes = hc_max_body_bytes hc,
      f_has_renderer = has_renderer, f_browser_enabled = bc_enabled bc\<rparr>"

text \<open>The \<open>CheckRedirect\<close> of the client: whether it stops at the response it has.\<close>

definition use_last_response :: "int \<Rightarrow> nat \<Rightarrow> bool" where
  "use_last_response maxRedirects via \<longleftrightarrow> int via \<ge> maxRedirects"

text \<open>
  The loop of \<open>Client.do\<close> for a GET: \<open>via\<close> counts the requests already sent.  The result holds the
  last response, the URL it was requested under and the number of requests.  A redirect status
  without a location ends the loop.
\<close>

definition is_redirect :: "http_response \<Rightarrow> bool" where
  "is_redirect resp \<longleftrightarrow> hr_status resp \<in> {301, 302, 303, 307, 308} \<and> hr_location resp \<noteq> ''''"

function follow ::
    "(string \<Rightarrow> http_response res) \<Rightarrow> int \<Rightarrow> nat \<Rightarrow> url \<Rightarrow> (http_response \<times> url \<times> nat) res" where
  "follow serve maxRedirects via u =
     (case serve (url_string u) of
        Inl err \<Rightarrow> Inl err
      | Inr resp \<Rightarrow>
          if \<not> is_redirect resp then Ok (resp, u, Suc via)
          else (case url_parse (hr_location resp) of
                  Inl err \<Rightarrow> Inl err
                | Inr ref \<Rightarrow>
                    if use_last_response maxRedirects (Suc via) then Ok (resp, u, Suc via)
                    else follow serve maxRedirects (Suc via) (resolve_reference u ref)))"
  by pat_completeness auto

termination
  by (relation "measure (\<lambda>(serve, m, via, u). nat (m - int via))") (auto simp: use_last_response_def)

declare follow.simps [simp del]

text \<open>\<open>NewRequest\<close> drops an empty port.\<close>

definition request_url :: "string \<Rightarrow> url res" where
  "request_url raw =
     (case url_parse raw of
        Inl err \<Rightarrow> Inl err
      | Inr u \<Rightarrow> Ok (u\<lparr>u_host := trim_suffix (u_host u) '':''\<rparr>))"

definition fetch_url ::
    "fetcher \<Rightarrow> (string \<Rightarrow> fetch_result res) \<Rightarrow> (string \<Rightarrow> http_response res) \<Rightarrow> string \<Rightarrow> bool \<Rightarrow>
     fetch_result res" where
  "fetch_url f render serve rawURL useJS =
     (if useJS \<and> f_has_renderer f \<and> f_browser_enabled f then render rawURL
      else case request_url rawURL of
        Inl err \<Rightarrow> Inl err
      | Inr u \<Rightarrow>
          (case follow serve (f_max_redirects f) 0 u of
             Inl err \<Rightarrow> Inl err
           | Inr (resp, final, n) \<Rightarrow>
               Ok \<lparr>fr_body = take (nat (f_max_bytes f)) (hr_body resp), fr_final_url = url_string final\<rparr>))"

section \<open>Bounds\<close>

lemma follow_requests:
  "follow serve m via u = Ok (resp, u', n) \<Longrightarrow> via < n \<and> int n \<le> max (int (Suc via)) m"
proof (induction serve m via u rule: follow.induct)
  case (1 serve m via u)
  show ?case
  proof (cases "serve (url_string u)")
    case (Inl err)
    then show ?thesis using "1.prems" by (simp add: follow.simps)
  next
    case (Inr r)
    show ?thesis
    proof (cases "\<not> is_redirect r")
      case True
      then show ?thesis using "1.prems" Inr by (subst (asm) follow.simps) auto
    next
      case red: False
      show ?thesis
      proof (cases "url_parse (hr_location r)")
        case (Inl err)
        then show ?thesis using "1.prems" Inr red by (subst (asm) follow.simps) auto
      next
        case loc: (Inr ref)
        show ?thesis
        proof (cases "use_last_response m (Suc via)")
          case True
          then show ?thesis using "1.prems" Inr red loc by (subst (asm) follow.simps) auto
        next
          case False
          then have "follow serve m (Suc via) (resolve_reference u ref) = Ok (resp, u', n)"
            using "1.prems" Inr red loc by (subst (asm) follow.simps) simp
          then have "Suc via < n \<and> int n \<le> max (int (Suc (Suc via))) m"
            by (rule "1.IH" [OF Inr red loc False])
          then show ?thesis using False by (auto simp: use_last_response_def)
        qed
      qed
    qed
  qed
qed


text \<open>Two servers: \<open>/a\<close> redirects to \<open>/b\<close>, and \<open>/b\<close> to itself.\<close>

definition demo_serve :: "string \<Rightarrow> http_response res" where
  "demo_serve url = (if url = ''http://h/a'' then Ok \<lparr>hr_status = 302, hr_location = ''/b'', hr_body = ''moved''\<rparr>
     else Ok \<lparr>hr_status = 302, hr_location = ''/b'', hr_body = ''again and again''\<rparr>)"

definition demo_fetcher :: "int \<Rightarrow> fetcher" where
  "demo_fetcher m = \<lparr>f_max_redirects = m, f_max_bytes = 5, f_has_renderer = False, f_browser_enabled = True\<rparr>"


text \<open>At the redirect limit a fetch does not fail: it returns the redirect response itself as the page.  With
  \<open>max_redirects\<close> one not even the first redirect is followed.\<close>

theorem redirect_limit_returns_redirect:
  "fetch_url (demo_fetcher 1) (\<lambda>_. Fail '''') demo_serve ''http://h/a'' False =
     Ok \<lparr>fr_body = ''moved'', fr_final_url = ''http://h/a''\<rparr>"
  by code_simp

end
