(* ===== verification/GoNumbers.thy ===== *)
theory GoNumbers
  imports GoURL
begin

text \<open>
  Decimal numbers in strings: what the code uses of \<open>strconv\<close> and \<open>fmt\<close>, with the round trip between
  printing and reading.
\<close>

text \<open>\<open>strconv.ParseInt\<close> and \<open>Atoi\<close> in base ten: an optional sign, digits, and a value of 64 bits.\<close>

definition digit_value :: "char \<Rightarrow> nat" where
  "digit_value c = code_of c - 48"

fun digits_value :: "nat \<Rightarrow> string \<Rightarrow> nat option" where
  "digits_value n [] = Some n"
| "digits_value n (c # cs) = (if is_digit c then digits_value (10 * n + digit_value c) cs else None)"

definition unsigned_part :: "string \<Rightarrow> string" where
  "unsigned_part s = (case s of c # cs \<Rightarrow> if c = CHR ''-'' \<or> c = CHR ''+'' then cs else s | [] \<Rightarrow> [])"

definition parse_int :: "string \<Rightarrow> int option" where
  "parse_int s =
     (if unsigned_part s = '''' then None
      else case digits_value 0 (unsigned_part s) of
        None \<Rightarrow> None
      | Some n \<Rightarrow>
          (let v = (if hd s = CHR ''-'' then - int n else int n)
           in if - (2 ^ 63) \<le> v \<and> v < 2 ^ 63 then Some v else None))"

text \<open>\<open>fmt.Sprintf("%d", n)\<close>.\<close>

definition digit_char :: "nat \<Rightarrow> char" where
  "digit_char d = char_of (d + 48)"

fun nat_text :: "nat \<Rightarrow> string" where
  "nat_text n = (if n < 10 then [digit_char n] else nat_text (n div 10) @ [digit_char (n mod 10)])"

declare nat_text.simps [simp del]

definition int_text :: "int \<Rightarrow> string" where
  "int_text n = (if n < 0 then CHR ''-'' # nat_text (nat (- n)) else nat_text (nat n))"

section \<open>Reading what was printed\<close>

lemma digit_char: "d < 10 \<Longrightarrow> is_digit (digit_char d) \<and> digit_value (digit_char d) = d"
proof -
  assume "d < 10"
  then show ?thesis by (simp add: digit_char_def is_digit_def digit_value_def code_of_def of_char_of)
qed

lemma digits_value_append:
  "digits_value n (xs @ ys) = (case digits_value n xs of None \<Rightarrow> None | Some k \<Rightarrow> digits_value k ys)"
  by (induction n xs rule: digits_value.induct) auto

lemma digits_value_nat_text: "digits_value 0 (nat_text n) = Some n"
proof (induction n rule: nat_text.induct)
  case (1 n)
  show ?case
  proof (cases "n < 10")
    case True
    then show ?thesis using digit_char [of n] by (simp add: nat_text.simps [of n])
  next
    case False
    then show ?thesis using 1 digit_char [of "n mod 10"] by (simp add: nat_text.simps [of n] digits_value_append)
  qed
qed

lemma nat_text_head: "nat_text n \<noteq> [] \<and> is_digit (hd (nat_text n))"
proof (induction n rule: nat_text.induct)
  case (1 n)
  then show ?case using digit_char [of n] by (cases "n < 10") (simp_all add: nat_text.simps [of n])
qed

lemma not_digit_sign: "\<not> is_digit CHR ''-''" "\<not> is_digit CHR ''+''"
  by code_simp+

lemma parse_int_text: "0 \<le> n \<Longrightarrow> n < 2 ^ 63 \<Longrightarrow> parse_int (int_text n) = Some n"
proof -
  assume n: "0 \<le> n" "n < 2 ^ 63"
  let ?t = "nat_text (nat n)"
  obtain c cs where t: "?t = c # cs" and c: "is_digit c" using nat_text_head [of "nat n"] by (cases ?t) auto
  have u: "unsigned_part ?t = ?t" using c by (auto simp: unsigned_part_def t not_digit_sign)
  have "hd ?t \<noteq> CHR ''-''" using c by (auto simp: t not_digit_sign)
  then have "parse_int ?t = Some n"
    using n digits_value_nat_text [of "nat n"] by (simp add: parse_int_def u Let_def t [symmetric]) (simp add: t)
  then show ?thesis using n by (simp add: int_text_def)
qed

lemma int_text_ne: "0 \<le> n \<Longrightarrow> int_text n \<noteq> []"
  using nat_text_head by (simp add: int_text_def)

lemma parse_int_range: "parse_int s = Some n \<Longrightarrow> n < 2 ^ 63"
  unfolding parse_int_def Let_def by (simp split: option.splits if_split_asm)

end
