(* ===== verification/Routes.thy ===== *)
theory Routes
  imports Jobs Listing Content Fetching GoNumbers
begin

text \<open>
  The handlers of \<open>internal/server/routes.go\<close> with the replies of \<open>errors.go\<close>.  A handler is a function
  of what fiber hands it (the parsed body or the parse error, the query parameters) and of the tables; its
  reply is the status, the cursor header and the body as typed values, before they are printed as JSON.
  The fetcher of the scrape handler is an argument (\<open>contentFetcher\<close> in \<open>deps.go\<close>).

  The lemmas show which reply every branch gives and what it leaves in the tables, that the cursor of a page
  can be sent back unchanged, and that a client that follows the cursors reads what the export writes.
\<close>

section \<open>Replies\<close>

record job_view =
  jv_id :: string
  jv_status :: job_status
  jv_type :: string
  jv_expires_at :: "time option"
  jv_deadline :: "time option"
  jv_created_at :: time
  jv_error :: string
  jv_stats :: job_stats

datatype export_line =
    DocumentLine document_response
  | MapLine mapped_row
  | CursorLine int string string     \<comment> \<open>\<open>next_cursor\<close>, \<open>sort\<close>, \<open>sort_by\<close>\<close>

datatype reply_body =
    Message string                   \<comment> \<open>\<open>apiError\<close>\<close>
  | ScrapeBody "document_output list" "(string \<times> string) list"
  | JobCreated string
  | Conflict string                  \<comment> \<open>\<open>job_id\<close> is empty\<close>
  | JobBody job_view
  | DocumentsBody "document_response list" int
  | MapBody "mapped_row list" int "string list"
  | Lines "export_line list"

record reply =
  rp_status :: int
  rp_cursor :: "string option"       \<comment> \<open>the \<open>X-Next-Cursor\<close> header\<close>
  rp_body :: reply_body

definition ok_reply :: "reply_body \<Rightarrow> reply" where
  "ok_reply b = \<lparr>rp_status = 200, rp_cursor = None, rp_body = b\<rparr>"

definition bad_request :: "string \<Rightarrow> reply" where
  "bad_request msg = \<lparr>rp_status = 400, rp_cursor = None, rp_body = Message msg\<rparr>"

definition not_found :: "string \<Rightarrow> reply" where
  "not_found msg = \<lparr>rp_status = 404, rp_cursor = None, rp_body = Message msg\<rparr>"

definition internal_error :: "string \<Rightarrow> reply" where
  "internal_error msg = \<lparr>rp_status = 500, rp_cursor = None, rp_body = Message msg\<rparr>"

section \<open>Query parameters\<close>

text \<open>\<open>c.Query(key, default)\<close>: an empty value counts as absent.\<close>

type_synonym query = "(string \<times> string) list"

definition query_value :: "query \<Rightarrow> string \<Rightarrow> string \<Rightarrow> string" where
  "query_value q key dflt = (case map_of q key of None \<Rightarrow> dflt | Some v \<Rightarrow> if v = '''' then dflt else v)"

text \<open>\<open>c.QueryBool(key, false)\<close> over \<open>strconv.ParseBool\<close>.\<close>

definition query_bool :: "query \<Rightarrow> string \<Rightarrow> bool" where
  "query_bool q key \<longleftrightarrow> query_value q key '''' \<in> set [''1'', ''t'', ''T'', ''true'', ''TRUE'', ''True'']"

definition parse_pagination :: "query \<Rightarrow> int \<times> int \<times> int" where
  "parse_pagination q =
     ((case parse_int (query_value q ''limit'' '''') of
         Some n \<Rightarrow> if n > 0 \<and> n \<le> 500 then n else 50 | None \<Rightarrow> 50),
      (case parse_int (query_value q ''offset'' '''') of
         Some n \<Rightarrow> if n \<ge> 0 then n else 0 | None \<Rightarrow> 0),
      (case parse_int (query_value q ''after'' '''') of
         Some n \<Rightarrow> if n \<ge> 0 then n else 0 | None \<Rightarrow> 0))"

section \<open>Creating work\<close>

text \<open>The body as \<open>BodyParser\<close> leaves it, or its error.\<close>

definition scrape_handler ::
    "(string \<Rightarrow> bool \<Rightarrow> fetch_result res) \<Rightarrow> libs \<Rightarrow> string \<Rightarrow> (string list \<Rightarrow> string list) \<Rightarrow>
     scrape_request res \<Rightarrow> reply" where
  "scrape_handler fetch lib now iter parsed =
     (case parsed of
        Inl _ \<Rightarrow> bad_request ''invalid request''
      | Inr req \<Rightarrow>
          (case validate_scrape_request req of
             Inl err \<Rightarrow> bad_request (error_text err)
           | Inr _ \<Rightarrow>
               (case fetch (sr_url req) (sr_use_js req) of
                  Inl err \<Rightarrow> bad_request (error_text err)
                | Inr fr \<Rightarrow>
                    (case extract_page lib now (fr_final_url fr) (fr_body fr) of
                       Inl err \<Rightarrow> internal_error (error_text err)
                     | Inr x \<Rightarrow>
                         (let formats = formats_values (sr_formats req) ''markdown''
                          in case render_outputs lib x formats of
                               Inl err \<Rightarrow> bad_request (error_text err)
                             | Inr outputs \<Rightarrow>
                                 ok_reply (ScrapeBody (ordered_outputs iter outputs formats) (x_meta x)))))))"

definition created_reply :: "string \<Rightarrow> string res \<Rightarrow> reply" where
  "created_reply conflict r =
     (case r of
        Inl err \<Rightarrow> (if err = ErrSeedAlreadyProcessed
                    then \<lparr>rp_status = 409, rp_cursor = None, rp_body = Conflict conflict\<rparr>
                    else internal_error (error_text err))
      | Inr jobID \<Rightarrow> ok_reply (JobCreated jobID))"

definition batch_handler :: "env \<Rightarrow> config \<Rightarrow> batch_request res \<Rightarrow> db \<Rightarrow> reply \<times> db" where
  "batch_handler e cfg parsed s =
     (case parsed of
        Inl _ \<Rightarrow> (bad_request ''invalid request'', s)
      | Inr req \<Rightarrow>
          (case validate_batch_request req of
             Inl err \<Rightarrow> (bad_request (error_text err), s)
           | Inr _ \<Rightarrow>
               (case create_job_with_seeds e cfg ''batch_scrape'' (marshal_batch req)
                  (map (\<lambda>u. \<lparr>seed_requested_url = u, seed_depth = 0, seed_abort_if_duplicate = False\<rparr>) (br_urls req)) s of
                  (r, s') \<Rightarrow> (created_reply (error_text ErrSeedAlreadyProcessed) r, s'))))"

definition crawl_handler :: "env \<Rightarrow> config \<Rightarrow> crawl_request res \<Rightarrow> db \<Rightarrow> reply \<times> db" where
  "crawl_handler e cfg parsed s =
     (case parsed of
        Inl _ \<Rightarrow> (bad_request ''invalid request'', s)
      | Inr req \<Rightarrow>
          (case validate_crawl_request req of
             Inl err \<Rightarrow> (bad_request (error_text err), s)
           | Inr _ \<Rightarrow>
               (case create_job_with_seeds e cfg ''crawl'' (marshal_crawl req)
                  [\<lparr>seed_requested_url = cr_url req, seed_depth = 0,
                    seed_abort_if_duplicate = cc_dedupe_cache (c_crawl cfg)\<rparr>] s of
                  (r, s') \<Rightarrow> (created_reply ''seed URL already processed'' r, s'))))"

definition map_handler :: "env \<Rightarrow> config \<Rightarrow> map_request res \<Rightarrow> db \<Rightarrow> reply \<times> db" where
  "map_handler e cfg parsed s =
     (case parsed of
        Inl _ \<Rightarrow> (bad_request ''invalid request'', s)
      | Inr req \<Rightarrow>
          (case validate_map_request req of
             Inl err \<Rightarrow> (bad_request (error_text err), s)
           | Inr _ \<Rightarrow>
               (case create_job_with_seeds e cfg ''map'' (marshal_map req)
                  [\<lparr>seed_requested_url = mr_url req, seed_depth = 0,
                    seed_abort_if_duplicate = cc_dedupe_cache (c_crawl cfg)\<rparr>] s of
                  (r, s') \<Rightarrow> (created_reply ''seed URL already processed'' r, s'))))"

section \<open>Reading results\<close>

definition job_handler :: "env \<Rightarrow> string \<Rightarrow> db \<Rightarrow> reply \<times> db" where
  "job_handler e jobID s =
     (case get_job e jobID s of
        (Inl _, s1) \<Rightarrow> (not_found ''job not found'', s1)
      | (Inr j, s1) \<Rightarrow>
          (case get_job_stats e jobID s1 of
             (Inl err, s2) \<Rightarrow> (internal_error (error_text err), s2)
           | (Inr stats, s2) \<Rightarrow>
               (ok_reply (JobBody \<lparr>jv_id = j_id j, jv_status = j_status j, jv_type = j_type j,
                  jv_expires_at = j_expires_at j, jv_deadline = j_deadline j, jv_created_at = j_created_at j,
                  jv_error = (case j_error j of None \<Rightarrow> '''' | Some msg \<Rightarrow> msg), jv_stats = stats\<rparr>), s2)))"

text \<open>\<open>rfc3339\<close> and \<open>iter\<close> are the arguments of \<open>document_from_row\<close>.\<close>

definition documents_handler ::
    "(time \<Rightarrow> string) \<Rightarrow> (string list \<Rightarrow> string list) \<Rightarrow> env \<Rightarrow> string \<Rightarrow> query \<Rightarrow> db \<Rightarrow> reply \<times> db" where
  "documents_handler rfc3339 iter e jobID q s =
     (case get_job e jobID s of
        (Inl _, s1) \<Rightarrow> (not_found ''job not found'', s1)
      | (Inr j, s1) \<Rightarrow>
          (case parse_pagination q of (limit, _, after) \<Rightarrow>
           case documents_page e jobID limit (query_value q ''sort'' ''asc'') (query_value q ''sort_by'' ''id'') after s1 of
             (Inl err, s2) \<Rightarrow> (internal_error (error_text err), s2)
           | (Inr rows, s2) \<Rightarrow>
               (ok_reply (DocumentsBody (map (\<lambda>r. document_from_row rfc3339 iter r j (formats_from_job j)) rows)
                  (if rows = [] then 0 else d_id (last rows))), s2)))"

fun distinct_targets :: "string list \<Rightarrow> string list \<Rightarrow> mapped_row list \<Rightarrow> string list" where
  "distinct_targets seen links [] = links"
| "distinct_targets seen links (r # rows) =
     (if m_target_url r \<in> set seen then distinct_targets seen links rows
      else distinct_targets (m_target_url r # seen) (links @ [m_target_url r]) rows)"

definition map_list_handler :: "env \<Rightarrow> string \<Rightarrow> query \<Rightarrow> db \<Rightarrow> reply \<times> db" where
  "map_list_handler e jobID q s =
     (case parse_pagination q of (limit, _, after) \<Rightarrow>
      case mapped_page e jobID limit (query_value q ''sort'' ''asc'') (query_value q ''sort_by'' ''id'') after s of
        (Inl err, s1) \<Rightarrow> (internal_error (error_text err), s1)
      | (Inr rows, s1) \<Rightarrow>
          (ok_reply (MapBody rows (if rows = [] then 0 else m_id (last rows)) (distinct_targets [] [] rows)), s1))"

text \<open>
  \<open>fuel\<close> bounds the pages of an export, and \<open>None\<close> is an export that has not ended after so many.  An
  error in the middle replaces the lines written so far.
\<close>

definition export_reply :: "('r \<Rightarrow> export_line) \<Rightarrow> query \<Rightarrow> ('r list \<times> int) res \<Rightarrow> reply" where
  "export_reply line q r =
     (case r of
        Inl err \<Rightarrow> internal_error (error_text err)
      | Inr (rows, cursor) \<Rightarrow>
          \<lparr>rp_status = 200, rp_cursor = (if cursor > 0 then Some (int_text cursor) else None),
           rp_body = Lines (map line rows @ [CursorLine cursor (query_value q ''sort'' ''asc'') (query_value q ''sort_by'' ''id'')])\<rparr>)"

definition export_handler ::
    "nat \<Rightarrow> (time \<Rightarrow> string) \<Rightarrow> (string list \<Rightarrow> string list) \<Rightarrow> env \<Rightarrow> string \<Rightarrow> query \<Rightarrow> db \<Rightarrow> (reply \<times> db) option" where
  "export_handler fuel rfc3339 iter e jobID q s =
     (case parse_pagination q of (limit, _, after) \<Rightarrow>
      case get_job e jobID s of
        (Inl _, s1) \<Rightarrow> Some (not_found ''job not found'', s1)
      | (Inr j, s1) \<Rightarrow>
          (let typ = query_value q ''type'' ''documents''; sortDir = query_value q ''sort'' ''asc'';
               orderBy = query_value q ''sort_by'' ''id''; all = query_bool q ''all'' in
           if typ = ''documents'' then
             map_option (map_prod (export_reply
                 (\<lambda>r. DocumentLine (document_from_row rfc3339 iter r j (formats_from_job j))) q) id)
               (export_documents fuel e jobID limit after sortDir orderBy all s1)
           else if typ = ''map'' then
             map_option (map_prod (export_reply MapLine q) id)
               (export_map fuel e jobID limit after sortDir orderBy all s1)
           else Some (bad_request ''invalid export type'', s1)))"

section \<open>Numbers in queries\<close>

lemma query_int: "0 \<le> n \<Longrightarrow> map_of q k = Some (int_text n) \<Longrightarrow> query_value q k '''' = int_text n"
  by (simp add: query_value_def)

text \<open>What the API prints as a cursor it reads back as the same cursor, and an offset likewise; a limit from 1
  to 500 is taken as it is, any other number gives the default page of 50 rows, also one above the documented
  maximum of 500.\<close>

theorem pagination_roundtrip:
  assumes "0 \<le> n" "n < 2 ^ 63" "0 \<le> k" "k < 2 ^ 63" "0 \<le> c" "c < 2 ^ 63"
  shows "parse_pagination [(''limit'', int_text n), (''offset'', int_text k), (''after'', int_text c)] =
    (if 1 \<le> n \<and> n \<le> 500 then n else 50, k, c)"
  using assms by (simp add: parse_pagination_def query_value_def parse_int_text int_text_ne)

theorem pagination_roundtrip_witness:
  "parse_pagination [(''limit'', int_text 501), (''offset'', int_text 0), (''after'', int_text 9223372036854775807)] =
    (50, 0, 9223372036854775807)"
  using pagination_roundtrip [of 501 0 9223372036854775807] by simp

lemma pagination_bounds:
  "parse_pagination q = (l, k, c) \<Longrightarrow> 1 \<le> l \<and> l \<le> 500 \<and> 0 \<le> k \<and> 0 \<le> c \<and> c < 2 ^ 63"
  using parse_int_range by (fastforce simp: parse_pagination_def split: option.splits if_splits)

section \<open>What the handlers create\<close>

lemma created_reply_status:
  "rp_status (created_reply m r) = 200 \<longleftrightarrow> is_ok r"
  "rp_status (created_reply m r) = 409 \<longleftrightarrow> r = Inl ErrSeedAlreadyProcessed"
  "rp_status (created_reply m r) \<in> {200, 409, 500}"
  by (auto simp: created_reply_def ok_reply_def internal_error_def is_ok_def split: sum.splits)

lemma created_reply_error:
  "create_job_with_seeds e cfg typ ps seeds s = (r, s') \<Longrightarrow> rp_status (created_reply m r) \<noteq> 200 \<Longrightarrow> same_tables s s'"
  using create_job_error by (cases r) (auto simp: created_reply_status)

lemma created_reply_Ok:
  "rp_status (created_reply m r) = 200 \<Longrightarrow> \<exists>jobID. r = Ok jobID \<and> rp_body (created_reply m r) = JobCreated jobID"
  by (cases r) (auto simp: created_reply_def ok_reply_def internal_error_def split: if_splits)

lemma bad_request_status [simp]: "rp_status (bad_request msg) = 400"
  by (simp add: bad_request_def)


definition demo_crawl_request :: "string \<Rightarrow> crawl_request" where
  "demo_crawl_request u = \<lparr>cr_url = u, cr_max_depth = 1, cr_same_domain = True, cr_formats = None,
     cr_use_js = False, cr_include_sitemaps = False\<rparr>"


text \<open>C16: A crawl request answered with 200 is valid, and has created exactly one queued job of type
  \<open>crawl\<close> that stores the request, with exactly one queued task: the canonical form of the request's URL at depth
  zero, which the dedupe cache (when it is on) did not know.  The reply carries the id of that job.\<close>

theorem accepted_crawl:
  assumes "db_inv s" and "crawl_handler e cfg (Ok req) s = (rp, s')" and "rp_status rp = 200"
  shows "validate_crawl_request req = Ok ()
    \<and> \<not> (cc_dedupe_cache (c_crawl cfg) \<and> seen_before (seed_final_url cfg (cr_url req)) s)
    \<and> (\<exists>j t. rp_body rp = JobCreated (j_id j) \<and> jobs s' = jobs s @ [j] \<and> tasks s' = tasks s @ [t]
        \<and> j_status j = JobStatusQueued \<and> j_type j = ''crawl'' \<and> j_params j = marshal_crawl req
        \<and> t_job t = j_id j \<and> t_final_url t = seed_final_url cfg (cr_url req) \<and> t_requested_url t = cr_url req
        \<and> t_depth t = 0 \<and> t_status t = TaskStatusQueued \<and> t_attempts t = 0)"
proof -
  let ?seed = "\<lparr>seed_requested_url = cr_url req, seed_depth = 0, seed_abort_if_duplicate = cc_dedupe_cache (c_crawl cfg)\<rparr>"
  obtain jobID where v: "validate_crawl_request req = Ok ()" and b: "rp_body rp = JobCreated jobID"
    and c: "create_job_with_seeds e cfg ''crawl'' (marshal_crawl req) [?seed] s = (Ok jobID, s')"
    using assms(2,3) by (auto simp: crawl_handler_def split: sum.splits prod.splits dest: created_reply_Ok)
  obtain j new where j: "jobs s' = jobs s @ [j]" "j_id j = jobID" "j_status j = JobStatusQueued" "j_type j = ''crawl''"
      "j_params j = marshal_crawl req" "tasks s' = tasks s @ new"
    and fu: "map t_final_url new = first_occ [] (map (\<lambda>x. seed_final_url cfg (seed_requested_url x))
         (filter (\<lambda>x. \<not> seed_skipped cfg s x) [?seed]))"
    and st: "\<forall>t \<in> set new. \<exists>x \<in> set [?seed]. stored_as jobID (seed_task cfg x) t"
    and ab: "\<forall>x \<in> set [?seed]. seed_abort_if_duplicate x \<longrightarrow> \<not> seed_skipped cfg s x"
    using create_job_Ok [OF assms(1) c] by blast
  have ns: "\<not> seed_skipped cfg s ?seed" using ab by (auto simp: seed_skipped_def)
  then obtain t where t: "new = [t]" "t_final_url t = seed_final_url cfg (cr_url req)" using fu by auto
  have "stored_as jobID (seed_task cfg ?seed) t" using st t by simp
  then have "t_job t = jobID" "t_requested_url t = cr_url req" "t_depth t = 0" "t_status t = TaskStatusQueued" "t_attempts t = 0"
    by (simp_all add: stored_as_def seed_task_def new_task_def)
  with v ns t j b show ?thesis by (auto simp: seed_skipped_def)
qed

theorem accepted_crawl_witness:
  "\<exists>s'. fst (crawl_handler demo_env demo_config (Ok (demo_crawl_request ''http://b.org'')) demo_cached) = ok_reply (JobCreated ''jjjjjjjjj'')
    \<and> snd (crawl_handler demo_env demo_config (Ok (demo_crawl_request ''http://b.org'')) demo_cached) = s'
    \<and> length (tasks s') = 3"
proof -
  let ?r = "crawl_handler demo_env demo_config (Ok (demo_crawl_request ''http://b.org'')) demo_cached"
  have r: "fst ?r = ok_reply (JobCreated ''jjjjjjjjj'')" by code_simp
  have s: "rp_status (fst ?r) = 200" using r by (simp add: ok_reply_def)
  obtain t where "tasks (snd ?r) = tasks demo_cached @ [t]"
    using accepted_crawl [OF demo_cached_inv prod.collapse [symmetric] s] by blast
  then have "length (tasks (snd ?r)) = 3" by (simp add: demo_cached_def demo_db_def)
  with r show ?thesis by blast
qed

text \<open>
  A failing database is answered like an unknown job: the reply to a status request for an existing job is 404
  when its query fails.
\<close>

lemma database_failure_reported_as_not_found:
  "db_fault e (tick s) = Some msg \<Longrightarrow> fst (job_handler e jobID s) = not_found ''job not found''"
  by (simp add: job_handler_def get_job_def exec_def Let_def)

section \<open>Following the cursors\<close>

text \<open>
  A client of the documents list: it asks for the page at a cursor and goes on with the \<open>next_cursor\<close> of the reply until
  that is zero.  \<open>None\<close> is a client that has not ended after \<open>fuel\<close> requests or got another reply.
\<close>

fun client_pages ::
    "nat \<Rightarrow> (int \<Rightarrow> db \<Rightarrow> reply \<times> db) \<Rightarrow> int \<Rightarrow> document_response list \<Rightarrow> db \<Rightarrow> (document_response list \<times> db) option" where
  "client_pages 0 ask cursor got s = None"
| "client_pages (Suc fuel) ask cursor got s =
     (case ask cursor s of (rp, s') \<Rightarrow>
        case rp_body rp of
          DocumentsBody items next_cursor \<Rightarrow>
            if next_cursor = 0 then Some (got @ items, s') else client_pages fuel ask next_cursor (got @ items) s'
        | _ \<Rightarrow> None)"

definition page_query :: "int \<Rightarrow> string \<Rightarrow> string \<Rightarrow> int \<Rightarrow> query" where
  "page_query limit sortDir orderBy cursor =
     [(''limit'', int_text limit), (''sort'', sortDir), (''sort_by'', orderBy), (''after'', int_text cursor)]"

definition job_docs :: "string \<Rightarrow> db \<Rightarrow> document_row list" where
  "job_docs jobID s = filter (\<lambda>r. d_job r = jobID) (documents s)"

text \<open>One request without failures.\<close>

lemma documents_handler_page:
  assumes "no_faults e" and "find (\<lambda>j. j_id j = jobID) (jobs s) = Some jb"
    and "1 \<le> limit" and "limit \<le> 500" and "sortDir \<noteq> ''''" and "orderBy \<noteq> ''''" and "0 \<le> c" and "c < 2 ^ 63"
    and "db_inv s"
  shows "\<exists>s'. documents_handler rfc3339 iter e jobID (page_query limit sortDir orderBy c) s =
      (let rows = take (nat limit) (order_rows (document_column e (document_order_column orderBy)) d_id (order_dir sortDir)
          (filter (\<lambda>r. rest (order_dir sortDir) c (d_id r)) (job_docs jobID s)))
       in ok_reply (DocumentsBody (map (\<lambda>r. document_from_row rfc3339 iter r jb (formats_from_job jb)) rows)
            (if rows = [] then 0 else d_id (last rows))), s')
    \<and> db_inv s' \<and> jobs s' = jobs s \<and> documents s' = documents s"
proof -
  let ?q = "page_query limit sortDir orderBy c"
  have "parse_int (query_value ?q ''limit'' '''') = Some limit" "parse_int (query_value ?q ''after'' '''') = Some c"
    using assms(3,4,7,8) by (simp_all add: query_value_def page_query_def int_text_ne parse_int_text)
  then have q: "\<exists>k. parse_pagination ?q = (limit, k, c)" "query_value ?q ''sort'' ''asc'' = sortDir" "query_value ?q ''sort_by'' ''id'' = orderBy"
    using assms(3-7) by (simp_all add: parse_pagination_def query_value_def page_query_def)
  let ?s1 = "s\<lparr>tick := Suc (tick s)\<rparr>"
  have g: "get_job e jobID s = (Ok jb, ?s1)" using assms(1,2) by (simp add: get_job_def exec_no_faults)
  obtain rows s2 where p: "documents_page e jobID limit sortDir orderBy c ?s1 = (Ok rows, s2)"
    using page_ok(1) [OF assms(1), of jobID limit sortDir orderBy c ?s1]
    by (cases "documents_page e jobID limit sortDir orderBy c ?s1"; cases "fst (documents_page e jobID limit sortDir orderBy c ?s1)") auto
  have i1: "db_inv ?s1" using assms(9) by simp
  have "rows = take (nat limit) (order_rows (document_column e (document_order_column orderBy)) d_id (order_dir sortDir)
      (filter (\<lambda>r. rest (order_dir sortDir) c (d_id r)) (job_docs jobID s)))"
    using docs.content [OF i1, of e jobID limit sortDir orderBy c rows] p by (simp add: job_docs_def)
  moreover have "db_inv s2" "documents s2 = documents s"
    using docs.frame [OF i1, of e jobID limit sortDir orderBy c] page_tables(1) [of e jobID limit sortDir orderBy c ?s1] p by auto
  moreover have "jobs s2 = jobs s" using p
    by (auto simp: documents_page_def list_documents_after_def list_documents_def dest!: exec_ok split: if_splits)
  ultimately show ?thesis using q g p by (auto simp: documents_handler_def Let_def)
qed

lemma client_pages_by_id:
  assumes "no_faults e" and "find (\<lambda>j. j_id j = jobID) (jobs s) = Some jb"
    and "1 \<le> limit" and "limit \<le> 500" and "sortDir \<noteq> ''''" and "document_order_column orderBy = ''id''" and "orderBy \<noteq> ''''"
    and "db_inv s" and "\<forall>r \<in> set (documents s). d_id r < 2 ^ 63" and "0 \<le> c" and "c < 2 ^ 63"
    and "length (filter (\<lambda>r. rest (order_dir sortDir) c (d_id r)) (job_docs jobID s)) < fuel"
  shows "\<exists>s'. client_pages fuel (\<lambda>c. documents_handler rfc3339 iter e jobID (page_query limit sortDir orderBy c)) c got s =
    Some (got @ map (\<lambda>r. document_from_row rfc3339 iter r jb (formats_from_job jb))
      (by_id (order_dir sortDir) d_id (filter (\<lambda>r. rest (order_dir sortDir) c (d_id r)) (job_docs jobID s))), s')"
  using assms(2,8-12)
proof (induction fuel arbitrary: c got s)
  case 0
  then show ?case by simp
next
  case (Suc fuel)
  let ?dir = "order_dir sortDir"
  let ?view = "\<lambda>r. document_from_row rfc3339 iter r jb (formats_from_job jb)"
  let ?F = "\<lambda>c. filter (\<lambda>r. rest ?dir c (d_id r)) (job_docs jobID s)"
  define rs where "rs = take (nat limit) (by_id ?dir d_id (?F c))"
  obtain s1 where a: "documents_handler rfc3339 iter e jobID (page_query limit sortDir orderBy c) s =
      (ok_reply (DocumentsBody (map ?view rs) (if rs = [] then 0 else d_id (last rs))), s1)"
    and s1: "db_inv s1" "jobs s1 = jobs s" "documents s1 = documents s"
    using documents_handler_page [OF assms(1) Suc.prems(1) assms(3-5,7) Suc.prems(4,5,2), of rfc3339 iter]
    unfolding by_id_column(1) [OF assms(6)] rs_def Let_def by blast
  show ?case
  proof (cases "rs = []")
    case True
    then have "by_id ?dir d_id (?F c) = []" using assms(3) by (simp add: rs_def)
    then show ?thesis using a True by (simp add: ok_reply_def)
  next
    case False
    have "last rs \<in> set (?F c)" using last_in_set [OF False] by (metis rs_def in_set_takeD set_by_id)
    then have l: "last rs \<in> set (job_docs jobID s)" "rest ?dir c (d_id (last rs))" by auto
    then have m: "last rs \<in> set (documents s)" by (simp add: job_docs_def)
    have range: "0 < d_id (last rs)" "d_id (last rs) < 2 ^ 63"
      using Suc.prems(2,3) m by (auto simp: db_inv_def docs_ok_def serial_ok_def)
    have d: "by_id ?dir d_id (?F (d_id (last rs))) = drop (nat limit) (by_id ?dir d_id (?F c))"
      unfolding job_docs_def
      by (rule docs.rest_after_page [OF Suc.prems(2) rs_def [unfolded job_docs_def] False range(1) l(2)])
    have "length (?F (d_id (last rs))) < fuel"
      using docs.fewer_left [where jobID = jobID and sortDir = sortDir and s = s and x = "last rs" and c = c] l range Suc.prems(6)
      by (simp add: job_docs_def)
    moreover have jd: "job_docs jobID s1 = job_docs jobID s" by (simp add: job_docs_def s1)
    ultimately obtain s2 where "client_pages fuel (\<lambda>c. documents_handler rfc3339 iter e jobID (page_query limit sortDir orderBy c))
        (d_id (last rs)) (got @ map ?view rs) s1 =
      Some ((got @ map ?view rs) @ map ?view (by_id ?dir d_id (?F (d_id (last rs)))), s2)"
      using Suc.IH [of s1 "d_id (last rs)" "got @ map ?view rs", unfolded jd] s1 Suc.prems(1,3) range by auto
    moreover have "rs @ drop (nat limit) (by_id ?dir d_id (?F c)) = by_id ?dir d_id (?F c)" by (simp add: rs_def)
    ultimately show ?thesis using a False range
      by (simp add: ok_reply_def d) (metis map_append)
  qed
qed

lemma find_job: "distinct (map j_id js) \<Longrightarrow> jb \<in> set js \<Longrightarrow> find (\<lambda>j. j_id j = j_id jb) js = Some jb"
  by (induction js) auto

lemma rest_zero [simp]: "rest order 0 i"
  by (simp add: rest_def)

text \<open>C19: Without failures, a client that pages through the documents of a job sorted by id, sending each
  \<open>next_cursor\<close> back until it is zero, ends after at most one request more than the table has rows and has then got every
  document of the job exactly once and in order, for every page size and direction.\<close>

theorem paging_reads_all_documents:
  assumes "no_faults e" and "db_inv s" and "jb \<in> set (jobs s)" and "\<forall>r \<in> set (documents s). d_id r < 2 ^ 63"
    and "1 \<le> limit" and "limit \<le> 500" and "sortDir \<noteq> ''''"
  shows "\<exists>s'. client_pages (Suc (length (documents s)))
      (\<lambda>c. documents_handler rfc3339 iter e (j_id jb) (page_query limit sortDir ''id'' c)) 0 [] s =
    Some (map (\<lambda>r. document_from_row rfc3339 iter r jb (formats_from_job jb))
      (by_id (order_dir sortDir) d_id (job_docs (j_id jb) s)), s')"
proof -
  have id: "document_order_column ''id'' = ''id''" by code_simp
  have len: "length (filter (\<lambda>r. rest (order_dir sortDir) 0 (d_id r)) (job_docs (j_id jb) s)) < Suc (length (documents s))"
    by (simp add: job_docs_def less_Suc_eq_le)
  have "find (\<lambda>j. j_id j = j_id jb) (jobs s) = Some jb"
    by (rule find_job) (use assms(2,3) in \<open>auto simp: db_inv_defs\<close>)
  from client_pages_by_id [OF assms(1) this assms(5-7) id _ assms(2,4) _ _ len, of rfc3339 iter "[]"]
  show ?thesis by simp
qed

text \<open>C18: The export of all documents by id writes the documents that the paged list gives, one line each in the same order,
  and then one cursor line; its reply is 200, and it ends after at most one page more than the table has
  rows.\<close>

theorem export_equals_paging:
  assumes "no_faults e" and "db_inv s" and "jb \<in> set (jobs s)" and "\<forall>r \<in> set (documents s). d_id r < 2 ^ 63"
    and "1 \<le> limit" and "limit \<le> 500" and "sortDir \<noteq> ''''"
  shows "\<exists>items s1 cursor s2. client_pages (Suc (length (documents s)))
      (\<lambda>c. documents_handler rfc3339 iter e (j_id jb) (page_query limit sortDir ''id'' c)) 0 [] s = Some (items, s1)
    \<and> export_handler (Suc (length (documents s))) rfc3339 iter e (j_id jb)
        ((''all'', ''true'') # page_query limit sortDir ''id'' 0) s =
      Some (\<lparr>rp_status = 200, rp_cursor = (if cursor > 0 then Some (int_text cursor) else None),
        rp_body = Lines (map DocumentLine items @ [CursorLine cursor sortDir ''id''])\<rparr>, s2)"
proof -
  let ?q = "(''all'', ''true'') # page_query limit sortDir ''id'' 0"
  let ?view = "\<lambda>r. document_from_row rfc3339 iter r jb (formats_from_job jb)"
  let ?s1 = "s\<lparr>tick := Suc (tick s)\<rparr>"
  have id: "document_order_column ''id'' = ''id''" by code_simp
  have len: "length (filter (\<lambda>r. rest (order_dir sortDir) 0 (d_id r)) (job_docs (j_id jb) s)) < Suc (length (documents s))"
    by (simp add: job_docs_def less_Suc_eq_le)
  have j: "find (\<lambda>j. j_id j = j_id jb) (jobs s) = Some jb"
    by (rule find_job) (use assms(2,3) in \<open>auto simp: db_inv_defs\<close>)
  obtain s' where c: "client_pages (Suc (length (documents s)))
      (\<lambda>c. documents_handler rfc3339 iter e (j_id jb) (page_query limit sortDir ''id'' c)) 0 [] s =
    Some (map ?view (by_id (order_dir sortDir) d_id (job_docs (j_id jb) s)), s')"
    using client_pages_by_id [OF assms(1) j assms(5-7) id _ assms(2,4) _ _ len, of rfc3339 iter "[]"] by auto
  have "parse_int (query_value ?q ''limit'' '''') = Some limit" "parse_int (query_value ?q ''after'' '''') = Some 0"
    using assms(5,6) by (simp_all add: query_value_def page_query_def int_text_ne parse_int_text)
  then have q: "\<exists>k. parse_pagination ?q = (limit, k, 0)" "query_value ?q ''sort'' ''asc'' = sortDir"
    "query_value ?q ''sort_by'' ''id'' = ''id''" "query_value ?q ''type'' ''documents'' = ''documents''" "query_bool ?q ''all''"
    using assms(5-7) by (simp_all add: parse_pagination_def query_value_def page_query_def query_bool_def)
  have g: "get_job e (j_id jb) s = (Ok jb, ?s1)" using assms(1) j by (simp add: get_job_def exec_no_faults)
  have i1: "db_inv ?s1" using assms(2) by simp
  let ?loop = "export_loop (Suc (length (documents s))) (documents_page e (j_id jb) limit sortDir ''id'') d_id True 0 [] ?s1"
  obtain r s2 where x: "?loop = Some (r, s2)"
    using docs.export_ends [OF i1, where sortDir = sortDir and jobID = "j_id jb" and c = 0] len by (fastforce simp: job_docs_def)
  obtain out cursor where r: "r = Ok (out, cursor)"
    using docs.export_no_error [OF page_ok(1) [OF assms(1)] i1 x] by auto
  have "out = [] @ by_id (order_dir sortDir) d_id
      (filter (\<lambda>r. rest (order_dir sortDir) 0 (d_id r)) (filter (\<lambda>r. d_job r = j_id jb) (documents ?s1)))"
    by (rule docs.export_all_by_id [OF by_id_column(1) [OF id] _ i1 x [unfolded r]]) (use assms(5) in simp)
  then have "export_handler (Suc (length (documents s))) rfc3339 iter e (j_id jb) ?q s =
      Some (export_reply (\<lambda>r. DocumentLine (?view r)) ?q (Ok (by_id (order_dir sortDir) d_id (job_docs (j_id jb) s), cursor)), s2)"
    using q g x r by (auto simp: export_handler_def export_documents_def job_docs_def)
  then show ?thesis using c q by (auto simp: export_reply_def o_def)
qed

definition demo_pages_items :: "document_response list" where
  "demo_pages_items = map (\<lambda>r. document_from_row (\<lambda>_. ''t'') (\<lambda>k. k) r demo_job (formats_from_job demo_job)) (documents demo_docs)"

lemma demo_docs_reads:
  "demo_job \<in> set (jobs demo_docs)" "\<forall>r \<in> set (documents demo_docs). d_id r < 2 ^ 63" "length (documents demo_docs) = 3"
  "j_id demo_job = ''j''" "by_id (order_dir ''asc'') d_id (job_docs ''j'' demo_docs) = documents demo_docs"
proof -
  show "by_id (order_dir ''asc'') d_id (job_docs ''j'' demo_docs) = documents demo_docs" by code_simp
qed (simp_all add: demo_docs_def demo_db_def demo_doc_def demo_job_def)

theorem paging_reads_all_documents_witness:
  "\<exists>s'. client_pages 4 (\<lambda>c. documents_handler (\<lambda>_. ''t'') (\<lambda>k. k) demo_env ''j'' (page_query 2 ''asc'' ''id'' c)) 0 [] demo_docs =
     Some (demo_pages_items, s') \<and> length demo_pages_items = 3"
  using paging_reads_all_documents [OF demo_no_faults demo_docs_inv demo_docs_reads(1,2), of 2 "''asc''" "\<lambda>_. ''t''" "\<lambda>k. k"]
  by (simp add: demo_docs_reads demo_pages_items_def)

theorem export_equals_paging_witness:
  "\<exists>cursor s2. export_handler 4 (\<lambda>_. ''t'') (\<lambda>k. k) demo_env ''j'' ((''all'', ''true'') # page_query 2 ''asc'' ''id'' 0) demo_docs =
     Some (\<lparr>rp_status = 200, rp_cursor = (if cursor > 0 then Some (int_text cursor) else None),
       rp_body = Lines (map DocumentLine (fst (the (client_pages 4 (\<lambda>c. documents_handler (\<lambda>_. ''t'') (\<lambda>k. k) demo_env ''j''
           (page_query 2 ''asc'' ''id'' c)) 0 [] demo_docs))) @ [CursorLine cursor ''asc'' ''id''])\<rparr>, s2)"
  using export_equals_paging [OF demo_no_faults demo_docs_inv demo_docs_reads(1,2), of 2 "''asc''" "\<lambda>_. ''t''" "\<lambda>k. k"]
  by (auto simp: demo_docs_reads eval_nat_numeral)

end
