(* ===== verification/Links.thy ===== *)
theory Links
  imports Jobs
begin

text \<open>
  The link handling of \<open>internal/worker/worker.go\<close>: filtering the links of a page, the loops that
  drop repetitions, sitemap discovery, and planning the tasks of the next depth.

  The interfaces \<open>store.DedupeChecker\<close> and \<open>taskPlanner\<close> of the code are the locales
  \<open>dedupe_checker\<close> and \<open>task_planner\<close>; \<open>buildLinkTasks\<close> is verified once against them and they are
  interpreted on the store.  Fetching and XML parsing are arguments of the sitemap functions.
\<close>

section \<open>Lists of links\<close>

text \<open>The loops with a \<open>seen\<close> map; \<open>out\<close> is the slice built so far.\<close>

fun unique_loop :: "string list \<Rightarrow> string list \<Rightarrow> string list \<Rightarrow> string list" where
  "unique_loop seen out [] = out"
| "unique_loop seen out (v # vs) =
     (if v = '''' then unique_loop seen out vs
      else if v \<in> set seen then unique_loop seen out vs
      else unique_loop (v # seen) (out @ [v]) vs)"

definition unique_strings :: "string list \<Rightarrow> string list" where
  "unique_strings vs = (if length vs = 0 then vs else unique_loop [] [] vs)"

definition append_unique_links :: "string list \<Rightarrow> string list \<Rightarrow> string list" where
  "append_unique_links existing extra =
     (if length extra = 0 then existing else unique_loop existing existing extra)"

definition is_blocked_ext :: "string \<Rightarrow> string list \<Rightarrow> bool" where
  "is_blocked_ext ext blocked \<longleftrightarrow> ext \<noteq> '''' \<and> (\<exists>b \<in> set blocked. ext = to_lower b)"

definition is_allowed_scheme :: "string \<Rightarrow> string list \<Rightarrow> bool" where
  "is_allowed_scheme scheme allowed \<longleftrightarrow> scheme \<noteq> '''' \<and> (\<exists>a \<in> set allowed. to_lower scheme = to_lower a)"

definition same_host_or_subdomain :: "string \<Rightarrow> string \<Rightarrow> bool" where
  "same_host_or_subdomain baseHost targetHost =
     (if baseHost = '''' \<or> targetHost = '''' then False
      else if baseHost = targetHost then True
      else has_suffix targetHost (CHR ''.'' # baseHost))"

text \<open>The worker's own \<open>stripDefaultPort\<close> keeps the letter case.\<close>

definition worker_strip_default_port :: "url \<Rightarrow> string" where
  "worker_strip_default_port u =
     (let sch = to_lower (u_scheme u)
      in if sch = ''http'' then trim_suffix (u_host u) '':80''
         else if sch = ''https'' then trim_suffix (u_host u) '':443'' else u_host u)"

text \<open>One turn of the loop of \<open>filterLinks\<close>: \<open>None\<close> where the code continues with the next link.\<close>

definition filter_link :: "crawl_config \<Rightarrow> url \<Rightarrow> string \<Rightarrow> bool \<Rightarrow> string \<Rightarrow> string option" where
  "filter_link cc base baseHost sameDomain raw0 =
     (let raw = trim_space raw0 in
      if raw = '''' then None
      else case url_parse raw of
        Inl _ \<Rightarrow> None
      | Inr u0 \<Rightarrow>
          let u1 = (if \<not> is_abs u0 then resolve_reference base u0 else u0) in
          if \<not> is_allowed_scheme (u_scheme u1) (cc_allowed_schemes cc) then None
          else
            let u2 = u1\<lparr>u_host := worker_strip_default_port u1\<rparr>;
                targetHost = to_lower (hostname u2) in
            if sameDomain \<and> \<not> same_host_or_subdomain baseHost targetHost then None
            else
              let u3 = (if cc_strip_query cc then u2\<lparr>u_raw_query := ''''\<rparr> else u2);
                  u4 = u3\<lparr>u_fragment := ''''\<rparr>;
                  ext = to_lower (path_ext (u_path u4)) in
              if is_blocked_ext ext (cc_block_extensions cc) then None
              else (case canonicalize (url_string u4) (cc_strip_query cc) of
                      Inl _ \<Rightarrow> None
                    | Inr canon \<Rightarrow> Some canon))"

fun filter_loop :: "crawl_config \<Rightarrow> url \<Rightarrow> string \<Rightarrow> bool \<Rightarrow> string list \<Rightarrow> string list" where
  "filter_loop cc base baseHost sameDomain [] = []"
| "filter_loop cc base baseHost sameDomain (raw # raws) =
     (case filter_link cc base baseHost sameDomain raw of
        None \<Rightarrow> filter_loop cc base baseHost sameDomain raws
      | Some canon \<Rightarrow> canon # filter_loop cc base baseHost sameDomain raws)"

definition filter_links :: "string \<Rightarrow> string list \<Rightarrow> bool \<Rightarrow> config \<Rightarrow> string list" where
  "filter_links baseURL links sameDomain cfg =
     (case url_parse baseURL of
        Inl _ \<Rightarrow> []
      | Inr base \<Rightarrow>
          filter_loop (c_crawl cfg) base (to_lower (worker_strip_default_port base)) sameDomain links)"

section \<open>Sitemaps\<close>

text \<open>
  What the two \<open>xml.Unmarshal\<close> calls make of a body: the \<open>loc\<close> texts of a \<open>urlset\<close> and of a
  \<open>sitemapindex\<close>, each empty when the document does not decode.
\<close>

record sitemap_doc =
  sm_urls :: "string list"
  sm_sitemaps :: "string list"

type_synonym sitemap_fetch = "string \<Rightarrow> sitemap_doc res"

text \<open>The loop over the URLs of a \<open>urlset\<close>.\<close>

fun sitemap_urls_loop :: "nat \<Rightarrow> string list \<Rightarrow> string list \<Rightarrow> string list \<Rightarrow> string list \<times> string list" where
  "sitemap_urls_loop remaining [] out seen = (out, seen)"
| "sitemap_urls_loop remaining (l # ls) out seen =
     (let loc = trim_space l in
      if loc = '''' then sitemap_urls_loop remaining ls out seen
      else if loc \<in> set seen then sitemap_urls_loop remaining ls out seen
      else if length (out @ [loc]) \<ge> remaining then (out @ [loc], loc # seen)
      else sitemap_urls_loop remaining ls (out @ [loc]) (loc # seen))"

text \<open>
  \<open>fetchSitemapURLs\<close> and its loop over the children of an index.  The recursion goes down one
  level of nesting per call; \<open>levels\<close> is \<open>maxDepth - depth + 1\<close>, and the first test of the code
  (\<open>depth > maxDepth\<close>) is \<open>levels = 0\<close>.
\<close>

function (sequential) fetch_sitemap_urls ::
    "sitemap_fetch \<Rightarrow> nat \<Rightarrow> string \<Rightarrow> nat \<Rightarrow> string list \<Rightarrow> string list res \<times> string list"
  and sitemap_index_loop ::
    "sitemap_fetch \<Rightarrow> nat \<Rightarrow> string list \<Rightarrow> nat \<Rightarrow> string list \<Rightarrow> string list \<Rightarrow> string list \<times> string list" where
  "fetch_sitemap_urls get levels url remaining seen =
     (if remaining = 0 \<or> levels = 0 then (Ok [], seen)
      else case get url of
        Inl err \<Rightarrow> (Inl err, seen)
      | Inr doc \<Rightarrow>
          if length (sm_urls doc) > 0 then
            (case sitemap_urls_loop remaining (sm_urls doc) [] seen of (out, seen') \<Rightarrow> (Ok out, seen'))
          else if length (sm_sitemaps doc) > 0 then
            (case sitemap_index_loop get (levels - 1) (sm_sitemaps doc) remaining [] seen of
               (out, seen') \<Rightarrow> (Ok out, seen'))
          else (Ok [], seen))"
| "sitemap_index_loop get levels [] remaining collected seen = (collected, seen)"
| "sitemap_index_loop get levels (l # ls) remaining collected seen =
     (let loc = trim_space l in
      if loc = '''' then sitemap_index_loop get levels ls remaining collected seen
      else if loc \<in> set seen then sitemap_index_loop get levels ls remaining collected seen
      else case fetch_sitemap_urls get levels loc (remaining - length collected) (loc # seen) of
        (Inl _, seen') \<Rightarrow> sitemap_index_loop get levels ls remaining collected seen'
      | (Inr urls, seen') \<Rightarrow>
          if length (collected @ urls) \<ge> remaining then (collected @ urls, seen')
          else sitemap_index_loop get levels ls remaining (collected @ urls) seen')"
  by pat_completeness auto

termination
  by (relation "measures [\<lambda>x. case x of Inl (get, levels, url, remaining, seen) \<Rightarrow> 2 * levels
        | Inr (get, levels, ls, remaining, collected, seen) \<Rightarrow> 2 * levels + 1,
      \<lambda>x. case x of Inl _ \<Rightarrow> 0 | Inr (get, levels, ls, remaining, collected, seen) \<Rightarrow> length ls]") auto

fun sitemaps_loop ::
    "sitemap_fetch \<Rightarrow> nat \<Rightarrow> nat \<Rightarrow> string list \<Rightarrow> string list \<Rightarrow> string list \<Rightarrow> string list" where
  "sitemaps_loop get maxDepth limit [] raw seen = raw"
| "sitemaps_loop get maxDepth limit (sm # sms) raw seen =
     (case fetch_sitemap_urls get maxDepth sm (limit - length raw) seen of
        (Inl _, seen') \<Rightarrow> sitemaps_loop get maxDepth limit sms raw seen'
      | (Inr urls, seen') \<Rightarrow>
          if length (raw @ urls) \<ge> limit then raw @ urls
          else sitemaps_loop get maxDepth limit sms (raw @ urls) seen')"

definition sitemap_limit :: "crawl_config \<Rightarrow> nat" where
  "sitemap_limit cc = nat (if cc_sitemap_url_limit cc \<le> 0 then 1000 else cc_sitemap_url_limit cc)"

definition sitemap_depth :: "crawl_config \<Rightarrow> nat" where
  "sitemap_depth cc = nat (if cc_sitemap_max_nested cc \<le> 0 then 1 else cc_sitemap_max_nested cc)"

text \<open>\<open>sitemaps\<close> is what \<open>robotsClient.Sitemaps\<close> returns for the task's URL.\<close>

definition discover_sitemap_links ::
    "sitemap_fetch \<Rightarrow> string list \<Rightarrow> string \<Rightarrow> bool \<Rightarrow> config \<Rightarrow> string list" where
  "discover_sitemap_links get sitemaps requestedURL sameDomain cfg =
     (if length sitemaps = 0 then []
      else let raw = sitemaps_loop get (sitemap_depth (c_crawl cfg)) (sitemap_limit (c_crawl cfg)) sitemaps [] []
           in if length raw = 0 then [] else filter_links requestedURL raw sameDomain cfg)"

definition collect_links ::
    "sitemap_fetch \<Rightarrow> string list \<Rightarrow> string \<Rightarrow> int \<Rightarrow> string list \<Rightarrow> bool \<Rightarrow> bool \<Rightarrow> config \<Rightarrow> string list" where
  "collect_links get sitemaps requestedURL depth rawLinks sameDomain includeSitemaps cfg =
     (let links = filter_links requestedURL rawLinks sameDomain cfg;
          links' = (if includeSitemaps \<and> depth = 0
                    then append_unique_links links (discover_sitemap_links get sitemaps requestedURL sameDomain cfg)
                    else links)
      in unique_strings links')"

section \<open>Planning tasks\<close>

fun link_tasks_loop ::
    "(string \<Rightarrow> (bool, 's) action) \<Rightarrow> bool \<Rightarrow> int \<Rightarrow> string list \<Rightarrow> task list \<Rightarrow> (task list, 's) action" where
  "link_tasks_loop has_seen dedupe depth [] ts = (\<lambda>s. (Ok ts, s))"
| "link_tasks_loop has_seen dedupe depth (link # links) ts =
     (let more = link_tasks_loop has_seen dedupe depth links (ts @ [new_task link link depth TaskStatusQueued])
      in if dedupe
         then andthen (should_skip_canonical has_seen link) (\<lambda>seen.
                if seen then link_tasks_loop has_seen dedupe depth links ts else more)
         else more)"

definition build_link_tasks ::
    "(string \<Rightarrow> (bool, 's) action) \<Rightarrow> (string \<Rightarrow> (int, 's) action) \<Rightarrow> config \<Rightarrow> string \<Rightarrow> string list \<Rightarrow> int \<Rightarrow>
     (task list, 's) action" where
  "build_link_tasks has_seen task_cnt cfg jobID links depth =
     (if length links = 0 then (\<lambda>s. (Ok [], s))
      else andthen (link_tasks_loop has_seen (cc_dedupe_cache (c_crawl cfg)) depth (unique_strings links) []) (\<lambda>ts.
        if length ts = 0 then (\<lambda>s. (Ok [], s))
        else if jd_max_tasks (c_job_defaults cfg) > 0
        then andthen (task_cnt jobID) (\<lambda>current.
               let remaining = jd_max_tasks (c_job_defaults cfg) - current
               in if remaining \<le> 0 then (\<lambda>s. (Ok [], s))
                  else if int (length ts) > remaining then (\<lambda>s. (Ok (take (nat remaining) ts), s))
                  else (\<lambda>s. (Ok ts, s)))
        else (\<lambda>s. (Ok ts, s))))"

section \<open>The loops keep first occurrences\<close>

lemma unique_loop_eq: "unique_loop seen out vs = out @ first_occ seen (filter (\<lambda>v. v \<noteq> '''') vs)"
  by (induction seen out vs rule: unique_loop.induct) auto

lemma unique_strings_eq: "unique_strings vs = first_occ [] (filter (\<lambda>v. v \<noteq> '''') vs)"
  by (simp add: unique_strings_def unique_loop_eq)

lemma append_unique_links_eq:
  "append_unique_links xs ys = xs @ first_occ xs (filter (\<lambda>v. v \<noteq> '''') ys)"
  by (simp add: append_unique_links_def unique_loop_eq)

lemma filter_loop_eq: "filter_loop cc base bh sd raws = List.map_filter (filter_link cc base bh sd) raws"
  by (induction raws) (simp_all add: List.map_filter_simps split: option.splits)

lemma length_filter_loop: "length (filter_loop cc base bh sd raws) \<le> length raws"
  by (induction raws) (auto split: option.splits)

lemma length_filter_links: "length (filter_links b raws sd cfg) \<le> length raws"
  by (auto simp: filter_links_def length_filter_loop split: sum.splits)

section \<open>Sitemap discovery is bounded\<close>

text \<open>
  How the collected URLs grow from \<open>out\<close> to \<open>out'\<close> while the seen map grows from \<open>seen\<close> to
  \<open>seen'\<close>: at most \<open>n\<close> URLs, all different, all marked as seen, and none that was seen before.
\<close>

definition grown :: "nat \<Rightarrow> string list \<Rightarrow> string list \<Rightarrow> string list \<Rightarrow> string list \<Rightarrow> bool" where
  "grown n seen seen' out out' \<longleftrightarrow> set seen \<subseteq> set seen' \<and> length out' \<le> n \<and> distinct out' \<and> set out' \<subseteq> set seen'
     \<and> (\<exists>new. out' = out @ new \<and> set new \<inter> set seen = {})"

lemma grown_refl: "length out \<le> n \<Longrightarrow> distinct out \<Longrightarrow> set out \<subseteq> set seen \<Longrightarrow> grown n seen seen out out"
  by (simp add: grown_def)

lemma grown_seen: "grown n seen1 seen' out out' \<Longrightarrow> set seen \<subseteq> set seen1 \<Longrightarrow> grown n seen seen' out out'"
  unfolding grown_def by blast

lemma grown_more:
  assumes "grown n seen1 seen' (out @ urls) out'" and "set seen \<subseteq> set seen1" and "set urls \<inter> set seen = {}"
  shows "grown n seen seen' out out'"
proof -
  obtain new where "out' = (out @ urls) @ new" "set new \<inter> set seen1 = {}" using assms(1) by (auto simp: grown_def)
  then have "out' = out @ (urls @ new)" "set (urls @ new) \<inter> set seen = {}" using assms(2,3) by auto
  moreover have "set seen \<subseteq> set seen'" using assms(1,2) unfolding grown_def by blast
  ultimately show ?thesis using assms(1) unfolding grown_def by blast
qed

lemma grown_step:
  "grown n seen seen1 [] urls \<Longrightarrow> length out + length urls \<le> m \<Longrightarrow> distinct out \<Longrightarrow> set out \<subseteq> set seen \<Longrightarrow>
   grown m seen seen1 out (out @ urls)"
  unfolding grown_def by auto

lemma sitemap_urls_loop_grown:
  "length out < n \<Longrightarrow> distinct out \<Longrightarrow> set out \<subseteq> set seen \<Longrightarrow>
   grown n seen (snd (sitemap_urls_loop n ls out seen)) out (fst (sitemap_urls_loop n ls out seen))"
proof (induction ls arbitrary: out seen)
  case Nil
  then show ?case by (simp add: grown_refl)
next
  case (Cons l ls)
  let ?loc = "trim_space l"
  show ?case
  proof (cases "?loc = '''' \<or> ?loc \<in> set seen")
    case True
    then have "sitemap_urls_loop n (l # ls) out seen = sitemap_urls_loop n ls out seen" by (auto simp: Let_def)
    then show ?thesis using Cons by simp
  next
    case new: False
    have g: "grown n seen (?loc # seen) out (out @ [?loc])"
      using Cons.prems new by (auto simp: grown_def)
    show ?thesis
    proof (cases "length (out @ [?loc]) \<ge> n")
      case True
      then show ?thesis using g new by (simp add: Let_def)
    next
      case False
      have "grown n (?loc # seen) (snd (sitemap_urls_loop n ls (out @ [?loc]) (?loc # seen))) (out @ [?loc])
          (fst (sitemap_urls_loop n ls (out @ [?loc]) (?loc # seen)))"
        by (rule Cons.IH) (use False new Cons.prems in auto)
      then have "grown n seen (snd (sitemap_urls_loop n ls (out @ [?loc]) (?loc # seen))) out
          (fst (sitemap_urls_loop n ls (out @ [?loc]) (?loc # seen)))"
        by (rule grown_more) (use new in auto)
      then show ?thesis using False new by (simp add: Let_def)
    qed
  qed
qed

lemma sitemap_grown:
  "fetch_sitemap_urls get levels url n seen = (r, seen') \<Longrightarrow>
     (case r of Inl _ \<Rightarrow> set seen \<subseteq> set seen' | Inr out \<Rightarrow> grown n seen seen' [] out)"
  "sitemap_index_loop get2 levels2 ls m collected seen2 = (out, seen2') \<Longrightarrow>
     length collected < m \<Longrightarrow> distinct collected \<Longrightarrow> set collected \<subseteq> set seen2 \<Longrightarrow> grown m seen2 seen2' collected out"
proof (induction get levels url n seen and get2 levels2 ls m collected seen2
    arbitrary: r seen' and out seen2' rule: fetch_sitemap_urls_sitemap_index_loop.induct)
  case (1 get levels url n seen)
  show ?case
  proof (cases "n = 0 \<or> levels = 0")
    case True
    then show ?thesis using "1.prems" by (auto simp: grown_refl)
  next
    case pos: False
    show ?thesis
    proof (cases "get url")
      case (Inl err)
      then show ?thesis using "1.prems" pos by auto
    next
      case (Inr doc)
      consider "length (sm_urls doc) > 0" | "\<not> length (sm_urls doc) > 0" "length (sm_sitemaps doc) > 0"
        | "\<not> length (sm_urls doc) > 0" "\<not> length (sm_sitemaps doc) > 0" by blast
      then show ?thesis
      proof cases
        case 1
        then show ?thesis using "1.prems" pos Inr sitemap_urls_loop_grown [of "[]" n seen "sm_urls doc"]
          by (auto split: prod.splits)
      next
        case 2
        obtain out' seen1 where o: "sitemap_index_loop get (levels - 1) (sm_sitemaps doc) n [] seen = (out', seen1)"
          by (cases "sitemap_index_loop get (levels - 1) (sm_sitemaps doc) n [] seen")
        have "grown n seen seen1 [] out'"
          by (rule "1.IH" [OF pos Inr 2 o]) (use pos in simp_all)
        then show ?thesis using "1.prems" pos Inr 2 o by auto
      next
        case 3
        then show ?thesis using "1.prems" pos Inr by (auto simp: grown_refl)
      qed
    qed
  qed
next
  case (2 get levels m collected seen)
  then show ?case by (auto simp: grown_refl)
next
  case (3 get levels l ls m collected seen)
  let ?loc = "trim_space l"
  show ?case
  proof (cases "?loc = '''' \<or> ?loc \<in> set seen")
    case True
    then have "sitemap_index_loop get levels ls m collected seen = (out, seen2')"
      using "3.prems"(1) by (cases "?loc = ''''") (simp_all add: Let_def)
    then show ?thesis using "3.IH"(1) [OF refl] "3.IH"(2) [OF refl] "3.prems" True by blast
  next
    case new: False
    then have nl: "\<not> ?loc = ''''" "\<not> ?loc \<in> set seen" by auto
    obtain r seen1 where f: "fetch_sitemap_urls get levels ?loc (m - length collected) (?loc # seen) = (r, seen1)"
      by (cases "fetch_sitemap_urls get levels ?loc (m - length collected) (?loc # seen)")
    note g = "3.IH"(3) [OF refl nl f]
    show ?thesis
    proof (cases r)
      case (Inl err)
      have s1: "set seen \<subseteq> set seen1" using g Inl by auto
      have "grown m seen1 seen2' collected out"
        by (rule "3.IH"(4) [OF refl nl f [symmetric] Inl]) (use "3.prems" f Inl nl s1 in \<open>auto simp: Let_def\<close>)
      then show ?thesis using s1 by (rule grown_seen)
    next
      case (Inr urls)
      have gu: "grown (m - length collected) (?loc # seen) seen1 [] urls" using g Inr by simp
      have s1: "set seen \<subseteq> set seen1" and fresh: "set urls \<inter> set seen = {}" using gu by (auto simp: grown_def)
      have gs: "grown m seen seen1 collected (collected @ urls)"
        by (rule grown_seen [OF grown_step [OF gu]]) (use "3.prems" gu in \<open>auto simp: grown_def\<close>)
      show ?thesis
      proof (cases "length (collected @ urls) \<ge> m")
        case True
        then show ?thesis using "3.prems"(1) f Inr nl gs by (auto simp: Let_def)
      next
        case more: False
        have "grown m seen1 seen2' (collected @ urls) out"
          by (rule "3.IH"(5) [OF refl nl f [symmetric] Inr more])
            (use "3.prems" f Inr nl more gs in \<open>auto simp: Let_def grown_def\<close>)
        then show ?thesis using s1 fresh by (rule grown_more)
      qed
    qed
  qed
qed

lemma sitemaps_loop_grown:
  "length raw < limit \<Longrightarrow> distinct raw \<Longrightarrow> set raw \<subseteq> set seen \<Longrightarrow>
   length (sitemaps_loop get d limit sms raw seen) \<le> limit \<and> distinct (sitemaps_loop get d limit sms raw seen)"
proof (induction sms arbitrary: raw seen)
  case Nil
  then show ?case by simp
next
  case (Cons sm sms)
  obtain r seen1 where f: "fetch_sitemap_urls get d sm (limit - length raw) seen = (r, seen1)"
    by (cases "fetch_sitemap_urls get d sm (limit - length raw) seen")
  note g = sitemap_grown(1) [OF f]
  show ?case
  proof (cases r)
    case (Inl err)
    then have "set raw \<subseteq> set seen1" using g Cons.prems by auto
    then show ?thesis using Cons f Inl by simp
  next
    case (Inr urls)
    have "grown limit seen seen1 raw (raw @ urls)"
      by (rule grown_step) (use g Inr Cons.prems in \<open>auto simp: grown_def\<close>)
    then show ?thesis using Cons.IH [of "raw @ urls" seen1] f Inr by (auto simp: grown_def not_le)
  qed
qed

text \<open>C24: Sitemap discovery always ends, whatever the fetched documents refer to (cycles included), and yields at most
  the configured number of URLs (1000 when it is not positive), no URL twice; filtering them for
  the page never adds any.\<close>

theorem sitemap_links_bounded:
  "length (sitemaps_loop get (sitemap_depth (c_crawl cfg)) (sitemap_limit (c_crawl cfg)) sms [] []) \<le> sitemap_limit (c_crawl cfg)
   \<and> distinct (sitemaps_loop get (sitemap_depth (c_crawl cfg)) (sitemap_limit (c_crawl cfg)) sms [] [])
   \<and> length (discover_sitemap_links get sms url sd cfg) \<le> sitemap_limit (c_crawl cfg)"
proof -
  have "0 < sitemap_limit (c_crawl cfg)" by (simp add: sitemap_limit_def)
  then have b: "length (sitemaps_loop get (sitemap_depth (c_crawl cfg)) (sitemap_limit (c_crawl cfg)) sms [] []) \<le> sitemap_limit (c_crawl cfg)
    \<and> distinct (sitemaps_loop get (sitemap_depth (c_crawl cfg)) (sitemap_limit (c_crawl cfg)) sms [] [])"
    by (intro sitemaps_loop_grown) simp_all
  moreover have "length (discover_sitemap_links get sms url sd cfg) \<le> sitemap_limit (c_crawl cfg)"
    using b length_filter_links [of url "sitemaps_loop get (sitemap_depth (c_crawl cfg)) (sitemap_limit (c_crawl cfg)) sms [] []" sd cfg]
    by (simp add: discover_sitemap_links_def Let_def)
  ultimately show ?thesis by blast
qed

text \<open>The links collected from a page are exactly the first occurrences of the non-empty filtered links of the page
  followed, on a seed page of a job that asks for sitemaps, by those of the sitemaps; so no link
  is followed twice from one page.\<close>

theorem collect_links_spec:
  "collect_links get sms url depth raw sd inc cfg =
     first_occ [] (filter (\<lambda>v. v \<noteq> '''') (filter_links url raw sd cfg @
       (if inc \<and> depth = 0 then discover_sitemap_links get sms url sd cfg else [])))
   \<and> distinct (collect_links get sms url depth raw sd inc cfg)"
proof -
  let ?ne = "filter (\<lambda>v. v \<noteq> '''')"
  have key: "first_occ [] (?ne xs @ first_occ xs (?ne ys)) = first_occ [] (?ne xs @ ?ne ys)" for xs ys
  proof -
    have "first_occ xs (?ne ys) = first_occ (?ne xs) (?ne ys)" by (rule first_occ_local) auto
    then show ?thesis by (simp add: first_occ_append)
  qed
  show ?thesis by (simp add: collect_links_def Let_def unique_strings_eq append_unique_links_eq key)
qed

section \<open>The planner's interface\<close>

locale dedupe_checker =
  fixes has_seen :: "string \<Rightarrow> (bool, 's) action"
    and view :: "'s \<Rightarrow> 'v"
    and known :: "'v \<Rightarrow> string \<Rightarrow> bool"
  assumes has_seen_view: "view (snd (has_seen u s)) = view s"
    and has_seen_known: "has_seen u s = (Ok b, s') \<Longrightarrow> b = known (view s) u"
begin

definition skips :: "'s \<Rightarrow> string \<Rightarrow> bool" where
  "skips s u \<longleftrightarrow> u \<noteq> '''' \<and> known (view s) u"

lemma should_skip:
  "should_skip_canonical has_seen u s = (Ok b, s') \<Longrightarrow> b = skips s u \<and> view s' = view s"
  using has_seen_known has_seen_view [of u s]
  by (auto simp: should_skip_canonical_def skips_def split: if_splits)

lemma link_tasks_loop_Ok:
  "link_tasks_loop has_seen dedupe depth links ts s = (Ok ts', s') \<Longrightarrow>
   ts' = ts @ map (\<lambda>l. new_task l l depth TaskStatusQueued) (filter (\<lambda>l. \<not> (dedupe \<and> skips s l)) links)
   \<and> view s' = view s"
proof (induction links arbitrary: ts s)
  case Nil
  then show ?case by simp
next
  case (Cons l ls)
  show ?case
  proof (cases dedupe)
    case False
    then show ?thesis using Cons.prems Cons.IH by fastforce
  next
    case True
    then obtain b s1 where b: "should_skip_canonical has_seen l s = (Ok b, s1)"
      and k: "(if b then link_tasks_loop has_seen True depth ls ts
        else link_tasks_loop has_seen True depth ls (ts @ [new_task l l depth TaskStatusQueued])) s1 = (Ok ts', s')"
      using Cons.prems by (simp add: andthen_Ok_iff Let_def) blast
    have v: "b = skips s l" "view s1 = view s" using should_skip [OF b] by auto
    then have "skips s1 = skips s" by (simp add: skips_def fun_eq_iff)
    then show ?thesis using v k True Cons.IH [of _ s1] by (cases b) fastforce+
  qed
qed

end

locale task_planner = dedupe_checker has_seen view known
  for has_seen :: "string \<Rightarrow> (bool, 's) action" and view :: "'s \<Rightarrow> 'v" and known :: "'v \<Rightarrow> string \<Rightarrow> bool" +
  fixes task_cnt :: "string \<Rightarrow> (int, 's) action"
    and total :: "'v \<Rightarrow> string \<Rightarrow> int"
  assumes task_cnt_view: "view (snd (task_cnt j s)) = view s"
    and task_cnt_total: "task_cnt j s = (Ok n, s') \<Longrightarrow> n = total (view s) j"
begin

definition planned :: "config \<Rightarrow> 's \<Rightarrow> string list \<Rightarrow> int \<Rightarrow> task list" where
  "planned cfg s links depth = map (\<lambda>l. new_task l l depth TaskStatusQueued)
     (filter (\<lambda>l. \<not> (cc_dedupe_cache (c_crawl cfg) \<and> skips s l)) (first_occ [] (filter (\<lambda>v. v \<noteq> '''') links)))"

text \<open>The whole function: the planned links, cut to what the job's task limit leaves.\<close>

lemma build_link_tasks_Ok:
  assumes "build_link_tasks has_seen task_cnt cfg j links depth s = (Ok ts, s')"
  shows "ts = (if jd_max_tasks (c_job_defaults cfg) > 0
      then take (nat (jd_max_tasks (c_job_defaults cfg) - total (view s) j)) (planned cfg s links depth)
      else planned cfg s links depth)" and "view s' = view s"
proof -
  have "ts = (if jd_max_tasks (c_job_defaults cfg) > 0
      then take (nat (jd_max_tasks (c_job_defaults cfg) - total (view s) j)) (planned cfg s links depth)
      else planned cfg s links depth) \<and> view s' = view s"
  proof (cases "links = []")
    case True
    then show ?thesis using assms by (simp add: build_link_tasks_def planned_def)
  next
    case False
    then obtain us s1 where l: "link_tasks_loop has_seen (cc_dedupe_cache (c_crawl cfg)) depth (unique_strings links) [] s = (Ok us, s1)"
      and k: "(if length us = 0 then (\<lambda>s. (Ok [], s))
        else if jd_max_tasks (c_job_defaults cfg) > 0
        then andthen (task_cnt j) (\<lambda>current.
               let remaining = jd_max_tasks (c_job_defaults cfg) - current
               in if remaining \<le> 0 then (\<lambda>s. (Ok [], s))
                  else if int (length us) > remaining then (\<lambda>s. (Ok (take (nat remaining) us), s))
                  else (\<lambda>s. (Ok us, s)))
        else (\<lambda>s. (Ok us, s))) s1 = (Ok ts, s')"
      using assms by (auto simp: build_link_tasks_def andthen_Ok_iff)
    have us: "us = planned cfg s links depth" and v: "view s1 = view s"
      using link_tasks_loop_Ok [OF l] by (simp_all add: planned_def unique_strings_eq)
    show ?thesis
    proof (cases "us = [] \<or> \<not> jd_max_tasks (c_job_defaults cfg) > 0")
      case True
      then show ?thesis using k us v by (auto split: if_splits)
    next
      case lim: False
      then obtain n s2 where n: "task_cnt j s1 = (Ok n, s2)"
        and t: "ts = (if jd_max_tasks (c_job_defaults cfg) - n \<le> 0 then []
          else if int (length us) > jd_max_tasks (c_job_defaults cfg) - n then take (nat (jd_max_tasks (c_job_defaults cfg) - n)) us
          else us)" "s' = s2"
        using k by (auto simp: andthen_Ok_iff Let_def split: if_splits)
      have "n = total (view s) j" "view s2 = view s"
        using task_cnt_total [OF n] task_cnt_view [of j s1] n v by auto
      then show ?thesis using t us lim by auto
    qed
  qed
  then show "ts = (if jd_max_tasks (c_job_defaults cfg) > 0
      then take (nat (jd_max_tasks (c_job_defaults cfg) - total (view s) j)) (planned cfg s links depth)
      else planned cfg s links depth)" and "view s' = view s" by blast+
qed

end

section \<open>Planning on the store\<close>

interpretation planner: task_planner
  "has_seen_canonical e" "\<lambda>s. (tasks s, dedupe_cache s)" "\<lambda>v u. u \<in> fst ` set (snd v)"
  "task_count e" "\<lambda>v j. int (length (filter (\<lambda>t. t_job t = j) (fst v)))"
  for e
proof
  fix u j s b n s'
  show "(tasks (snd (has_seen_canonical e u s)), dedupe_cache (snd (has_seen_canonical e u s))) = (tasks s, dedupe_cache s)"
    by (simp add: has_seen_canonical_def exec_def Let_def split: option.splits)
  show "has_seen_canonical e u s = (Ok b, s') \<Longrightarrow> b = (u \<in> fst ` set (snd (tasks s, dedupe_cache s)))"
    by (auto simp: has_seen_canonical_def filter_empty_conv dest!: exec_ok)
  show "(tasks (snd (task_count e j s)), dedupe_cache (snd (task_count e j s))) = (tasks s, dedupe_cache s)"
    by (simp add: task_count_def exec_def Let_def split: option.splits)
  show "task_count e j s = (Ok n, s') \<Longrightarrow> n = int (length (filter (\<lambda>t. t_job t = j) (fst (tasks s, dedupe_cache s))))"
    by (auto simp: task_count_def count_tasks_def dest!: exec_ok)
qed

abbreviation job_size :: "string \<Rightarrow> db \<Rightarrow> int" where
  "job_size j s \<equiv> int (length (filter (\<lambda>t. t_job t = j) (tasks s)))"

text \<open>C20: The tasks planned from a page's links are, in order and without repetition, the non-empty links that the
  dedupe cache (when it is on) does not know, at the given depth and queued, cut to the number
  that the task limit of the job leaves; planning changes no task and no cache entry.\<close>

theorem build_link_tasks_spec:
  assumes "build_link_tasks (has_seen_canonical e) (task_count e) cfg j links depth s = (Ok ts, s')"
  shows "ts = (let plan = map (\<lambda>l. new_task l l depth TaskStatusQueued)
         (filter (\<lambda>l. \<not> (cc_dedupe_cache (c_crawl cfg) \<and> seen_before l s))
            (first_occ [] (filter (\<lambda>v. v \<noteq> '''') links)));
       limit = jd_max_tasks (c_job_defaults cfg)
     in if limit > 0 then take (nat (limit - job_size j s)) plan else plan)
     \<and> tasks s' = tasks s \<and> dedupe_cache s' = dedupe_cache s"
proof -
  have "planner.skips s = (\<lambda>u. seen_before u s)" by (rule ext) (simp add: planner.skips_def seen_before_def)
  with planner.build_link_tasks_Ok [OF assms] show ?thesis by (auto simp: planner.planned_def Let_def)
qed

text \<open>C22: A worker that plans the links of a page and inserts the planned tasks, with nobody inserting in between,
  never takes the job beyond its task limit: it ends with at most the larger of the limit and the
  number of tasks it had.\<close>

theorem planned_tasks_respect_limit:
  assumes "build_link_tasks (has_seen_canonical e) (task_count e) cfg j links depth s = (Ok ts, s1)"
    and "insert_tasks e c j ts s1 = (Ok (), s2)" and "0 < jd_max_tasks (c_job_defaults cfg)"
  shows "job_size j s2 \<le> max (jd_max_tasks (c_job_defaults cfg)) (job_size j s)"
proof -
  obtain plan where ts: "ts = take (nat (jd_max_tasks (c_job_defaults cfg) - job_size j s)) plan"
    and s1: "tasks s1 = tasks s"
    using planner.build_link_tasks_Ok [OF assms(1)] assms(3) by auto
  obtain new where new: "tasks s2 = tasks s1 @ new"
    "map t_final_url new = first_occ (urls_of j (tasks s1)) (map t_final_url ts)"
    using insert_tasks_Ok [OF assms(2)] by blast
  have "length new \<le> length ts"
    using length_first_occ [of "urls_of j (tasks s1)" "map t_final_url ts"] new(2)
    by (metis length_map)
  then have "length new \<le> nat (jd_max_tasks (c_job_defaults cfg) - job_size j s)" by (simp add: ts)
  then have "length (filter (\<lambda>t. t_job t = j) new) \<le> nat (jd_max_tasks (c_job_defaults cfg) - job_size j s)"
    using length_filter_le le_trans by blast
  then have "int (length (filter (\<lambda>t. t_job t = j) new)) \<le> max 0 (jd_max_tasks (c_job_defaults cfg) - job_size j s)"
    by linarith
  moreover have "job_size j s2 = job_size j s + int (length (filter (\<lambda>t. t_job t = j) new))"
    by (simp add: new(1) s1)
  ultimately show ?thesis by linarith
qed

definition demo_limit :: config where
  "demo_limit = demo_config\<lparr>c_job_defaults := (c_job_defaults default_config)\<lparr>jd_max_tasks := 3\<rparr>\<rparr>"

abbreviation (input) demo_plan :: "string list \<Rightarrow> db \<Rightarrow> task list res \<times> db" where
  "demo_plan links s \<equiv> build_link_tasks (has_seen_canonical demo_env) (task_count demo_env) demo_limit ''j'' links 1 s"

theorem build_link_tasks_spec_witness:
  "fst (demo_plan [''http://h.org/'', ''x'', '''', ''x'', ''y'', ''z''] demo_cached) =
     Ok [new_task ''x'' ''x'' 1 TaskStatusQueued]"
proof -
  let ?r = "demo_plan [''http://h.org/'', ''x'', '''', ''x'', ''y'', ''z''] demo_cached"
  have "is_ok (fst ?r)" by code_simp
  then have "?r = (Ok (projr (fst ?r)), snd ?r)" by (auto simp: is_ok_def prod_eq_iff split: sum.splits)
  from build_link_tasks_spec [OF this]
  have "projr (fst ?r) = [new_task ''x'' ''x'' 1 TaskStatusQueued]" by code_simp
  with \<open>?r = _\<close> show ?thesis by (metis fst_conv)
qed

theorem planned_tasks_respect_limit_witness:
  "job_size ''j'' (snd (insert_tasks demo_env Pool ''j'' (projr (fst (demo_plan [''x'', ''y''] demo_cached)))
      (snd (demo_plan [''x'', ''y''] demo_cached)))) \<le> 3"
proof -
  let ?r = "demo_plan [''x'', ''y''] demo_cached"
  let ?q = "insert_tasks demo_env Pool ''j'' (projr (fst ?r)) (snd ?r)"
  have "is_ok (fst ?r)" "fst ?q = Ok ()" by code_simp+
  then have r: "?r = (Ok (projr (fst ?r)), snd ?r)" "?q = (Ok (), snd ?q)"
    by (auto simp: is_ok_def prod_eq_iff split: sum.splits)
  have "0 < jd_max_tasks (c_job_defaults demo_limit)" "jd_max_tasks (c_job_defaults demo_limit) = 3"
    "job_size ''j'' demo_cached = 2" by code_simp+
  then show ?thesis using planned_tasks_respect_limit [OF r] by simp
qed

text \<open>The count and the insertion are separate statements, so two workers of one job can exceed its task limit:
  with a limit of three and two tasks, both plan one task before either inserts, and the job
  ends with four.\<close>

theorem concurrent_planning_exceeds_limit:
  "let (r1, s1) = demo_plan [''x''] demo_cached; (r2, s2) = demo_plan [''y''] s1;
       s3 = ignoring (insert_tasks demo_env Pool ''j'' (projr r1)) s2;
       s4 = ignoring (insert_tasks demo_env Pool ''j'' (projr r2)) s3
   in is_ok r1 \<and> is_ok r2 \<and> jd_max_tasks (c_job_defaults demo_limit) = 3 \<and> job_size ''j'' s4 = 4"
  by code_simp

section \<open>Filtering well-formed links\<close>

lemma hostname_wf:
  assumes "list_all safe_host_char h" and "port_ok port" and "h \<noteq> ''''" and "u_host u = h @ port"
  shows "hostname u = h"
proof -
  have c: "CHR '':'' \<notin> set h" "CHR ''['' \<notin> set h"
    using assms(1) safe_char_facts(1) by (auto simp: list_all_iff)
  then have b: "strip_brackets h = h" by (cases h) (auto simp: strip_brackets_def has_prefix_def)
  show ?thesis
  proof (cases "port = ''''")
    case True
    then show ?thesis using assms c b by (simp add: hostname_def cut_last_notin)
  next
    case False
    then obtain ds where p: "port = CHR '':'' # ds" "list_all is_digit ds" using assms(2) by (auto simp: port_ok_iff)
    then have "CHR '':'' \<notin> set ds" using safe_char_facts(4) by (auto simp: list_all_iff)
    then have "cut_last (CHR '':'') (h @ CHR '':'' # ds) = Some (h, ds)" by (rule cut_last_append)
    then show ?thesis using assms p b by (simp add: hostname_def valid_optional_port_def)
  qed
qed

lemma worker_strip_wf:
  assumes "wf_parts sch h port p q f" and "u_scheme u = to_lower sch" and "u_host u = h @ port"
  shows "worker_strip_default_port u = h @ kept_port sch port"
proof -
  have po: "port_ok port" and h: "list_all safe_host_char h"
    and sc: "to_lower sch \<in> {''http'', ''https''}" using assms(1) by (auto simp: wf_parts_def)
  have t: "trim_suffix (h @ port) (default_port (to_lower sch)) = h @ kept_port sch port"
    using trim_port [OF h po, of "default_port (to_lower sch)"] sc
    by (auto simp: default_port_def kept_port_def)
  then show ?thesis using sc assms(2,3)
    by (auto simp: worker_strip_default_port_def Let_def default_port_def)
qed

lemma filter_link_wf:
  assumes wf: "wf_parts sch h port p q f"
    and trimmed: "trim_space (url_of sch h port p q f) = url_of sch h port p q f"
  shows "filter_link cc base bh sd (url_of sch h port p q f) =
    (if is_allowed_scheme (to_lower sch) (cc_allowed_schemes cc)
        \<and> (sd \<longrightarrow> same_host_or_subdomain bh (to_lower h))
        \<and> \<not> is_blocked_ext (to_lower (path_ext p)) (cc_block_extensions cc)
     then Some (url_of (to_lower sch) (to_lower h) (kept_port sch port) (clean_path p)
            (if cc_strip_query cc then '''' else q) '''')
     else None)"
proof -
  let ?q = "if cc_strip_query cc then '''' else q" and ?k = "kept_port sch port"
  obtain rf where pr: "url_parse (url_of sch h port p q f) =
    Ok (empty_url\<lparr>u_scheme := to_lower sch, u_host := h @ port, u_path := p, u_raw_query := q,
                  u_fragment := f, u_raw_fragment := rf\<rparr>)"
    using url_parse_wf [OF wf] by blast
  note w = wf [unfolded wf_parts_def list_all_iff]
  have sch: "to_lower sch \<noteq> ''''" using w by auto
  have pk: "port_ok ?k" using w by (auto simp: kept_port_def port_ok_iff)
  have wfk: "wf_parts (to_lower sch) h ?k p ?q ''''"
    using wf_parts_canonical [OF wf, of True] wf pk by (simp add: wf_parts_def)
  let ?u1 = "empty_url\<lparr>u_scheme := to_lower sch, u_host := h @ port, u_path := p, u_raw_query := q,
                  u_fragment := f, u_raw_fragment := rf\<rparr>"
  have strip: "worker_strip_default_port ?u1 = h @ ?k"
    by (rule worker_strip_wf [OF wf]) simp_all
  have host: "hostname (?u1\<lparr>u_host := h @ ?k\<rparr>) = h"
    by (rule hostname_wf) (use w pk in \<open>auto simp: list_all_iff\<close>)
  have nh: "\<forall>c \<in> set (h @ ?k). \<not> should_escape EncodeHost c"
  proof
    fix c assume "c \<in> set (h @ ?k)"
    then consider "c \<in> set h" | "c \<in> set port" by (auto simp: kept_port_def split: if_splits)
    then show "\<not> should_escape EncodeHost c"
    proof cases
      case 1
      then show ?thesis using w safe_no_escape(1) by blast
    next
      case 2
      then have "c = CHR '':'' \<or> is_digit c" using w by (auto simp: port_ok_iff list_all_iff)
      then show ?thesis using safe_no_escape(2,3) by blast
    qed
  qed
  have str: "url_string (empty_url\<lparr>u_scheme := to_lower sch, u_host := h @ ?k, u_path := p, u_raw_query := ?q,
      u_raw_fragment := rf\<rparr>) = url_of (to_lower sch) h ?k p ?q ''''"
  proof -
    have "url_string (empty_url\<lparr>u_scheme := to_lower sch, u_host := h @ ?k, u_path := p, u_raw_query := ?q,
      u_raw_fragment := rf\<rparr>) = to_lower sch @ ''://'' @ (h @ ?k) @ p @ query_part ?q"
      by (rule url_string_safe) (use w nh sch in \<open>simp_all add: list_all_iff\<close>, blast)
    then show ?thesis by (simp add: url_of_def frag_part_def)
  qed
  have rec: "?u1\<lparr>u_host := h @ ?k, u_raw_query := ?q, u_fragment := ''''\<rparr> =
      empty_url\<lparr>u_scheme := to_lower sch, u_host := h @ ?k, u_path := p, u_raw_query := ?q, u_raw_fragment := rf\<rparr>"
    by (simp add: empty_url_def)
  have canon: "canonicalize (url_of (to_lower sch) h ?k p ?q '''') (cc_strip_query cc) =
      Ok (url_of (to_lower sch) (to_lower h) ?k (clean_path p) ?q '''')"
    using canonicalize_closed_form [OF wfk] by (simp add: kept_port_def)
  have ne: "url_of sch h port p q f \<noteq> ''''" by (simp add: url_of_def)
  have q3: "(if cc_strip_query cc then ?u1\<lparr>u_host := h @ ?k, u_raw_query := ''''\<rparr> else ?u1\<lparr>u_host := h @ ?k\<rparr>)\<lparr>u_fragment := ''''\<rparr> =
      empty_url\<lparr>u_scheme := to_lower sch, u_host := h @ ?k, u_path := p, u_raw_query := ?q, u_raw_fragment := rf\<rparr>"
    by (simp add: empty_url_def)
  have sel: "u_scheme ?u1 = to_lower sch"
    "u_path (empty_url\<lparr>u_scheme := to_lower sch, u_host := h @ ?k, u_path := p,
      u_raw_query := ?q, u_raw_fragment := rf\<rparr>) = p" "is_abs ?u1"
    using sch by (simp_all add: is_abs_def)
  show ?thesis
    by (simp only: filter_link_def Let_def trimmed pr sum.case if_False if_True not_True_eq_False ne sel(3) sel(1) strip host q3 sel(2) str canon)
      (simp split: if_splits)
qed

record link_parts =
  lp_scheme :: string
  lp_host :: string
  lp_port :: string
  lp_path :: string
  lp_query :: string
  lp_frag :: string

definition link_of :: "link_parts \<Rightarrow> string" where
  "link_of l = url_of (lp_scheme l) (lp_host l) (lp_port l) (lp_path l) (lp_query l) (lp_frag l)"

definition link_ok :: "link_parts \<Rightarrow> bool" where
  "link_ok l \<longleftrightarrow> wf_parts (lp_scheme l) (lp_host l) (lp_port l) (lp_path l) (lp_query l) (lp_frag l)
     \<and> trim_space (link_of l) = link_of l"

definition link_kept :: "crawl_config \<Rightarrow> bool \<Rightarrow> string \<Rightarrow> link_parts \<Rightarrow> bool" where
  "link_kept cc sd bh l \<longleftrightarrow> is_allowed_scheme (to_lower (lp_scheme l)) (cc_allowed_schemes cc)
     \<and> (sd \<longrightarrow> same_host_or_subdomain bh (to_lower (lp_host l)))
     \<and> \<not> is_blocked_ext (to_lower (path_ext (lp_path l))) (cc_block_extensions cc)"

definition link_key :: "crawl_config \<Rightarrow> link_parts \<Rightarrow> string" where
  "link_key cc l = url_of (to_lower (lp_scheme l)) (to_lower (lp_host l)) (kept_port (lp_scheme l) (lp_port l))
     (clean_path (lp_path l)) (if cc_strip_query cc then '''' else lp_query l) ''''"

lemma filter_link_ok:
  "link_ok l \<Longrightarrow>
   filter_link cc base bh sd (link_of l) = (if link_kept cc sd bh l then Some (link_key cc l) else None)"
  unfolding link_ok_def link_of_def link_kept_def link_key_def by (intro filter_link_wf) auto

lemma filter_links_wf:
  assumes "wf_parts sch h port p q f" and "\<forall>l \<in> set ls. link_ok l"
  shows "filter_links (url_of sch h port p q f) (map link_of ls) sd cfg =
    map (link_key (c_crawl cfg)) (filter (link_kept (c_crawl cfg) sd (to_lower h @ kept_port sch port)) ls)"
proof -
  obtain rf where pr: "url_parse (url_of sch h port p q f) =
    Ok (empty_url\<lparr>u_scheme := to_lower sch, u_host := h @ port, u_path := p, u_raw_query := q,
                  u_fragment := f, u_raw_fragment := rf\<rparr>)" (is "_ = Ok ?b")
    using url_parse_wf [OF assms(1)] by blast
  have "to_lower (kept_port sch port) = kept_port sch port"
    using assms(1) to_lower_port [of port] by (simp add: wf_parts_def kept_port_def)
  then have bh: "to_lower (worker_strip_default_port ?b) = to_lower h @ kept_port sch port"
    by (subst worker_strip_wf [OF assms(1)]) simp_all
  have "filter_loop cc base bh sd (map link_of ls) = map (link_key cc) (filter (link_kept cc sd bh) ls)" for cc base bh
    using assms(2)
    by (induction ls) (simp_all add: filter_link_ok)
  then show ?thesis by (simp add: filter_links_def pr bh)
qed


text \<open>When the job stays on one domain and the page's URL has a port that is not the default one of its scheme, the
  filter drops every well-formed absolute link, also those to the page's own host and port: the
  page's host is compared with its port, the link's host without it.\<close>

theorem same_domain_with_port_keeps_nothing:
  assumes "wf_parts sch h port p q f" and "\<forall>l \<in> set ls. link_ok l" and "kept_port sch port \<noteq> ''''"
  shows "filter_links (url_of sch h port p q f) (map link_of ls) True cfg = []"
proof -
  have "\<not> same_host_or_subdomain (to_lower h @ kept_port sch port) (to_lower (lp_host l))" if "l \<in> set ls" for l
  proof
    assume s: "same_host_or_subdomain (to_lower h @ kept_port sch port) (to_lower (lp_host l))"
    have "CHR '':'' \<in> set (kept_port sch port)"
      using assms(1,3) by (auto simp: wf_parts_def kept_port_def port_ok_iff split: if_splits)
    then have "CHR '':'' \<in> set (to_lower (lp_host l))"
      using s by (auto simp: same_host_or_subdomain_def has_suffix_iff split: if_splits)
        (metis UnCI list.set_intros(2) set_append)+
    moreover have "list_all safe_host_char (to_lower (lp_host l))"
      using assms(2) that by (auto simp: link_ok_def wf_parts_def list_all_iff to_lower_def intro: safe_host_lower)
    ultimately show False using safe_char_facts(1) by (auto simp: list_all_iff)
  qed
  then show ?thesis
    unfolding filter_links_wf [OF assms(1,2)] by (auto simp: filter_empty_conv link_kept_def)
qed

definition demo_links :: "link_parts list" where
  "demo_links = [\<lparr>lp_scheme = ''HTTP'', lp_host = ''A.h.org'', lp_port = '':80'', lp_path = ''/x/../y/'', lp_query = ''q'', lp_frag = ''f''\<rparr>,
     \<lparr>lp_scheme = ''http'', lp_host = ''h.org'', lp_port = '':8080'', lp_path = ''/f.PDF'', lp_query = '''', lp_frag = ''''\<rparr>,
     \<lparr>lp_scheme = ''http'', lp_host = ''xh.org'', lp_port = '''', lp_path = ''/'', lp_query = '''', lp_frag = ''''\<rparr>]"


theorem same_domain_with_port_keeps_nothing_witness:
  "filter_links (url_of ''http'' ''h.org'' '':8080'' ''/'' '''' '''')
     (map link_of [\<lparr>lp_scheme = ''http'', lp_host = ''h.org'', lp_port = '':8080'', lp_path = ''/a'', lp_query = '''', lp_frag = ''''\<rparr>])
     True default_config = []"
proof (rule same_domain_with_port_keeps_nothing)
  show "wf_parts ''http'' ''h.org'' '':8080'' ''/'' '''' ''''" by code_simp
  show "\<forall>l \<in> set [\<lparr>lp_scheme = ''http'', lp_host = ''h.org'', lp_port = '':8080'', lp_path = ''/a'', lp_query = '''', lp_frag = ''''\<rparr>].
      link_ok l" by code_simp
  show "kept_port ''http'' '':8080'' \<noteq> ''''" by code_simp
qed

end
