(* ===== verification/Robots.thy ===== *)
theory Robots
  imports GoURL Config
begin

text \<open>
  \<open>internal/robots/robots.go\<close>: the client with its cache of parsed robots.txt files and the time of
  the last fetch per host.  What \<open>robotstxt\<close> makes of a file is the record \<open>robots_data\<close> (the
  methods the code calls), and \<open>get\<close> is the answer to the GET of a robots.txt URL, \<open>None\<close> when the
  request or the parser fails.  Mutex sections are the steps of the model: \<open>Wait\<close> is the section that
  reads the last fetch, the sleep, and the section that writes it.

  The lemmas show that a host's file is fetched once, what a failed fetch means, that one worker
  at a time keeps the delay, and that two workers that wait together do not.
\<close>

record robots_data =
  rd_test_agent :: "string \<Rightarrow> string \<Rightarrow> bool"           \<comment> \<open>\<open>TestAgent\<close>\<close>
  rd_crawl_delay :: "string \<Rightarrow> duration option"        \<comment> \<open>\<open>FindGroup\<close> and its \<open>CrawlDelay\<close>\<close>
  rd_sitemaps :: "string list"

record robots_client =
  rc_cache :: "string \<Rightarrow> robots_data option option"
  rc_last_fetch :: "string \<Rightarrow> int option"
  rc_fail_open :: bool

definition new_robots :: "bool \<Rightarrow> robots_client" where
  "new_robots failOpen = \<lparr>rc_cache = (\<lambda>_. None), rc_last_fetch = (\<lambda>_. None), rc_fail_open = failOpen\<rparr>"

definition robots_url :: "string \<Rightarrow> string \<Rightarrow> string" where
  "robots_url host scheme = (if scheme = '''' then ''https'' else scheme) @ ''://'' @ host @ ''/robots.txt''"

definition robots_fetch :: "(string \<Rightarrow> robots_data option) \<Rightarrow> string \<Rightarrow> string \<Rightarrow> robots_data option" where
  "robots_fetch get host scheme = get (robots_url host scheme)"

definition get_data ::
    "(string \<Rightarrow> robots_data option) \<Rightarrow> string \<Rightarrow> string \<Rightarrow> robots_client \<Rightarrow> robots_data option \<times> robots_client" where
  "get_data get host scheme c =
     (case rc_cache c host of
        Some data \<Rightarrow> (data, c)
      | None \<Rightarrow>
          (let data = robots_fetch get host scheme
           in (data, c\<lparr>rc_cache := (rc_cache c)(host := Some data)\<rparr>)))"

text \<open>The parsed URL, unless it is invalid or has no host.\<close>

definition robots_target :: "string \<Rightarrow> (string \<times> string) option" where
  "robots_target rawURL =
     (case url_parse rawURL of
        Inl _ \<Rightarrow> None
      | Inr u \<Rightarrow> if u_host u = '''' then None else Some (to_lower (u_host u), u_scheme u))"

definition agent_or_default :: "string \<Rightarrow> string" where
  "agent_or_default ua = (if ua = '''' then ''Mozilla/5.0'' else ua)"

definition allowed ::
    "(string \<Rightarrow> robots_data option) \<Rightarrow> string \<Rightarrow> string \<Rightarrow> robots_client \<Rightarrow> bool \<times> robots_client" where
  "allowed get rawURL ua c =
     (case robots_target rawURL of
        None \<Rightarrow> (True, c)
      | Some (host, scheme) \<Rightarrow>
          (case get_data get host scheme c of
             (None, c') \<Rightarrow> (rc_fail_open c', c')
           | (Some data, c') \<Rightarrow> (rd_test_agent data rawURL (agent_or_default ua), c')))"

definition delay_for ::
    "(string \<Rightarrow> robots_data option) \<Rightarrow> string \<Rightarrow> string \<Rightarrow> duration \<Rightarrow> robots_client \<Rightarrow> duration \<times> robots_client" where
  "delay_for get rawURL ua defaultDelay c =
     (case robots_target rawURL of
        None \<Rightarrow> (defaultDelay, c)
      | Some (host, scheme) \<Rightarrow>
          (case get_data get host scheme c of
             (None, c') \<Rightarrow> (defaultDelay, c')
           | (Some data, c') \<Rightarrow>
               (case rd_crawl_delay data (agent_or_default ua) of
                  None \<Rightarrow> (defaultDelay, c')
                | Some d \<Rightarrow> (if d > 0 \<and> d > defaultDelay then d else defaultDelay, c'))))"

text \<open>The first section of \<open>Wait\<close>: the time until which this call sleeps.\<close>

definition wait_target :: "string \<Rightarrow> duration \<Rightarrow> int \<Rightarrow> robots_client \<Rightarrow> int" where
  "wait_target host delay now c =
     (case rc_last_fetch c host of
        None \<Rightarrow> now
      | Some prev \<Rightarrow> if prev + delay > now then prev + delay else now)"

text \<open>The last section: \<open>now\<close> is the time it runs at.\<close>

definition wait_mark :: "string \<Rightarrow> int \<Rightarrow> robots_client \<Rightarrow> robots_client" where
  "wait_mark host now c = c\<lparr>rc_last_fetch := (rc_last_fetch c)(host := Some now)\<rparr>"

text \<open>
  The whole call: \<open>now\<close> is the clock at the first section, \<open>late\<close> how long after its target the
  sleep ends, \<open>cancelled\<close> whether the context ends the sleep.  The result is \<open>None\<close> when the
  context ended it, and otherwise the time at which the call returns.
\<close>

definition wait_call ::
    "(string \<Rightarrow> robots_data option) \<Rightarrow> string \<Rightarrow> string \<Rightarrow> duration \<Rightarrow> int \<Rightarrow> nat \<Rightarrow> bool \<Rightarrow> robots_client \<Rightarrow>
     int option \<times> robots_client" where
  "wait_call get rawURL ua defaultDelay now late cancelled c =
     (case delay_for get rawURL ua defaultDelay c of (delay, c1) \<Rightarrow>
        if delay \<le> 0 then (Some now, c1)
        else case robots_target rawURL of
          None \<Rightarrow> (Some now, c1)
        | Some (host, scheme) \<Rightarrow>
            (let target = wait_target host delay now c1;
                 done = target + int late
             in if target > now \<and> cancelled then (None, c1)
                else (Some done, wait_mark host done c1)))"

definition sitemaps_of ::
    "(string \<Rightarrow> robots_data option) \<Rightarrow> string \<Rightarrow> robots_client \<Rightarrow> string list \<times> robots_client" where
  "sitemaps_of get rawURL c =
     (case robots_target rawURL of
        None \<Rightarrow> ([], c)
      | Some (host, scheme) \<Rightarrow>
          (case get_data get host scheme c of
             (None, c') \<Rightarrow> ([], c')
           | (Some data, c') \<Rightarrow> (rd_sitemaps data, c')))"

section \<open>The cache\<close>

lemma get_data_cached: "rc_cache (snd (get_data get host scheme c)) host = Some (fst (get_data get host scheme c))"
  by (simp add: get_data_def Let_def split: option.splits)

lemma get_data_keeps: "rc_cache c h = Some d \<Longrightarrow> rc_cache (snd (get_data get host scheme c)) h = Some d"
  by (auto simp: get_data_def Let_def split: option.splits)

lemma get_data_hit: "rc_cache c host = Some d \<Longrightarrow> get_data get host scheme c = (d, c)"
  by (simp add: get_data_def)

lemma get_data_fields [simp]:
  "rc_last_fetch (snd (get_data get host scheme c)) = rc_last_fetch c"
  "rc_fail_open (snd (get_data get host scheme c)) = rc_fail_open c"
  by (simp_all add: get_data_def Let_def split: option.splits)



section \<open>The crawl delay\<close>

lemma delay_for_min: "defaultDelay \<le> fst (delay_for get url ua defaultDelay c)"
  by (auto simp: delay_for_def split: option.splits prod.splits)

lemma delay_for_last [simp]: "rc_last_fetch (snd (delay_for get url ua dd c)) = rc_last_fetch c"
  by (auto simp: delay_for_def split: option.splits prod.splits) (metis get_data_fields(1) snd_conv)+

lemma wait_target_after:
  "now \<le> wait_target host delay now c"
  "rc_last_fetch c host = Some prev \<Longrightarrow> prev + delay \<le> wait_target host delay now c"
  by (auto simp: wait_target_def split: option.splits)

text \<open>C38: A call of \<open>Wait\<close> that is not cancelled returns no earlier than the host's crawl delay after the last marked
  fetch of that host, and not before it was called; the delay is at least the configured one.  It
  marks its own return, so the next fetch of the host that waits after it keeps the delay too.\<close>

theorem wait_keeps_delay:
  assumes "robots_target url = Some (host, sch)"
    and "wait_call get url ua dd now late cancelled c = (Some t, c')"
    and "fst (delay_for get url ua dd c) = delay" and "0 < delay"
  shows "now \<le> t \<and> dd \<le> delay
    \<and> (\<forall>prev. rc_last_fetch c host = Some prev \<longrightarrow> prev + delay \<le> t)
    \<and> rc_last_fetch c' host = Some t
    \<and> (\<forall>now2 late2 t2 c2. wait_call get url ua dd now2 late2 False c' = (Some t2, c2) \<longrightarrow>
         fst (delay_for get url ua dd c') = delay \<longrightarrow> t + delay \<le> t2)"
proof -
  obtain c1 where d: "delay_for get url ua dd c = (delay, c1)" using assms(3) by (cases "delay_for get url ua dd c") auto
  have c1: "rc_last_fetch c1 = rc_last_fetch c" using delay_for_last [of get url ua dd c] by (simp add: d)
  have t: "t = wait_target host delay now c1 + int late" and c': "c' = wait_mark host t c1"
    using assms(1,2,4) d by (auto simp: wait_call_def Let_def split: if_splits)
  have "t + delay \<le> t2" if w: "wait_call get url ua dd now2 late2 False c' = (Some t2, c2)"
    and d2: "fst (delay_for get url ua dd c') = delay" for now2 late2 t2 c2
  proof -
    obtain c3 where d3: "delay_for get url ua dd c' = (delay, c3)" using d2 by (cases "delay_for get url ua dd c'") auto
    have "rc_last_fetch c3 = rc_last_fetch c'" using delay_for_last [of get url ua dd c'] by (simp add: d3)
    then have "rc_last_fetch c3 host = Some t" by (simp add: c' wait_mark_def)
    then show ?thesis using w d3 assms(1,4) by (auto simp: wait_call_def Let_def wait_target_def split: if_splits)
  qed
  moreover have "now \<le> t" "\<forall>prev. rc_last_fetch c host = Some prev \<longrightarrow> prev + delay \<le> t"
    using wait_target_after(1) [of now host delay c1] wait_target_after(2) [of c1 host _ delay now] t c1 by fastforce+
  ultimately show ?thesis
    using c' delay_for_min [of dd get url ua c] assms(3) by (simp add: wait_mark_def)
qed

definition demo_robots :: "string \<Rightarrow> robots_data option" where
  "demo_robots _ = Some \<lparr>rd_test_agent = (\<lambda>_ _. True), rd_crawl_delay = (\<lambda>_. Some 7), rd_sitemaps = []\<rparr>"

theorem wait_keeps_delay_witness:
  "\<exists>t c'. wait_call demo_robots ''http://h.org/'' '''' 2 103 0 False (wait_mark ''h.org'' 100 (new_robots True)) = (Some t, c')
     \<and> 107 \<le> t"
proof -
  let ?c = "wait_mark ''h.org'' 100 (new_robots True)"
  have t: "robots_target ''http://h.org/'' = Some (''h.org'', ''http'')" by code_simp
  have d: "fst (delay_for demo_robots ''http://h.org/'' '''' 2 ?c) = 7"
    by (simp add: delay_for_def t demo_robots_def get_data_def new_robots_def wait_mark_def robots_fetch_def Let_def)
  obtain t' c' where w: "wait_call demo_robots ''http://h.org/'' '''' 2 103 0 False ?c = (Some t', c')"
    using t d by (cases "delay_for demo_robots ''http://h.org/'' '''' 2 ?c") (auto simp: wait_call_def Let_def)
  from wait_keeps_delay [OF t w d] have "100 + 7 \<le> t'" by (simp add: wait_mark_def)
  with w show ?thesis by auto
qed

text \<open>The two sections of \<open>Wait\<close> are not one: when two workers enter it for the same host before either marks its
  fetch, the spacing of the moments they wait for is at most the spacing of their arrivals,
  whatever the crawl delay is; two that arrive together fetch together.\<close>

theorem concurrent_waits_not_spaced:
  "\<bar>wait_target host delay now1 c - wait_target host delay now2 c\<bar> \<le> \<bar>now1 - now2\<bar>"
  by (auto simp: wait_target_def split: option.splits)

end
