(* ===== verification/GoFloats.thy ===== *)
theory GoFloats
  imports Complex_Main Prelude
begin

text \<open>
  Go's \<open>float64\<close>: numbers of 53 significant bits, where every operation rounds its exact result to the nearest
  one, to the even one of two that are equally near.  The two zeros are one; \<open>Infinite True\<close> is the negative infinity.
\<close>

datatype go_float = Finite rat | NaN | Infinite bool

section \<open>Rounding\<close>

definition nearest_even :: "rat \<Rightarrow> int" where
  "nearest_even x =
     (let f = \<lfloor>x\<rfloor>; d = x - of_int f in if d < 1 / 2 \<or> d = 1 / 2 \<and> even f then f else f + 1)"

function bits :: "int \<Rightarrow> int" where
  "bits n = (if n \<le> 0 then 0 else 1 + bits (n div 2))"
  by pat_completeness auto
termination by (relation "measure nat") simp_all

declare bits.simps [simp del]

text \<open>The exponent of the leading bit, and the one of the last bit that a float can have.\<close>

definition exponent :: "rat \<Rightarrow> int" where
  "exponent x =
     (case quotient_of \<bar>x\<bar> of (p, q) \<Rightarrow>
        let e = bits p - bits q in if 2 powi e \<le> \<bar>x\<bar> then e else e - 1)"

definition last_bit :: "rat \<Rightarrow> int" where
  "last_bit x = max (exponent x - 52) (- 1074)"

definition round_float :: "rat \<Rightarrow> go_float" where
  "round_float x =
     (let u = 2 powi last_bit x; y = of_int (nearest_even (x / u)) * u
      in if 1024 \<le> exponent y then Infinite (x < 0) else Finite y)"

section \<open>Operations\<close>

fun fneg :: "go_float \<Rightarrow> go_float" where
  "fneg (Finite x) = Finite (- x)"
| "fneg NaN = NaN"
| "fneg (Infinite s) = Infinite (\<not> s)"

fun fadd :: "go_float \<Rightarrow> go_float \<Rightarrow> go_float" where
  "fadd (Finite x) (Finite y) = round_float (x + y)"
| "fadd (Infinite s) (Infinite t) = (if s = t then Infinite s else NaN)"
| "fadd (Infinite s) (Finite y) = Infinite s"
| "fadd (Finite x) (Infinite t) = Infinite t"
| "fadd NaN b = NaN"
| "fadd a NaN = NaN"

definition fsub :: "go_float \<Rightarrow> go_float \<Rightarrow> go_float" where
  "fsub a b = fadd a (fneg b)"

fun fmul :: "go_float \<Rightarrow> go_float \<Rightarrow> go_float" where
  "fmul (Finite x) (Finite y) = round_float (x * y)"
| "fmul (Infinite s) (Infinite t) = Infinite (s \<noteq> t)"
| "fmul (Infinite s) (Finite y) = (if y = 0 then NaN else Infinite (s \<noteq> (y < 0)))"
| "fmul (Finite x) (Infinite t) = (if x = 0 then NaN else Infinite (t \<noteq> (x < 0)))"
| "fmul NaN b = NaN"
| "fmul a NaN = NaN"

fun fgreater :: "go_float \<Rightarrow> go_float \<Rightarrow> bool" where
  "fgreater (Finite x) (Finite y) \<longleftrightarrow> y < x"
| "fgreater (Infinite s) (Infinite t) \<longleftrightarrow> \<not> s \<and> t"
| "fgreater (Infinite s) (Finite y) \<longleftrightarrow> \<not> s"
| "fgreater (Finite x) (Infinite t) \<longleftrightarrow> t"
| "fgreater NaN b \<longleftrightarrow> False"
| "fgreater a NaN \<longleftrightarrow> False"

definition float_of_int :: "int \<Rightarrow> go_float" where
  "float_of_int n = round_float (of_int n)"

text \<open>\<open>math.Pow(2, k)\<close> for an integer \<open>k\<close> that is not negative: exact until it overflows.\<close>

definition pow_two :: "int \<Rightarrow> go_float" where
  "pow_two k = (if k < 1024 then Finite (2 ^ nat k) else Infinite False)"

text \<open>The conversion to \<open>int64\<close> drops the fraction; Go leaves open what it makes of a float that does not
  fit: \<open>outside\<close>.\<close>

fun int64_of :: "(go_float \<Rightarrow> int) \<Rightarrow> go_float \<Rightarrow> int" where
  "int64_of outside (Finite x) =
     (let n = (if 0 \<le> x then \<lfloor>x\<rfloor> else - \<lfloor>- x\<rfloor>) in if - (2 ^ 63) \<le> n \<and> n < 2 ^ 63 then n else outside (Finite x))"
| "int64_of outside f = outside f"

text \<open>On amd64 it is the smallest number.\<close>

definition amd64 :: "go_float \<Rightarrow> int" where
  "amd64 f = - (2 ^ 63)"

section \<open>What rounding does\<close>

lemma nearest_even_error: "\<bar>of_int (nearest_even x) - x\<bar> \<le> 1 / 2"
  using floor_correct [of x] by (auto simp: nearest_even_def Let_def abs_le_iff)

lemma nearest_even_int [simp]: "nearest_even (of_int n) = n"
  by (simp add: nearest_even_def)

lemma nearest_even_nonneg: "0 \<le> x \<Longrightarrow> 0 \<le> nearest_even x"
  by (auto simp: nearest_even_def Let_def)

lemma bits_bounds: "0 < n \<Longrightarrow> 2 ^ nat (bits n - 1) \<le> n \<and> n < 2 ^ nat (bits n) \<and> 0 < bits n"
proof (induction n rule: bits.induct)
  case (1 n)
  have b: "bits n = 1 + bits (n div 2)" using 1(2) by (simp add: bits.simps [of n])
  show ?case
  proof (cases "n div 2 \<le> 0")
    case True
    have "bits 0 = 0" by (simp add: bits.simps [of 0])
    moreover have n: "n = 1" using True 1(2) by simp
    ultimately have "bits n = 1" by (simp add: bits.simps [of 1])
    then show ?thesis by (simp add: n)
  next
    case False
    then have IH: "2 ^ nat (bits (n div 2) - 1) \<le> n div 2" "n div 2 < 2 ^ nat (bits (n div 2))" "0 < bits (n div 2)"
      using 1 by auto
    have p: "nat (bits (n div 2)) = Suc (nat (bits (n div 2) - 1))" using IH(3) by simp
    have "2 * (n div 2) \<le> n" "n \<le> 2 * (n div 2) + 1" by simp_all
    then have "2 ^ nat (bits (n div 2)) \<le> n" "n < 2 * 2 ^ nat (bits (n div 2))"
      using IH(1,2) unfolding p by (simp_all only: power_Suc)
    moreover have "nat (bits n) = Suc (nat (bits (n div 2)))" using IH(3) by (simp add: b)
    ultimately show ?thesis using IH(3) by (simp add: b)
  qed
qed

lemma exponent_bounds:
  assumes "x \<noteq> 0"
  shows "2 powi exponent x \<le> \<bar>x\<bar>" and "\<bar>x\<bar> < 2 powi (exponent x + 1)"
proof -
  obtain p q where q: "quotient_of \<bar>x\<bar> = (p, q)" by (cases "quotient_of \<bar>x\<bar>")
  have x: "\<bar>x\<bar> = of_int p / of_int q" and q0: "0 < q"
    using quotient_of_div [OF q] quotient_of_denom_pos [OF q] by auto
  have "0 < \<bar>x\<bar>" using assms by simp
  then have p0: "0 < p" using q0 unfolding x by (simp add: zero_less_divide_iff)
  define a b where "a = nat (bits p)" and "b = nat (bits q)"
  have a: "2 ^ (a - 1) \<le> (of_int p :: rat)" "of_int p < (2 ^ a :: rat)" "0 < a"
    and b: "2 ^ (b - 1) \<le> (of_int q :: rat)" "of_int q < (2 ^ b :: rat)" "0 < b"
  proof -
    have *: "2 ^ (nat (bits n) - 1) \<le> (of_int n :: rat) \<and> of_int n < (2 ^ nat (bits n) :: rat) \<and> 0 < nat (bits n)"
      if "0 < n" for n :: int
    proof -
      have m: "2 ^ nat (bits n - 1) \<le> n" "n < 2 ^ nat (bits n)" "0 < bits n" using bits_bounds [OF that] by auto
      have "(of_int (2 ^ nat (bits n - 1)) :: rat) \<le> of_int n" "(of_int n :: rat) < of_int (2 ^ nat (bits n))"
        using m by (simp_all only: of_int_le_iff of_int_less_iff)
      then show ?thesis using m(3) by (simp add: nat_diff_distrib)
    qed
    show "2 ^ (a - 1) \<le> (of_int p :: rat)" "of_int p < (2 ^ a :: rat)" "0 < a" using * [OF p0] by (simp_all add: a_def)
    show "2 ^ (b - 1) \<le> (of_int q :: rat)" "of_int q < (2 ^ b :: rat)" "0 < b" using * [OF q0] by (simp_all add: b_def)
  qed
  define e where "e = int a - int b"
  have pe: "(2 :: rat) powi (e + 1) = 2 ^ a / 2 ^ (b - 1)" "(2 :: rat) powi (e - 1) = 2 ^ (a - 1) / 2 ^ b"
    using a(3) b(3) by (simp_all add: e_def power_int_add power_int_diff power_diff)
  have hi: "\<bar>x\<bar> < 2 powi (e + 1)" unfolding x pe
    by (rule frac_less) (use a b p0 in \<open>auto intro: order.strict_implies_order\<close>)
  have lo: "2 powi (e - 1) \<le> \<bar>x\<bar>" unfolding x pe
    by (rule frac_le) (use a b p0 q0 in \<open>auto intro: order.strict_implies_order\<close>)
  have ex: "exponent x = (if 2 powi e \<le> \<bar>x\<bar> then e else e - 1)"
    using a(3) b(3) by (simp add: exponent_def q Let_def e_def a_def b_def)
  show "2 powi exponent x \<le> \<bar>x\<bar>" using lo by (simp add: ex)
  show "\<bar>x\<bar> < 2 powi (exponent x + 1)" using hi by (simp add: ex)
qed

lemma exponent_zero: "exponent 0 = - 2"
  by (simp add: exponent_def bits.simps [of 0] bits.simps [of 1])

lemma round_float_zero [simp]: "round_float 0 = Finite 0"
  by (simp add: round_float_def nearest_even_def exponent_zero)

lemma exponent_less: "x \<noteq> 0 \<Longrightarrow> \<bar>x\<bar> < 2 powi n \<Longrightarrow> exponent x < n"
  using exponent_bounds(1) [of x] power_int_increasing [of n "exponent x" "2 :: rat"] by fastforce

lemma round_float_unfold:
  "round_float x =
     (let u = 2 powi last_bit x; y = of_int (nearest_even (x / u)) * u
      in if 2 ^ 1024 \<le> \<bar>y\<bar> then Infinite (x < 0) else Finite y)"
proof -
  have "1024 \<le> exponent y \<longleftrightarrow> 2 powi 1024 \<le> \<bar>y\<bar>" for y
  proof (cases "y = 0")
    case False
    show ?thesis
    proof
      assume "1024 \<le> exponent y"
      then have "(2 :: rat) powi 1024 \<le> 2 powi exponent y" by (rule power_int_increasing) simp
      then show "2 powi 1024 \<le> \<bar>y\<bar>" using exponent_bounds(1) [OF False] by (rule order_trans)
    next
      assume "2 powi 1024 \<le> \<bar>y\<bar>"
      then show "1024 \<le> exponent y" using exponent_less [OF False, of 1024] exponent_bounds(2) [OF False]
          power_int_increasing [of "exponent y + 1" 1024 "2 :: rat"] by fastforce
    qed
  qed (simp add: exponent_zero power_int_def)
  moreover have "(2 :: rat) powi 1024 = 2 ^ 1024" by (simp only: power_int_numeral)
  ultimately show ?thesis unfolding round_float_def by simp
qed

text \<open>The error of an operation is at most half of the last bit.\<close>

lemma round_float_error:
  assumes "\<bar>x\<bar> < 2 powi n" and "- 1021 \<le> n" and "n < 1024"
  obtains y where "round_float x = Finite y" and "\<bar>y - x\<bar> \<le> 2 powi (n - 54)"
proof (cases "x = 0")
  case True
  then show ?thesis using that [of 0] by simp
next
  case False
  let ?k = "last_bit x" and ?y = "of_int (nearest_even (x / 2 powi last_bit x)) * 2 powi last_bit x :: rat"
  have k: "?k \<le> n - 53" using exponent_less [OF False assms(1)] assms(2) by (simp add: last_bit_def)
  have u: "0 < (2 :: rat) powi ?k" by simp
  have "?y - x = (of_int (nearest_even (x / 2 powi ?k)) - x / 2 powi ?k) * 2 powi ?k"
    using u by (simp add: left_diff_distrib)
  then have "\<bar>?y - x\<bar> = \<bar>of_int (nearest_even (x / 2 powi ?k)) - x / 2 powi ?k\<bar> * 2 powi ?k"
    by (simp add: abs_mult)
  also have "\<dots> \<le> 1 / 2 * 2 powi ?k" by (rule mult_right_mono [OF nearest_even_error]) simp
  also have "\<dots> \<le> 1 / 2 * 2 powi (n - 53)" using power_int_increasing [OF k, of "2 :: rat"] by simp
  also have "\<dots> = 2 powi (n - 54)" using power_int_add [of "2 :: rat" "n - 54" 1] by simp
  finally have e: "\<bar>?y - x\<bar> \<le> 2 powi (n - 54)" .
  have "(2 :: rat) powi (n - 54) \<le> 2 powi (n - 1)" by (rule power_int_increasing) simp_all
  moreover have "(2 :: rat) powi n = 2 * 2 powi (n - 1)" using power_int_add [of "2 :: rat" "n - 1" 1] by simp
  moreover have "(2 :: rat) powi n \<le> 2 powi 1023" by (rule power_int_increasing) (use assms(3) in simp_all)
  ultimately have "\<bar>?y\<bar> < 2 * 2 powi 1023" using e assms(1) by linarith
  also have "2 * 2 powi 1023 = (2 :: rat) ^ 1024" by (simp add: power_int_def)
  finally have "round_float x = Finite ?y" by (simp add: round_float_unfold Let_def)
  then show ?thesis using e by (rule that)
qed

lemma round_float_nonneg: "round_float x = Finite y \<Longrightarrow> 0 \<le> x \<Longrightarrow> 0 \<le> y"
  using nearest_even_nonneg [of "x / 2 powi last_bit x"] by (auto simp: round_float_unfold Let_def split: if_splits)

text \<open>What has 53 significant bits stays as it is, unless it is too large.\<close>

lemma round_float_exact:
  assumes "\<bar>m\<bar> < 2 ^ 53"
  shows "round_float (of_int m * 2 ^ k) =
    (if 2 ^ 1024 \<le> \<bar>of_int m * (2 ^ k :: rat)\<bar> then Infinite (m < 0) else Finite (of_int m * 2 ^ k))"
proof (cases "m = 0")
  case True
  then show ?thesis by (simp add: round_float_unfold nearest_even_def)
next
  case False
  let ?x = "of_int m * 2 ^ k :: rat"
  have x0: "?x \<noteq> 0" using False by simp
  have "\<bar>?x\<bar> < 2 ^ 53 * 2 ^ k"
  proof -
    have "(of_int \<bar>m\<bar> :: rat) < of_int (2 ^ 53)" using assms by (simp only: of_int_less_iff)
    then show ?thesis by (simp add: abs_mult)
  qed
  also have "\<dots> = 2 powi (int k + 53)" by (simp add: power_int_add)
  finally have "exponent ?x < int k + 53" using exponent_less [OF x0] by blast
  then have l: "last_bit ?x \<le> int k" by (simp add: last_bit_def)
  define j where "j = nat (int k - last_bit ?x)"
  have "(2 :: rat) ^ k = 2 powi (last_bit ?x + int j)" using l by (simp add: j_def)
  then have p: "(2 :: rat) ^ k = 2 powi last_bit ?x * 2 ^ j" by (simp add: power_int_add)
  have "?x / 2 powi last_bit ?x = of_int (m * 2 ^ j)" by (subst (1) p) simp
  then have "of_int (nearest_even (?x / 2 powi last_bit ?x)) * 2 powi last_bit ?x = (of_int m * (2 powi last_bit ?x * 2 ^ j) :: rat)"
    by (simp only: nearest_even_int) simp
  also have "\<dots> = ?x" by (simp only: p [symmetric])
  finally have y: "of_int (nearest_even (?x / 2 powi last_bit ?x)) * 2 powi last_bit ?x = ?x" .
  have "?x < 0 \<longleftrightarrow> m < 0" by (simp add: mult_less_0_iff)
  then show ?thesis unfolding round_float_unfold Let_def y by simp
qed

lemma float_of_int_exact: "\<bar>n\<bar> < 2 ^ 53 \<Longrightarrow> float_of_int n = Finite (of_int n)"
proof -
  assume n: "\<bar>n\<bar> < 2 ^ 53"
  then have "(of_int \<bar>n\<bar> :: rat) < of_int (2 ^ 53)" by (simp only: of_int_less_iff)
  also have "\<dots> < 2 ^ 1024" by simp
  finally show ?thesis using round_float_exact [OF n, of 0] by (simp add: float_of_int_def not_le)
qed

lemma truncated: "0 \<le> x \<Longrightarrow> x < 2 ^ 63 \<Longrightarrow> int64_of outside (Finite x) = \<lfloor>x\<rfloor>"
proof -
  assume x: "0 \<le> x" "x < 2 ^ 63"
  have "\<lfloor>x\<rfloor> < 2 ^ 63" using x(2) by (simp add: floor_less_iff)
  moreover have "0 \<le> \<lfloor>x\<rfloor>" using x(1) by simp
  then have "- (2 ^ 63) \<le> \<lfloor>x\<rfloor>" by (rule order_trans [rotated]) simp
  ultimately show ?thesis using x(1) by (simp add: Let_def)
qed

lemma int_float_int: "\<bar>n\<bar> < 2 ^ 53 \<Longrightarrow> int64_of outside (float_of_int n) = n"
proof -
  assume n: "\<bar>n\<bar> < 2 ^ 53"
  have "n < 2 ^ 53" "- (2 ^ 53) < n" using n by (simp_all only: abs_less_iff minus_less_iff)
  moreover have "(2 :: int) ^ 53 \<le> 2 ^ 63" by simp
  ultimately have "n < 2 ^ 63" "- (2 ^ 63) \<le> n" by linarith+
  then show ?thesis by (simp add: float_of_int_exact [OF n] Let_def)
qed

end
