(* ===== verification/Worker.thy ===== *)
theory Worker
  imports Links Listing Content Fetching Robots GoFloats
begin

text \<open>
  The task processing of \<open>internal/worker/worker.go\<close>: from a claimed task to its documents and the
  tasks of its links, and the loop of one worker around it.

  The state \<open>world\<close> is the database and the robots client.  Everything outside is \<open>net\<close>, read at
  the current interaction: servers, browser, robots.txt files, the answer of the host limiter (whose
  own model is in Hosts), timers and contexts, the random number of the back-off, and the third-party
  libraries.  Statements of other workers between two statements of this one are not modelled here (Queue does).
\<close>

section \<open>World\<close>

record world =
  w_db :: db
  w_robots :: robots_client

record net =
  n_serve :: "nat \<Rightarrow> string \<Rightarrow> http_response res"
  n_render :: "nat \<Rightarrow> string \<Rightarrow> fetch_result res"
  n_robots :: "nat \<Rightarrow> string \<Rightarrow> robots_data option"
  n_acquire :: "nat \<Rightarrow> string \<Rightarrow> unit res"
  n_late :: "nat \<Rightarrow> nat"
  n_cancelled :: "nat \<Rightarrow> bool"
  n_sitemap :: "string \<Rightarrow> sitemap_doc"
  n_now_text :: "nat \<Rightarrow> string"
  n_random :: "nat \<Rightarrow> rat"
  n_libs :: libs

type_synonym 'a job_step = "('a, world) action"

definition on_db :: "'a op \<Rightarrow> 'a job_step" where
  "on_db f w = (case f (w_db w) of (r, s) \<Rightarrow> (r, w\<lparr>w_db := s\<rparr>))"

definition world_tick :: "world \<Rightarrow> nat" where
  "world_tick w = tick (w_db w)"

definition next_tick :: "world \<Rightarrow> world" where
  "next_tick w = w\<lparr>w_db := (w_db w)\<lparr>tick := Suc (tick (w_db w))\<rparr>\<rparr>"

section \<open>Job parameters\<close>

type_synonym params = "(string \<times> json) list"

text \<open>\<open>json.Unmarshal\<close> into \<open>map[string]any\<close>, its error ignored.\<close>

definition params_of :: "json \<Rightarrow> params" where
  "params_of p = (case p of JObj kvs \<Rightarrow> json_fields kvs | _ \<Rightarrow> [])"

definition get_bool :: "params \<Rightarrow> string \<Rightarrow> bool" where
  "get_bool ps key = (case map_of ps key of Some (JBool b) \<Rightarrow> b | _ \<Rightarrow> False)"

definition get_string :: "params \<Rightarrow> string \<Rightarrow> string" where
  "get_string ps key = (case map_of ps key of Some (JStr s) \<Rightarrow> s | _ \<Rightarrow> '''')"

text \<open>A JSON number becomes a \<open>float64\<close>: integers beyond 53 bits are rounded.\<close>

definition get_int :: "params \<Rightarrow> string \<Rightarrow> int" where
  "get_int ps key = (case map_of ps key of Some (JNum n) \<Rightarrow> int64_of amd64 (float_of_int n) | _ \<Rightarrow> 0)"

definition requested_formats :: "params \<Rightarrow> string list" where
  "requested_formats ps =
     (case map_of ps ''output_format'' of
        Some raw \<Rightarrow> formats_from_any raw FormatMarkdown
      | None \<Rightarrow> [FormatMarkdown])"

section \<open>Retry and back-off\<close>

definition should_retry :: "int \<Rightarrow> int \<Rightarrow> bool" where
  "should_retry attempts maxRetries \<longleftrightarrow> attempts < maxRetries"

text \<open>
  Every operation rounds; \<open>r\<close> is the random number in the unit interval, and the conversion to a duration drops
  the fraction.
\<close>

definition backoff :: "(go_float \<Rightarrow> int) \<Rightarrow> duration \<Rightarrow> duration \<Rightarrow> int \<Rightarrow> rat \<Rightarrow> duration" where
  "backoff outside base mx attempt0 r =
     (let attempt = (if attempt0 \<le> 0 then 1 else attempt0);
          d0 = fmul (float_of_int base) (pow_two (attempt - 1));
          d1 = (if fgreater d0 (float_of_int mx) then float_of_int mx else d0);
          jitter = fmul d1 (round_float (1 / 5));
          d2 = fadd (fsub d1 jitter) (fmul (fmul (Finite r) (Finite 2)) jitter);
          d3 = (if fgreater d2 (float_of_int mx) then float_of_int mx else d2)
      in int64_of outside d3)"

section \<open>Fetching a page of a task\<close>

definition worker_fetcher :: "config \<Rightarrow> fetcher" where
  "worker_fetcher cfg = new_fetcher (c_http cfg) True (c_browser cfg)"

definition fetch_with_limit :: "net \<Rightarrow> config \<Rightarrow> string \<Rightarrow> bool \<Rightarrow> fetch_result job_step" where
  "fetch_with_limit nt cfg rawURL useJS w =
     (let n = world_tick w; w' = next_tick w in
      case n_acquire nt n rawURL of
        Inl err \<Rightarrow> (Inl err, w')
      | Inr _ \<Rightarrow> (fetch_url (worker_fetcher cfg) (n_render nt n) (n_serve nt n) rawURL useJS, w'))"

definition ensure_robots_allowed :: "net \<Rightarrow> config \<Rightarrow> string \<Rightarrow> string \<Rightarrow> unit job_step" where
  "ensure_robots_allowed nt cfg url ua w =
     (if cc_respect_robots (c_crawl cfg) then
        (case allowed (n_robots nt (world_tick w)) url ua (w_robots w) of (b, rc) \<Rightarrow>
           let w' = next_tick (w\<lparr>w_robots := rc\<rparr>)
           in if b then (Ok (), w') else (Fail ''blocked by robots'', w'))
      else (Ok (), w))"

definition robots_wait :: "env \<Rightarrow> net \<Rightarrow> config \<Rightarrow> string \<Rightarrow> unit job_step" where
  "robots_wait e nt cfg url w =
     (let n = world_tick w in
      case wait_call (n_robots nt n) url (hc_user_agent (c_http cfg))
             (cc_crawl_delay_ms (c_crawl cfg) * Millisecond) (go_now e n) (n_late nt n) (n_cancelled nt n) (w_robots w) of
        (None, rc) \<Rightarrow> (Fail ''context canceled'', next_tick (w\<lparr>w_robots := rc\<rparr>))
      | (Some _, rc) \<Rightarrow> (Ok (), next_tick (w\<lparr>w_robots := rc\<rparr>)))"

section \<open>Storing a document\<close>

text \<open>The loop that renders the requested formats: the outputs and the first content that is not empty.\<close>

fun render_formats ::
    "libs \<Rightarrow> extracted \<Rightarrow> string list \<Rightarrow> (string \<times> string) list \<Rightarrow> string \<Rightarrow> ((string \<times> string) list \<times> string) res" where
  "render_formats lib x [] outputs primary = Ok (outputs, primary)"
| "render_formats lib x (f # fs) outputs primary =
     (if f = '''' then render_formats lib x fs outputs primary
      else if f \<in> fst ` set outputs then render_formats lib x fs outputs primary
      else case format_content lib x f of
        Inl err \<Rightarrow> Inl err
      | Inr content \<Rightarrow>
          render_formats lib x fs (AList.update f content outputs) (if primary = '''' then content else primary))"

definition render_all :: "libs \<Rightarrow> extracted \<Rightarrow> string list \<Rightarrow> ((string \<times> string) list \<times> string) res" where
  "render_all lib x formats =
     (case render_formats lib x formats [] '''' of
        Inl err \<Rightarrow> Inl err
      | Inr (outputs, primary) \<Rightarrow>
          if length outputs = 0 then
            (case format_content lib x FormatMarkdown of
               Inl err \<Rightarrow> Inl err
             | Inr content \<Rightarrow> Ok ([(FormatMarkdown, content)], content))
          else Ok (outputs, primary))"

definition stored_meta :: "extracted \<Rightarrow> params \<Rightarrow> string \<Rightarrow> (string \<times> string) list \<Rightarrow> json" where
  "stored_meta x ps jobType outputs =
     (let m0 = map (\<lambda>(k, v). (k, JStr v)) (AList.delete ''url'' (x_meta x));
          m1 = (if jobType = ''crawl'' \<and> get_string ps ''url'' \<noteq> ''''
                then AList.update ''crawl_url'' (JStr (get_string ps ''url'')) m0 else m0);
          m2 = (if length outputs > 0 then AList.update OutputsMetaKey (marshal_string_map outputs) m1 else m1)
      in marshal_any_map m2)"

definition max_content_length :: "(string \<times> string) list \<Rightarrow> string \<Rightarrow> nat" where
  "max_content_length outputs primary = fold (\<lambda>(f, c) m. if length c > m then length c else m) outputs (length primary)"

definition store_document ::
    "env \<Rightarrow> config \<Rightarrow> task \<Rightarrow> string \<Rightarrow> (string \<times> string) list \<Rightarrow> string \<Rightarrow> extracted \<Rightarrow> params \<Rightarrow> string \<Rightarrow> unit job_step" where
  "store_document e cfg t finalURL outputs primary x ps jobType =
     (let doc = \<lparr>d_job = t_job t, d_requested_url = t_requested_url t, d_final_url = finalURL,
            d_title = x_title x, d_content_md = primary, d_content_raw = primary,
            d_meta = stored_meta x ps jobType outputs\<rparr>;
          maxBytes = jd_max_bytes (c_job_defaults cfg)
      in if maxBytes > 0 \<and> int (max_content_length outputs primary) > maxBytes
         then (\<lambda>w. (Fail ''content exceeds max_bytes'', w))
         else andthen (on_db (insert_document e doc)) (\<lambda>_.
           if cc_dedupe_cache (c_crawl cfg)
           then (case canonicalize finalURL (cc_strip_query (c_crawl cfg)) of
                   Inl _ \<Rightarrow> (\<lambda>w. (Ok (), w))
                 | Inr canon \<Rightarrow> (\<lambda>w. (Ok (), ignoring (on_db (mark_canonical e canon)) w)))
           else (\<lambda>w. (Ok (), w))))"

definition canonical_final :: "config \<Rightarrow> string \<Rightarrow> string" where
  "canonical_final cfg finalURL =
     (case canonicalize finalURL (cc_strip_query (c_crawl cfg)) of Inl _ \<Rightarrow> finalURL | Inr cf \<Rightarrow> cf)"

definition drop_nofollow :: "config \<Rightarrow> extracted \<Rightarrow> extracted" where
  "drop_nofollow cfg x =
     (if cc_respect_nofollow (c_crawl cfg) then
        (case map_of (x_meta x) ''robots'' of
           Some v \<Rightarrow> if contains v ''nofollow'' then x\<lparr>x_links := []\<rparr> else x
         | None \<Rightarrow> x)
      else x)"

definition fetch_extract_and_store ::
    "env \<Rightarrow> net \<Rightarrow> config \<Rightarrow> task \<Rightarrow> params \<Rightarrow> string \<Rightarrow> extracted job_step" where
  "fetch_extract_and_store e nt cfg t ps jobType =
     andthen (fetch_with_limit nt cfg (t_requested_url t) (get_bool ps ''use_js'')) (\<lambda>fr.
       let canonFinal = canonical_final cfg (fr_final_url fr) in
       andthen (\<lambda>w. (Ok (), if canonFinal \<noteq> '''' \<and> canonFinal \<noteq> t_final_url t
                            then ignoring (on_db (update_task_final_url e (t_id t) canonFinal)) w else w)) (\<lambda>_.
       andthen (\<lambda>w. (extract_page (n_libs nt) (n_now_text nt (world_tick w)) canonFinal (fr_body fr), w)) (\<lambda>x0.
         let x = drop_nofollow cfg x0 in
         (case render_all (n_libs nt) x (requested_formats ps) of
            Inl err \<Rightarrow> (\<lambda>w. (Inl err, w))
          | Inr (outputs, primary) \<Rightarrow>
              andthen (store_document e cfg t canonFinal outputs primary x ps jobType) (\<lambda>_ w. (Ok x, w))))))"

definition process_document_task ::
    "env \<Rightarrow> net \<Rightarrow> config \<Rightarrow> task \<Rightarrow> params \<Rightarrow> string \<Rightarrow> extracted job_step" where
  "process_document_task e nt cfg t ps jobType =
     andthen (ensure_robots_allowed nt cfg (t_requested_url t) (hc_user_agent (c_http cfg))) (\<lambda>_.
     andthen (robots_wait e nt cfg (t_requested_url t)) (\<lambda>_.
       fetch_extract_and_store e nt cfg t ps jobType))"

section \<open>Tasks of the links\<close>

text \<open>\<open>MaxDuration > 0 && time.Since(created) > MaxDuration\<close>: the clock is only read when the limit is set.\<close>

definition past_max_duration :: "env \<Rightarrow> config \<Rightarrow> time \<Rightarrow> world \<Rightarrow> bool \<times> world" where
  "past_max_duration e cfg created w =
     (let limit = jd_max_duration (c_job_defaults cfg)
      in if limit > 0 then (case read_clock e (w_db w) of (now, s) \<Rightarrow> (now - created > limit, w\<lparr>w_db := s\<rparr>))
         else (False, w))"

definition sitemap_get :: "net \<Rightarrow> config \<Rightarrow> nat \<Rightarrow> sitemap_fetch" where
  "sitemap_get nt cfg n url =
     (case fetch_url (worker_fetcher cfg) (n_render nt n) (n_serve nt n) url False of
        Inl err \<Rightarrow> Inl err
      | Inr fr \<Rightarrow> Ok (n_sitemap nt (fr_body fr)))"

definition links_of_page :: "net \<Rightarrow> config \<Rightarrow> task \<Rightarrow> params \<Rightarrow> string list \<Rightarrow> world \<Rightarrow> string list \<times> world" where
  "links_of_page nt cfg t ps rawLinks w =
     (let n = world_tick w;
          sameDomain = get_bool ps ''same_domain'';
          includeSitemaps = (cc_include_sitemaps (c_crawl cfg) \<and> get_bool ps ''include_sitemaps'');
          get = sitemap_get nt cfg n
      in if includeSitemaps \<and> t_depth t = 0 then
           (case sitemaps_of (n_robots nt n) (t_requested_url t) (w_robots w) of (sitemaps, rc) \<Rightarrow>
              (collect_links get sitemaps (t_requested_url t) (t_depth t) rawLinks sameDomain includeSitemaps cfg,
               next_tick (w\<lparr>w_robots := rc\<rparr>)))
         else (collect_links get [] (t_requested_url t) (t_depth t) rawLinks sameDomain includeSitemaps cfg, w))"

definition plan_links :: "env \<Rightarrow> config \<Rightarrow> task \<Rightarrow> string list \<Rightarrow> (task list) job_step" where
  "plan_links e cfg t links =
     on_db (build_link_tasks (has_seen_canonical e) (task_count e) cfg (t_job t) links (t_depth t + 1))"

definition process_crawl_task ::
    "env \<Rightarrow> net \<Rightarrow> config \<Rightarrow> task \<Rightarrow> params \<Rightarrow> string \<Rightarrow> unit job_step" where
  "process_crawl_task e nt cfg t ps jobType =
     andthen (process_document_task e nt cfg t ps jobType) (\<lambda>x w0.
       if t_depth t \<ge> get_int ps ''max_depth'' then (Ok (), w0)
       else case past_max_duration e cfg (t_created_at t) w0 of (late, w1) \<Rightarrow>
         if late then (Fail ''max_duration exceeded'', w1)
         else case links_of_page nt cfg t ps (x_links x) w1 of (links, w2) \<Rightarrow>
           if length links = 0 then (Ok (), w2)
           else andthen (plan_links e cfg t links) (\<lambda>ts.
                  if length ts = 0 then (\<lambda>w. (Ok (), w))
                  else on_db (insert_tasks e Pool (t_job t) ts)) w2)"

text \<open>The statements of \<open>enqueueMapLinks\<close> between \<open>BeginTx\<close> and \<open>Commit\<close>.\<close>

definition enqueue_map_body ::
    "env \<Rightarrow> string \<Rightarrow> string \<Rightarrow> string list \<Rightarrow> int \<Rightarrow> task list \<Rightarrow> conn \<Rightarrow> unit op" where
  "enqueue_map_body e jobID sourceURL links depth ts tx =
     andthen (insert_mapped_batch e tx
       (map (\<lambda>link. \<lparr>m_job = jobID, m_source_url = sourceURL, m_target_url = link, m_depth = depth\<rparr>) links))
     (\<lambda>_. if length ts > 0 then insert_tasks e tx jobID ts else (\<lambda>s. (Ok (), s)))"

definition enqueue_map_links ::
    "env \<Rightarrow> string \<Rightarrow> string \<Rightarrow> string list \<Rightarrow> int \<Rightarrow> task list \<Rightarrow> unit op" where
  "enqueue_map_links e jobID sourceURL links depth ts =
     (if length links = 0 then (\<lambda>s. (Ok (), s))
      else in_tx e (enqueue_map_body e jobID sourceURL links depth ts))"

definition process_map_task ::
    "env \<Rightarrow> net \<Rightarrow> config \<Rightarrow> task \<Rightarrow> params \<Rightarrow> string \<Rightarrow> unit job_step" where
  "process_map_task e nt cfg t ps jobType =
     andthen (ensure_robots_allowed nt cfg (t_requested_url t) (hc_user_agent (c_http cfg))) (\<lambda>_.
     andthen (robots_wait e nt cfg (t_requested_url t)) (\<lambda>_.
     andthen (fetch_with_limit nt cfg (t_requested_url t) False) (\<lambda>fr.
     andthen (\<lambda>w. (extract_page (n_libs nt) (n_now_text nt (world_tick w)) (fr_final_url fr) (fr_body fr), w)) (\<lambda>x w0.
       if t_depth t \<ge> get_int ps ''max_depth'' then (Ok (), w0)
       else case links_of_page nt cfg t ps (x_links x) w0 of (links, w1) \<Rightarrow>
         if length links = 0 then (Ok (), w1)
         else andthen (plan_links e cfg t links) (\<lambda>ts.
                on_db (enqueue_map_links e (t_job t) (t_requested_url t) links (t_depth t + 1) ts)) w1))))"

section \<open>One task, one round, one worker\<close>

text \<open>
  The deadline that \<open>handleTask\<close> puts on the context of the job shows in the model as failing
  statements and fetches (\<open>db_fault\<close>, \<open>n_serve\<close>, ...).
\<close>

definition dispatch_task :: "env \<Rightarrow> net \<Rightarrow> config \<Rightarrow> task \<Rightarrow> job \<Rightarrow> unit job_step" where
  "dispatch_task e nt cfg t j =
     (if j_type j = ''batch_scrape'' then
        andthen (process_document_task e nt cfg t (params_of (j_params j)) (j_type j)) (\<lambda>_ w. (Ok (), w))
      else if j_type j = ''crawl'' then process_crawl_task e nt cfg t (params_of (j_params j)) (j_type j)
      else if j_type j = ''map'' then process_map_task e nt cfg t (params_of (j_params j)) (j_type j)
      else (\<lambda>w. (Fail (''unsupported job type: '' @ j_type j), w)))"

definition handle_task :: "env \<Rightarrow> net \<Rightarrow> config \<Rightarrow> task \<Rightarrow> unit job_step" where
  "handle_task e nt cfg t =
     andthen (on_db (get_job e (t_job t))) (\<lambda>j w0.
       case past_max_duration e cfg (j_created_at j) w0 of (late, w1) \<Rightarrow>
         if late then
           (Fail ''job deadline exceeded'',
            ignoring (on_db (update_job_status e (j_id j) JobStatusCancelled ''max_duration exceeded'')) w1)
         else dispatch_task e nt cfg t j
           (if j_status j = JobStatusQueued then ignoring (on_db (start_job e (j_id j))) w1 else w1))"

datatype round_result = Idle | Completed | Retried duration | Failed

text \<open>What a worker does after the task: the statement for the outcome, then \<open>FinishJob\<close>.\<close>

definition settle_task :: "env \<Rightarrow> net \<Rightarrow> config \<Rightarrow> task \<Rightarrow> unit res \<Rightarrow> world \<Rightarrow> round_result \<times> world" where
  "settle_task e nt cfg t outcome w =
     (let wc = c_worker cfg in
      case outcome of
        Inl err \<Rightarrow>
          if should_retry (t_attempts t) (wc_max_retries wc)
          then (Retried (backoff amd64 (wc_backoff_base wc) (wc_backoff_max wc) (t_attempts t + 1) (n_random nt (world_tick w))),
                ignoring (on_db (retry_task e (t_id t) (error_text err))) w)
          else (Failed, ignoring (on_db (fail_task e (t_id t) (error_text err))) w)
      | Inr _ \<Rightarrow> (Completed, ignoring (on_db (complete_task e (t_id t))) w))"

definition worker_round :: "env \<Rightarrow> net \<Rightarrow> config \<Rightarrow> world \<Rightarrow> round_result \<times> world" where
  "worker_round e nt cfg w0 =
     (case on_db (dequeue_task e (wc_lease_timeout (c_worker cfg))) w0 of
        (Inl err, w1) \<Rightarrow> (Idle, w1)
      | (Inr t, w1) \<Rightarrow>
          (case handle_task e nt cfg t w1 of (outcome, w2) \<Rightarrow>
           case settle_task e nt cfg t outcome w2 of (result, w3) \<Rightarrow>
             (result, ignoring (on_db (finish_job e (t_job t))) w3)))"

text \<open>The loop of a worker until its context is done, seen after \<open>n\<close> rounds.\<close>

fun run_worker :: "env \<Rightarrow> net \<Rightarrow> config \<Rightarrow> nat \<Rightarrow> world \<Rightarrow> world" where
  "run_worker e nt cfg 0 w = w"
| "run_worker e nt cfg (Suc n) w = run_worker e nt cfg n (snd (worker_round e nt cfg w))"

text \<open>The heartbeat loop: what arrives on its channels, in order.\<close>

datatype heartbeat_event = CtxDone | DoneClosed | Ticked

fun heartbeat_loop :: "env \<Rightarrow> int \<Rightarrow> heartbeat_event list \<Rightarrow> db \<Rightarrow> db" where
  "heartbeat_loop e taskID [] s = s"
| "heartbeat_loop e taskID (CtxDone # evs) s = s"
| "heartbeat_loop e taskID (DoneClosed # evs) s = s"
| "heartbeat_loop e taskID (Ticked # evs) s = heartbeat_loop e taskID evs (ignoring (update_task_heartbeat e taskID) s)"

section \<open>A small site for concrete runs\<close>

text \<open>A server whose pages all link to \<open>/a\<close> and \<open>/b\<close>, except a page that is missing; a crawl of depth one.\<close>

definition demo_doc :: html_doc where
  "demo_doc = \<lparr>doc_title = ''T'', doc_attr = (\<lambda>_ _. None), doc_anchors = [(''/a'', None), (''/b'', None)],
     doc_body_text = ''text'', doc_body_html = ''html''\<rparr>"

definition demo_libs :: libs where
  "demo_libs = \<lparr>html_parse = (\<lambda>_. Ok demo_doc), html_to_md = (\<lambda>h. Ok h), strip_md = (\<lambda>m. m)\<rparr>"

definition demo_net :: net where
  "demo_net = \<lparr>n_serve = (\<lambda>_ url. if has_suffix url ''/missing'' then Fail ''no such host''
       else Ok \<lparr>hr_status = 200, hr_location = '''', hr_body = ''body''\<rparr>),
     n_render = (\<lambda>_ _. Fail ''no browser''), n_robots = (\<lambda>_ _. None), n_acquire = (\<lambda>_ _. Ok ()), n_late = (\<lambda>_. 0),
     n_cancelled = (\<lambda>_. False), n_sitemap = (\<lambda>_. \<lparr>sm_urls = [], sm_sitemaps = []\<rparr>), n_now_text = (\<lambda>_. ''now''),
     n_random = (\<lambda>_. 1 / 2), n_libs = demo_libs\<rparr>"

definition demo_crawl :: crawl_request where
  "demo_crawl = \<lparr>cr_url = ''http://h.org/'', cr_max_depth = 1, cr_same_domain = True, cr_formats = None,
     cr_use_js = False, cr_include_sitemaps = False\<rparr>"

definition demo_site :: "string \<Rightarrow> int \<Rightarrow> world" where
  "demo_site url attempts = \<lparr>w_db = demo_db\<lparr>jobs := [demo_job\<lparr>j_params := marshal_crawl demo_crawl\<rparr>],
       tasks := [(demo_task 1 url TaskStatusQueued)\<lparr>t_attempts := attempts\<rparr>], task_seq := 1\<rparr>,
     w_robots = new_robots True\<rparr>"

end
