(* ===== verification/Crawling.thy ===== *)
theory Crawling
  imports Worker
begin

text \<open>
  What the task processing of the worker keeps true.  The locale \<open>task_laws\<close> is the contract between a property of
  the tables and the statements a task may issue: whatever property obeys it survives \<open>handleTask\<close>, in any
  order of successes and failures; \<open>worker_laws\<close> adds the statements of the loop.  The
  locales are interpreted with the invariant of the tables, the depth bound, the size bound and the count
  of attempts.
\<close>

section \<open>Operations of the worker on the database\<close>

lemma keeps_on_db: "keeps I f \<Longrightarrow> keeps (\<lambda>w. I (w_db w)) (on_db f)"
  by (auto simp: keeps_def on_db_def split: prod.splits)

lemma on_db_eq: "on_db f w = (r, w') \<Longrightarrow> f (w_db w) = (r, w_db w') \<and> w_robots w' = w_robots w"
  by (auto simp: on_db_def split: prod.splits)

lemma on_db_snd: "w_db (snd (on_db f w)) = snd (f (w_db w))"
  by (simp add: on_db_def split: prod.splits)

lemma keeps_case_prod: "(\<And>x y. keeps I (f x y)) \<Longrightarrow> keeps I (case p of (x, y) \<Rightarrow> f x y)"
  by (cases p) simp

lemma keeps_result: "keeps I (\<lambda>s. (f s, s))"
  by (simp add: keeps_def)

lemma keeps_then: "(\<And>s. I s \<Longrightarrow> I (g s)) \<Longrightarrow> keeps I (\<lambda>s. (r s, g s))"
  by (simp add: keeps_def)

definition doc_fits :: "config \<Rightarrow> document \<Rightarrow> bool" where
  "doc_fits cfg d \<longleftrightarrow> (\<exists>x ps jobType outputs. d_meta d = stored_meta x ps jobType outputs \<and> d_content_raw d = d_content_md d \<and>
     (jd_max_bytes (c_job_defaults cfg) > 0 \<longrightarrow>
        int (max_content_length outputs (d_content_md d)) \<le> jd_max_bytes (c_job_defaults cfg)))"

text \<open>The planned tasks fit into what the task limit leaves.\<close>

definition room :: "config \<Rightarrow> string \<Rightarrow> task list \<Rightarrow> db \<Rightarrow> bool" where
  "room cfg j ts s \<longleftrightarrow> (jd_max_tasks (c_job_defaults cfg) > 0 \<longrightarrow>
     int (length ts) \<le> max 0 (jd_max_tasks (c_job_defaults cfg) - job_size j s))"

lemma room_cong: "tasks s = tasks s' \<Longrightarrow> room cfg j ts s = room cfg j ts s'"
  by (simp add: room_def)

definition plan_ok :: "config \<Rightarrow> string \<Rightarrow> (int \<Rightarrow> bool) \<Rightarrow> task list \<Rightarrow> db \<Rightarrow> bool" where
  "plan_ok cfg j fits ts s \<longleftrightarrow> (\<forall>u \<in> set ts. t_status u = TaskStatusQueued \<and> fits (t_depth u)) \<and> room cfg j ts s"

lemma mapped_tasks_same: "tasks (snd (insert_mapped_batch e c ms s)) = tasks s"
proof -
  have row: "keeps (\<lambda>u. tasks u = tasks s) (insert_mapped_row e c m)" for m
    by (auto simp: insert_mapped_row_def exec_def Let_def keeps_def split: option.splits)
  have "keeps (\<lambda>u. tasks u = tasks s) (insert_mapped_loop e c ms)"
    by (induction ms) (auto intro!: keeps_andthen keeps_return row)
  moreover have "keeps (\<lambda>u. tasks u = tasks s) (exec e c (\<lambda>_. Pair (Ok ())))"
    by (simp add: exec_def Let_def keeps_def split: option.splits)
  ultimately have "keeps (\<lambda>u. tasks u = tasks s) (insert_mapped_batch e c ms)"
    by (auto simp: insert_mapped_batch_def prepare_def intro!: keeps_if keeps_andthen keeps_return)
  then show ?thesis using keepsD by fastforce
qed

text \<open>
  The laws that a property \<open>I\<close> of the tables owes to a task \<open>i\<close> of the job \<open>j\<close>: it survives each statement that
  the task may issue, a new row only for a planned task.
\<close>

locale task_laws =
  fixes I :: "db \<Rightarrow> bool" and e :: env and cfg :: config and j :: string and i :: int and fits :: "int \<Rightarrow> bool"
  assumes ticks: "I (s\<lparr>tick := n\<rparr>) = I s"
    and start: "keeps I (start_job e j)"
    and cancels: "keeps I (update_job_status e j JobStatusCancelled msg)"
    and final_url: "keeps I (update_task_final_url e i url)"
    and mark: "keeps I (mark_canonical e url)"
    and document: "d_job d = j \<Longrightarrow> doc_fits cfg d \<Longrightarrow> keeps I (insert_document e d)"
    and task_row: "I s \<Longrightarrow> t_status u = TaskStatusQueued \<Longrightarrow> fits (t_depth u) \<Longrightarrow>
      (jd_max_tasks (c_job_defaults cfg) > 0 \<Longrightarrow> job_size j s < jd_max_tasks (c_job_defaults cfg)) \<Longrightarrow>
      I (snd (insert_task_row e c j u s))"
    and mapped_row: "m_job m = j \<Longrightarrow> keeps I (insert_mapped_row e c m)"
    and rolls_back: "I s0 \<Longrightarrow> later_seqs s0 s \<Longrightarrow> I (rollback s0 s)"
    and depth: "I s \<Longrightarrow> get_job e j s = (Ok jb, s') \<Longrightarrow> k \<le> get_int (params_of (j_params jb)) ''max_depth'' \<Longrightarrow> fits k"
begin

abbreviation J :: "world \<Rightarrow> bool" where "J w \<equiv> I (w_db w)"

lemma J_next [simp]: "J (next_tick w) = J w" "J (w\<lparr>w_robots := rc\<rparr>) = J w"
  by (simp_all add: next_tick_def ticks)

lemma reads: "keeps I (exec e c (\<lambda>now s. (f now s, s)))"
  by (simp add: keeps_def exec_def Let_def ticks split: option.splits)

lemma tick_free_I: "tick_free I"
  by (simp add: tick_free_def ticks)

lemma tasks_loop: "I s \<Longrightarrow> plan_ok cfg j fits ts s \<Longrightarrow> I (snd (insert_tasks_loop e c j ts s))"
proof (induction ts arbitrary: s)
  case Nil
  then show ?case by simp
next
  case (Cons t ts)
  obtain r s1 where r: "insert_task_row e c j t s = (r, s1)" by (cases "insert_task_row e c j t s")
  have I1: "I s1" using task_row [OF Cons.prems(1), of t c] Cons.prems(2) r by (auto simp: plan_ok_def room_def)
  show ?case
  proof (cases r)
    case (Inl err)
    then show ?thesis using r I1 by (simp add: andthen_def)
  next
    case (Inr u)
    then obtain new where "tasks s1 = tasks s @ new" "map t_final_url new = first_occ (urls_of j (tasks s)) [t_final_url t]"
      using insert_task_row_Ok [of e c j t s s1] r by (cases u) blast
    then have "length (filter (\<lambda>t. t_job t = j) new) \<le> 1" "tasks s1 = tasks s @ new"
      using length_first_occ [of "urls_of j (tasks s)" "[t_final_url t]"] length_filter_le [of _ new]
      by (auto simp flip: length_map [of t_final_url new] intro: order_trans)
    then have "plan_ok cfg j fits ts s1" using Cons.prems(2) by (auto simp: plan_ok_def room_def)
    then show ?thesis using Cons.IH [OF I1] r Inr by (simp add: andthen_def)
  qed
qed

lemma new_tasks: "I s \<Longrightarrow> plan_ok cfg j fits ts s \<Longrightarrow> I (snd (insert_tasks e c j ts s))"
  using tasks_loop [of "s\<lparr>tick := Suc (tick s)\<rparr>" ts c]
  by (auto simp: insert_tasks_def prepare_def andthen_def exec_def Let_def ticks plan_ok_def room_def split: option.splits)

lemma mapped_batch: "\<forall>m \<in> set ms. m_job m = j \<Longrightarrow> keeps I (insert_mapped_batch e c ms)"
proof -
  assume "\<forall>m \<in> set ms. m_job m = j"
  then have "keeps I (insert_mapped_loop e c ms)"
    by (induction ms) (auto intro!: keeps_andthen keeps_return mapped_row)
  then show ?thesis by (auto simp: insert_mapped_batch_def prepare_def intro!: keeps_if keeps_andthen keeps_return reads)
qed

lemma map_links:
  assumes "I s" and "plan_ok cfg j fits ts s"
  shows "I (snd (enqueue_map_links e j src links dep ts s))"
proof -
  let ?ms = "map (\<lambda>link. \<lparr>m_job = j, m_source_url = src, m_target_url = link, m_depth = dep\<rparr>) links"
  let ?s1 = "s\<lparr>tick := Suc (tick s)\<rparr>"
  have "I (snd (in_tx e (enqueue_map_body e j src links dep ts) s))"
  proof (rule in_tx_state [OF tick_free_I assms(1) _ rolls_back])
    fix tx
    obtain r s2 where b: "insert_mapped_batch e tx ?ms ?s1 = (r, s2)" by (cases "insert_mapped_batch e tx ?ms ?s1")
    have "I s2" using keepsD [OF mapped_batch, of ?ms ?s1 tx] b assms(1) by (simp add: ticks)
    moreover have "tasks s2 = tasks s" using mapped_tasks_same [of e tx ?ms ?s1] b by simp
    then have "plan_ok cfg j fits ts s2" using assms(2) room_cong [of s2 s] by (simp add: plan_ok_def)
    ultimately show "I (snd (enqueue_map_body e j src links dep ts tx ?s1))"
      using b new_tasks [of s2 ts tx] by (cases r) (auto simp: enqueue_map_body_def andthen_def)
  next
    fix tx s0 show "keeps (later_seqs s0) (enqueue_map_body e j src links dep ts tx)"
      by (auto simp: enqueue_map_body_def intro!: keeps_intros)
  qed
  then show ?thesis using assms(1) by (simp add: enqueue_map_links_def)
qed

lemma keeps_fetch: "keeps J (fetch_with_limit nt cfg u js)"
  by (simp add: keeps_def fetch_with_limit_def Let_def split: sum.splits)

lemma keeps_allowed: "keeps J (ensure_robots_allowed nt cfg u ua)"
  by (auto simp: keeps_def ensure_robots_allowed_def Let_def split: prod.splits)

lemma keeps_wait: "keeps J (robots_wait e nt cfg u)"
  by (auto simp: keeps_def robots_wait_def Let_def split: prod.splits option.splits)

lemma keeps_ignoring_db: "keeps I f \<Longrightarrow> J w \<Longrightarrow> J (ignoring (on_db f) w)"
  using keepsD [OF keeps_on_db] by (fastforce simp: ignoring_def)

lemma keeps_store:
  assumes "t_job t = j"
  shows "keeps J (store_document e cfg t u outputs primary x ps jobType)"
proof -
  let ?d = "\<lparr>d_job = t_job t, d_requested_url = t_requested_url t, d_final_url = u,
            d_title = x_title x, d_content_md = primary, d_content_raw = primary, d_meta = stored_meta x ps jobType outputs\<rparr>"
  show ?thesis
  proof (cases "jd_max_bytes (c_job_defaults cfg) > 0 \<and>
      int (max_content_length outputs primary) > jd_max_bytes (c_job_defaults cfg)")
    case True
    then show ?thesis by (simp add: store_document_def Let_def keeps_return)
  next
    case False
    then have "doc_fits cfg ?d" unfolding doc_fits_def by (intro exI [of _ x] exI [of _ ps] exI [of _ jobType] exI [of _ outputs]) auto
    then have "keeps J (on_db (insert_document e ?d))" using assms by (intro keeps_on_db document) simp_all
    then show ?thesis using False
      by (auto simp: store_document_def Let_def keeps_ignoring_db mark intro!: keeps_andthen keeps_return keeps_then
          split: sum.splits)
  qed
qed

lemma keeps_document_task:
  assumes "t_job t = j" and "t_id t = i"
  shows "keeps J (process_document_task e nt cfg t ps jobType)"
proof -
  have "keeps J (fetch_extract_and_store e nt cfg t ps jobType)"
    unfolding fetch_extract_and_store_def assms(2)
    by (auto simp: Let_def keeps_ignoring_db final_url split: sum.splits
        intro!: keeps_andthen keeps_fetch keeps_store [OF assms(1)] keeps_result keeps_then)
  then show ?thesis
    unfolding process_document_task_def by (intro keeps_andthen keeps_allowed keeps_wait)
qed

lemma keeps_plan: "keeps J (plan_links e cfg t links)"
proof -
  have "keeps I (link_tasks_loop (has_seen_canonical e) d k ls ts)" for d k ls ts
    by (induction ls arbitrary: ts)
      (auto simp: Let_def has_seen_canonical_def intro!: keeps_andthen keeps_return keeps_should_skip reads)
  then show ?thesis
    by (auto simp: plan_links_def build_link_tasks_def task_count_def Let_def
        intro!: keeps_on_db keeps_andthen keeps_if keeps_return reads)
qed

lemma J_past: "past_max_duration e cfg created w = (b, w') \<Longrightarrow> J w' = J w"
  by (auto simp: past_max_duration_def read_clock_def Let_def ticks split: if_splits)

lemma J_links: "links_of_page nt cfg t ps raw w = (links, w') \<Longrightarrow> J w' = J w"
  by (auto simp: links_of_page_def Let_def split: if_splits prod.splits)

lemma plan_links_Ok:
  assumes "plan_links e cfg t links w = (Ok ts, w')" and "fits (t_depth t + 1)" and "t_job t = j"
  shows "plan_ok cfg j fits ts (w_db w')"
proof -
  have b: "build_link_tasks (has_seen_canonical e) (task_count e) cfg j links (t_depth t + 1) (w_db w) = (Ok ts, w_db w')"
    using on_db_eq [OF assms(1) [unfolded plan_links_def]] assms(3) by simp
  note p = planner.build_link_tasks_Ok [OF b]
  have "\<forall>u \<in> set (planner.planned cfg (w_db w) links (t_depth t + 1)). t_status u = TaskStatusQueued \<and> t_depth u = t_depth t + 1"
    by (auto simp: planner.planned_def new_task_def)
  then have "\<forall>u \<in> set ts. t_status u = TaskStatusQueued \<and> fits (t_depth u)"
    using p(1) assms(2) by (auto dest!: in_set_takeD split: if_splits)
  moreover have "room cfg j ts (w_db w')" using p by (auto simp: room_def)
  ultimately show ?thesis by (simp add: plan_ok_def)
qed

text \<open>What a task does with its links, once it may go deeper.\<close>

lemma keeps_link_tasks:
  assumes "\<And>ts w. J w \<Longrightarrow> plan_ok cfg j fits ts (w_db w) \<Longrightarrow> J (snd (k ts w))" and "fits (t_depth t + 1)" and "t_job t = j"
  shows "keeps J (andthen (plan_links e cfg t links) k)"
proof (rule keepsI)
  fix w assume "J w"
  obtain r w1 where p: "plan_links e cfg t links w = (r, w1)" by (cases "plan_links e cfg t links w")
  have "J w1" using keepsD [OF keeps_plan \<open>J w\<close>, of t links] p by simp
  then show "J (snd (andthen (plan_links e cfg t links) k w))"
    using assms(1) plan_links_Ok [OF _ assms(2,3)] p by (cases r) (auto simp: andthen_def)
qed

lemma keeps_crawl_task:
  assumes "t_job t = j" and "t_id t = i" and "t_depth t < get_int ps ''max_depth'' \<Longrightarrow> fits (t_depth t + 1)"
  shows "keeps J (process_crawl_task e nt cfg t ps jobType)"
  unfolding process_crawl_task_def
proof (rule keeps_andthen [OF keeps_document_task [OF assms(1,2)]], rule keepsI)
  fix x w assume "J w"
  have "keeps J (andthen (plan_links e cfg t links) (\<lambda>ts.
      if length ts = 0 then (\<lambda>w. (Ok (), w)) else on_db (insert_tasks e Pool (t_job t) ts)))"
    if "t_depth t < get_int ps ''max_depth''" for links
    by (rule keeps_link_tasks) (auto simp: assms that on_db_snd new_tasks)
  note this [THEN keepsD]
  with \<open>J w\<close> show "J (snd (if t_depth t \<ge> get_int ps ''max_depth'' then (Ok (), w)
       else case past_max_duration e cfg (t_created_at t) w of (late, w1) \<Rightarrow>
         if late then (Fail ''max_duration exceeded'', w1)
         else case links_of_page nt cfg t ps (x_links x) w1 of (links, w2) \<Rightarrow>
           if length links = 0 then (Ok (), w2)
           else andthen (plan_links e cfg t links) (\<lambda>ts.
                  if length ts = 0 then (\<lambda>w. (Ok (), w))
                  else on_db (insert_tasks e Pool (t_job t) ts)) w2))"
    by (auto split: prod.splits dest!: J_past J_links)
qed

lemma keeps_map_task:
  assumes "t_job t = j" and "t_id t = i" and "t_depth t < get_int ps ''max_depth'' \<Longrightarrow> fits (t_depth t + 1)"
  shows "keeps J (process_map_task e nt cfg t ps jobType)"
  unfolding process_map_task_def
proof (intro keeps_andthen keeps_allowed keeps_wait keeps_fetch keeps_result, rule keepsI)
  fix x w assume "J w"
  have "keeps J (andthen (plan_links e cfg t links) (\<lambda>ts.
      on_db (enqueue_map_links e (t_job t) (t_requested_url t) links (t_depth t + 1) ts)))"
    if "t_depth t < get_int ps ''max_depth''" for links
    by (rule keeps_link_tasks) (auto simp: assms that on_db_snd map_links)
  note this [THEN keepsD]
  with \<open>J w\<close> show "J (snd (if t_depth t \<ge> get_int ps ''max_depth'' then (Ok (), w)
       else case links_of_page nt cfg t ps (x_links x) w of (links, w1) \<Rightarrow>
         if length links = 0 then (Ok (), w1)
         else andthen (plan_links e cfg t links) (\<lambda>ts.
                on_db (enqueue_map_links e (t_job t) (t_requested_url t) links (t_depth t + 1) ts)) w1))"
    by (auto split: prod.splits dest!: J_links)
qed

lemma keeps_dispatch:
  assumes "t_job t = j" and "t_id t = i" and "\<And>k. k \<le> get_int (params_of (j_params jb)) ''max_depth'' \<Longrightarrow> fits k"
  shows "keeps J (dispatch_task e nt cfg t jb)"
  using assms by (auto simp: dispatch_task_def intro!: keeps_if keeps_andthen keeps_return keeps_document_task
      keeps_crawl_task keeps_map_task)

lemma keeps_handle_task:
  assumes "t_job t = j" and "t_id t = i"
  shows "keeps J (handle_task e nt cfg t)"
proof (rule keepsI)
  fix w assume J: "J w"
  obtain r w0 where g: "on_db (get_job e j) w = (r, w0)" by (cases "on_db (get_job e j) w")
  have "keeps I (get_job e j)"
    by (auto simp: get_job_def keeps_def exec_def Let_def ticks split: option.splits)
  from keepsD [OF keeps_on_db [OF this], of w] have J0: "J w0" using J g by simp
  show "J (snd (handle_task e nt cfg t w))"
  proof (cases r)
    case (Inl err)
    then show ?thesis using g J0 assms by (simp add: handle_task_def andthen_def)
  next
    case (Inr jb)
    have jb: "j_id jb = j" using on_db_eq [OF g] Inr
      by (auto simp: get_job_def find_Some_iff dest!: exec_ok split: option.splits)
    have "fits k" if "k \<le> get_int (params_of (j_params jb)) ''max_depth''" for k
      using depth [OF J _ that] on_db_eq [OF g] Inr by blast
    note d = keepsD [OF keeps_dispatch [OF assms this]]
    obtain late w1 where p: "past_max_duration e cfg (j_created_at jb) w0 = (late, w1)"
      by (cases "past_max_duration e cfg (j_created_at jb) w0")
    have J1: "J w1" using J_past [OF p] J0 by simp
    then show ?thesis using g Inr p jb assms
      by (simp add: handle_task_def andthen_def d keeps_ignoring_db start cancels)
  qed
qed

end

text \<open>Properties of the tasks alone, without their URLs: the laws that are left to show.\<close>

locale task_table =
  fixes I :: "db \<Rightarrow> bool"
  assumes tables: "tasks s = tasks s' \<Longrightarrow> task_seq s = task_seq s' \<Longrightarrow> I s = I s'"
    and same_columns: "(\<And>t. t_id (f t) = t_id t) \<Longrightarrow> (\<And>t. t_job (f t) = t_job t) \<Longrightarrow> (\<And>t. t_status (f t) = t_status t) \<Longrightarrow>
      (\<And>t. t_attempts (f t) = t_attempts t) \<Longrightarrow> I s \<Longrightarrow> I (s\<lparr>tasks := map f (tasks s)\<rparr>)"
    and queued_row: "I s \<Longrightarrow> t_id r = task_seq s + 1 \<Longrightarrow> t_status r = TaskStatusQueued \<Longrightarrow> t_attempts r = 0 \<Longrightarrow>
      I (s\<lparr>task_seq := task_seq s + 1, tasks := tasks s @ [r]\<rparr>)"
    and later_id: "I s \<Longrightarrow> task_seq s \<le> n \<Longrightarrow> I (s\<lparr>task_seq := n\<rparr>)"
begin

lemma other_tables [simp]:
  "I (s\<lparr>tick := i\<rparr>) = I s" "I (s\<lparr>jobs := js\<rparr>) = I s" "I (s\<lparr>documents := ds\<rparr>) = I s" "I (s\<lparr>doc_seq := k\<rparr>) = I s"
  "I (s\<lparr>mapped_urls := ms\<rparr>) = I s" "I (s\<lparr>map_seq := k\<rparr>) = I s" "I (s\<lparr>dedupe_cache := c\<rparr>) = I s" "I (update_job j f s) = I s"
  by (rule tables; simp add: update_job_def)+

lemma keeps_statement: "(\<And>now. keeps I (body now)) \<Longrightarrow> keeps I (exec e c body)"
  by (rule keeps_exec) (simp_all add: tick_free_def)

lemma keeps_task_row: "t_status t = TaskStatusQueued \<Longrightarrow> keeps I (insert_task_row e c j t)"
  unfolding insert_task_row_def Let_def by (intro keeps_statement keepsI) (auto intro: queued_row later_id)

lemma keeps_url: "keeps I (update_task_final_url e i url)"
  unfolding update_task_final_url_def
  by (rule keeps_statement, rule keeps_then, rule same_columns) (auto simp: set_final_url_def)

lemma keeps_new_document: "keeps I (insert_document e d)"
  unfolding insert_document_def by (rule keeps_statement, rule keepsI) (auto simp: Let_def)

lemma keeps_new_mapped: "keeps I (insert_mapped_row e c r)"
  unfolding insert_mapped_row_def by (rule keeps_statement, rule keepsI) (auto simp: Let_def)

lemma keeps_job_statements:
  "keeps I (start_job e j)" "keeps I (update_job_status e j st msg)" "keeps I (mark_canonical e url)"
  by (auto simp: start_job_def update_job_status_def mark_canonical_def intro!: keeps_statement keeps_then)

lemma rolled_back: "I s0 \<Longrightarrow> later_seqs s0 s \<Longrightarrow> I (rollback s0 s)"
  using later_id [of s0 "task_seq s"] tables [of "rollback s0 s" "s0\<lparr>task_seq := task_seq s\<rparr>"]
  by (simp add: rollback_def later_seqs_def)

end

sublocale task_table \<subseteq> task_laws I e cfg j i "\<lambda>_. True" for e cfg j i
  by unfold_locales
    (auto intro: keeps_url keeps_new_document keeps_new_mapped keeps_job_statements rolled_back keepsD [OF keeps_task_row])

section \<open>The loop of a worker\<close>

locale worker_laws =
  fixes I :: "db \<Rightarrow> bool" and e :: env and cfg :: config and fits :: "string \<Rightarrow> int \<Rightarrow> bool"
  assumes per_task: "task_laws I e cfg j i (fits j)"
    and dequeues: "keeps I (dequeue_task e lease)"
    and completes: "keeps I (complete_task e i)"
    and fails: "keeps I (fail_task e i msg)"
    and retries: "keeps I (retry_task e i msg)"
    and finishes: "keeps I (finish_job e j)"

sublocale worker_laws \<subseteq> of_task: task_laws I e cfg j i "fits j" for j i
  by (rule per_task)

context worker_laws begin

lemma settle_keeps: "I (w_db w) \<Longrightarrow> I (w_db (snd (settle_task e nt cfg t r w)))"
  by (auto simp: settle_task_def Let_def of_task.keeps_ignoring_db completes fails retries split: sum.splits)

lemma round_keeps: "I (w_db w) \<Longrightarrow> I (w_db (snd (worker_round e nt cfg w)))"
proof -
  assume I: "I (w_db w)"
  obtain r w1 where d: "on_db (dequeue_task e (wc_lease_timeout (c_worker cfg))) w = (r, w1)"
    by (cases "on_db (dequeue_task e (wc_lease_timeout (c_worker cfg))) w")
  have I1: "I (w_db w1)" using keepsD [OF keeps_on_db [OF dequeues], of w] I d by (metis snd_conv)
  show ?thesis
  proof (cases r)
    case (Inl err)
    then show ?thesis using d I1 by (simp add: worker_round_def)
  next
    case (Inr t)
    obtain r2 w2 where h: "handle_task e nt cfg t w1 = (r2, w2)" by (cases "handle_task e nt cfg t w1")
    have "I (w_db w2)" using keepsD [OF of_task.keeps_handle_task [OF refl refl], OF I1] h by (metis snd_conv)
    then show ?thesis using d Inr h settle_keeps [of w2 nt t r2]
      by (auto simp: worker_round_def of_task.keeps_ignoring_db finishes split: prod.splits)
  qed
qed

lemma run_keeps: "I (w_db w) \<Longrightarrow> I (w_db (run_worker e nt cfg n w))"
  by (induction n arbitrary: w) (simp_all add: round_keeps)

end

section \<open>The tables stay consistent\<close>

interpretation tables: worker_laws db_inv e cfg "\<lambda>_ _. True" for e cfg
  by unfold_locales (auto intro: db_inv_rollback keepsD [OF keeps_insert_task_row] intro!: keeps_intros)

text \<open>A worker, running for as long as it likes over any servers, browsers, robots.txt files, random numbers and
  failures of the database, keeps the tables consistent: keys unique, one task per job and URL, no
  orphans, task columns in agreement with the status.\<close>

theorem worker_keeps_tables:
  assumes "db_inv (w_db w)"
  shows "db_inv (w_db (run_worker e nt cfg n w))"
  using assms by (rule tables.run_keeps)

section \<open>Properties of rows\<close>

text \<open>A property of each job, task and document row.\<close>

definition rows_ok :: "(job \<Rightarrow> bool) \<Rightarrow> (task \<Rightarrow> bool) \<Rightarrow> (document_row \<Rightarrow> bool) \<Rightarrow> db \<Rightarrow> bool" where
  "rows_ok P Q R s \<longleftrightarrow> (\<forall>x \<in> set (jobs s). P x) \<and> (\<forall>x \<in> set (tasks s). Q x) \<and> (\<forall>x \<in> set (documents s). R x)"

lemma rows_ok_simps [simp]:
  "rows_ok P Q R (s\<lparr>tick := n\<rparr>) = rows_ok P Q R s" "rows_ok P Q R (s\<lparr>task_seq := k\<rparr>) = rows_ok P Q R s"
  "rows_ok P Q R (s\<lparr>doc_seq := k\<rparr>) = rows_ok P Q R s" "rows_ok P Q R (s\<lparr>map_seq := k\<rparr>) = rows_ok P Q R s"
  "rows_ok P Q R (s\<lparr>mapped_urls := ms\<rparr>) = rows_ok P Q R s" "rows_ok P Q R (s\<lparr>dedupe_cache := c\<rparr>) = rows_ok P Q R s"
  by (simp_all add: rows_ok_def)

lemma rows_ok_rollback: "rows_ok P Q R s0 \<Longrightarrow> rows_ok P Q R (rollback s0 s)"
  by (simp add: rows_ok_def rollback_def)

lemma tick_free_rows [simp]: "tick_free (rows_ok P Q R)"
  by (simp add: tick_free_def)

lemma keeps_rows_exec: "(\<And>now. keeps (rows_ok P Q R) (body now)) \<Longrightarrow> keeps (rows_ok P Q R) (exec e c body)"
  by (rule keeps_exec) simp_all

text \<open>Properties that no update of a row by the worker can change.\<close>

locale stable_rows =
  fixes P :: "job \<Rightarrow> bool" and Q :: "task \<Rightarrow> bool" and R :: "document_row \<Rightarrow> bool" and cfg :: config
    and fits :: "string \<Rightarrow> int \<Rightarrow> bool"
  assumes job_updates: "P jb \<Longrightarrow> j_id jb' = j_id jb \<Longrightarrow> j_type jb' = j_type jb \<Longrightarrow> j_params jb' = j_params jb \<Longrightarrow> P jb'"
    and task_updates: "Q t \<Longrightarrow> t_job t' = t_job t \<Longrightarrow> t_depth t' = t_depth t \<Longrightarrow> Q t'"
    and fitting: "fits (t_job t) (t_depth t) \<Longrightarrow> Q t"
    and depths: "P jb \<Longrightarrow> k \<le> get_int (params_of (j_params jb)) ''max_depth'' \<Longrightarrow> fits (j_id jb) k"
    and new_rows: "doc_fits cfg (document.truncate r) \<Longrightarrow> R r"
begin

lemma rows_update_job:
  "(\<And>jb. j_id (f jb) = j_id jb) \<Longrightarrow> (\<And>jb. j_type (f jb) = j_type jb) \<Longrightarrow> (\<And>jb. j_params (f jb) = j_params jb) \<Longrightarrow>
   rows_ok P Q R s \<Longrightarrow> rows_ok P Q R (update_job i f s)"
  by (auto simp: rows_ok_def update_job_def intro: job_updates)

lemma rows_map_task:
  "(\<And>t. t_job (f t) = t_job t) \<Longrightarrow> (\<And>t. t_depth (f t) = t_depth t) \<Longrightarrow> rows_ok P Q R s \<Longrightarrow>
   rows_ok P Q R (s\<lparr>tasks := map f (tasks s)\<rparr>)"
  by (auto simp: rows_ok_def intro: task_updates)

lemma rows_update_task:
  "(\<And>t. t_job (f t) = t_job t) \<Longrightarrow> (\<And>t. t_depth (f t) = t_depth t) \<Longrightarrow> rows_ok P Q R s \<Longrightarrow> rows_ok P Q R (update_task i f s)"
  unfolding update_task_def by (rule rows_map_task) auto

lemma rows_job_statements:
  "keeps (rows_ok P Q R) (start_job e j)" "keeps (rows_ok P Q R) (update_job_status e j st msg)"
  by (auto simp: start_job_def update_job_status_def intro!: keeps_rows_exec keeps_then rows_update_job)

lemma rows_task_statements:
  "keeps (rows_ok P Q R) (complete_task e i)" "keeps (rows_ok P Q R) (fail_task e i msg)"
  "keeps (rows_ok P Q R) (retry_task e i msg)" "keeps (rows_ok P Q R) (update_task_final_url e i url)"
  by (auto simp: complete_task_def fail_task_def retry_task_def update_task_final_url_def
      intro!: keeps_rows_exec keeps_then rows_update_task rows_map_task)

lemma rows_reads: "keeps (rows_ok P Q R) (exec e c (\<lambda>now s. (f now s, s)))"
  by (rule keeps_rows_exec) (rule keeps_result)

lemma rows_finish: "keeps (rows_ok P Q R) (finish_job e j)"
  by (auto simp: finish_job_def pending_task_counts_def has_failed_tasks_def
      intro!: keeps_andthen rows_reads keeps_if keeps_return rows_job_statements split: prod.splits)

lemma rows_dequeue: "keeps (rows_ok P Q R) (dequeue_task e lease)"
proof -
  have "keeps (rows_ok P Q R) (\<lambda>s. case claim_candidates (row_locked e (tick s)) th s of
             [] \<Rightarrow> (Inl ErrNoRows, s) | t # _ \<Rightarrow> (Ok (claim now t), update_task (t_id t) (claim now) s))" for th now
    by (auto intro!: keepsI rows_update_task simp: claim_def split: list.splits)
  from keepsD [OF keeps_rows_exec [OF this]] show ?thesis
    by (auto simp: dequeue_task_def read_clock_def Let_def intro!: keepsI)
qed

lemma rows_document: "doc_fits cfg d \<Longrightarrow> keeps (rows_ok P Q R) (insert_document e d)"
  unfolding insert_document_def
  by (rule keeps_rows_exec, cases d) (auto simp: Let_def rows_ok_def document.truncate_def intro!: keepsI new_rows)

lemma rows_task_row: "fits j (t_depth t) \<Longrightarrow> keeps (rows_ok P Q R) (insert_task_row e c j t)"
  unfolding insert_task_row_def
  by (rule keeps_rows_exec) (auto simp: Let_def rows_ok_def intro!: keepsI fitting)

lemma rows_mapped: "keeps (rows_ok P Q R) (insert_mapped_row e c m)"
  unfolding insert_mapped_row_def by (rule keeps_rows_exec) (auto simp: Let_def intro!: keepsI)

lemma rows_mark: "keeps (rows_ok P Q R) (mark_canonical e u)"
  unfolding mark_canonical_def by (rule keeps_rows_exec) (auto intro!: keepsI)

lemma rows_depth:
  "rows_ok P Q R s \<Longrightarrow> get_job e j s = (Ok jb, s') \<Longrightarrow> k \<le> get_int (params_of (j_params jb)) ''max_depth'' \<Longrightarrow> fits j k"
  using depths by (fastforce simp: get_job_def rows_ok_def find_Some_iff dest!: exec_ok nth_mem split: option.splits)

end

sublocale stable_rows \<subseteq> worker_laws "rows_ok P Q R" e cfg fits for e
  by unfold_locales (auto intro: rows_job_statements rows_task_statements rows_mark rows_document keepsD [OF rows_task_row]
      rows_mapped rows_ok_rollback rows_dequeue rows_finish rows_depth)

section \<open>Depth and size\<close>

definition job_depth :: "job \<Rightarrow> int" where
  "job_depth jb = get_int (params_of (j_params jb)) ''max_depth''"

text \<open>Jobs as they are in \<open>js\<close>, tasks within the depth of their job, documents of \<open>ds\<close> or within the size limit.\<close>

definition same_depth :: "job list \<Rightarrow> job \<Rightarrow> bool" where
  "same_depth js jb \<longleftrightarrow> (\<exists>x \<in> set js. j_id x = j_id jb \<and> job_depth x = job_depth jb)"

definition within_depth :: "job list \<Rightarrow> string \<Rightarrow> int \<Rightarrow> bool" where
  "within_depth js j k \<longleftrightarrow> (\<exists>x \<in> set js. j_id x = j \<and> k \<le> max 0 (job_depth x))"

definition row_fits :: "config \<Rightarrow> document_row list \<Rightarrow> document_row \<Rightarrow> bool" where
  "row_fits cfg ds r \<longleftrightarrow> r \<in> set ds \<or> doc_fits cfg (document.truncate r)"

interpretation crawl: stable_rows "same_depth js" "\<lambda>t. within_depth js (t_job t) (t_depth t)" "row_fits cfg ds" cfg "within_depth js"
  for js cfg ds
  by unfold_locales (fastforce simp: same_depth_def within_depth_def row_fits_def job_depth_def)+

interpretation sizes: stable_rows "\<lambda>_. True" "\<lambda>_. True" "row_fits cfg ds" cfg "\<lambda>_ _. True" for cfg ds
  by unfold_locales (simp_all add: row_fits_def)

lemma length_fold_max: "m \<le> fold (\<lambda>(f, c) m. if length c > m then length c else m) outputs m
   \<and> (\<forall>(f, c) \<in> set outputs. length c \<le> fold (\<lambda>(f, c) m. if length c > m then length c else m) outputs m)"
proof (induction outputs arbitrary: m)
  case Nil
  then show ?case by simp
next
  case (Cons p outputs)
  obtain f c where "p = (f, c)" by (cases p)
  then show ?case using Cons [of m] Cons [of "length c"] by (auto intro: order_trans)
qed

lemma max_content_length_bounds:
  "length primary \<le> max_content_length outputs primary" "(f, c) \<in> set outputs \<Longrightarrow> length c \<le> max_content_length outputs primary"
  using length_fold_max [of "length primary" outputs] by (auto simp: max_content_length_def)

definition depths_ok :: "db \<Rightarrow> bool" where
  "depths_ok s \<longleftrightarrow> (\<forall>t \<in> set (tasks s). \<forall>jb \<in> set (jobs s). j_id jb = t_job t \<longrightarrow> t_depth t \<le> max 0 (job_depth jb))"

text \<open>Both bounds as properties of rows, relative to the jobs \<open>jobs s0\<close> of an earlier state.\<close>

abbreviation crawl_rows :: "config \<Rightarrow> document_row list \<Rightarrow> db \<Rightarrow> db \<Rightarrow> bool" where
  "crawl_rows cfg ds s0 \<equiv> rows_ok (same_depth (jobs s0)) (\<lambda>t. within_depth (jobs s0) (t_job t) (t_depth t)) (row_fits cfg ds)"

lemma rows_of_depths:
  assumes "db_inv s" and "depths_ok s" and "\<forall>d \<in> set (documents s). row_fits cfg ds d"
  shows "crawl_rows cfg ds s s"
proof -
  have "\<exists>jb \<in> set (jobs s). j_id jb = t_job t" if "t \<in> set (tasks s)" for t
  proof -
    have "job_exists (t_job t) s" using assms(1) that by (simp add: db_inv_def tasks_ok_def)
    then show ?thesis by (auto simp: job_exists_def)
  qed
  then have "within_depth (jobs s) (t_job t) (t_depth t)" if "t \<in> set (tasks s)" for t
    using that assms(2) unfolding within_depth_def depths_ok_def by blast
  moreover have "same_depth (jobs s) jb" if "jb \<in> set (jobs s)" for jb
    using that by (auto simp: same_depth_def)
  ultimately show ?thesis using assms(3) by (simp add: rows_ok_def)
qed

lemma depths_of_rows:
  assumes "db_inv s0" and "crawl_rows cfg ds s0 s"
  shows "depths_ok s"
  unfolding depths_ok_def
proof (intro ballI impI)
  fix t jb
  assume t: "t \<in> set (tasks s)" and jb: "jb \<in> set (jobs s)" and id: "j_id jb = t_job t"
  have dist: "distinct (map j_id (jobs s0))" using assms(1) by (simp add: db_inv_defs)
  have "within_depth (jobs s0) (t_job t) (t_depth t)" "same_depth (jobs s0) jb"
    using assms(2) t jb by (auto simp: rows_ok_def)
  then obtain x y where "x \<in> set (jobs s0)" "j_id x = t_job t" "t_depth t \<le> max 0 (job_depth x)"
    "y \<in> set (jobs s0)" "j_id y = j_id jb" "job_depth y = job_depth jb"
    unfolding within_depth_def same_depth_def by blast
  moreover from this have "x = y" using distinct_map_inj_on_key [OF dist] id by metis
  ultimately show "t_depth t \<le> max 0 (job_depth jb)" by simp
qed

text \<open>No crawl or map goes deeper than the depth its job asked for: if every task is at a depth within the
  \<open>max_depth\<close> of its job's parameters (a seed is at depth zero), then so is every task after any number of
  rounds of a worker, whatever pages, redirects and sitemaps it meets.\<close>

theorem crawl_depth_bounded:
  assumes "db_inv (w_db w)" and "depths_ok (w_db w)"
  shows "depths_ok (w_db (run_worker e nt cfg n w))"
proof (rule depths_of_rows [OF assms(1)])
  show "crawl_rows cfg (documents (w_db w)) (w_db w) (w_db (run_worker e nt cfg n w))"
    by (rule crawl.run_keeps, rule rows_of_depths [OF assms]) (simp add: row_fits_def)
qed

text \<open>With a positive \<open>max_bytes\<close>, no document that a worker stores has a content, or a rendering in another
  requested format, longer than \<open>max_bytes\<close>.\<close>

theorem stored_documents_within_max_bytes:
  assumes "jd_max_bytes (c_job_defaults cfg) > 0"
  shows "\<forall>d \<in> set (documents (w_db (run_worker e nt cfg n w))) - set (documents (w_db w)).
    int (length (d_content_md d)) \<le> jd_max_bytes (c_job_defaults cfg) \<and>
    (\<exists>x ps jobType outputs. d_meta d = stored_meta x ps jobType outputs \<and>
       (\<forall>(f, c) \<in> set outputs. int (length c) \<le> jd_max_bytes (c_job_defaults cfg)))"
proof
  fix d assume d: "d \<in> set (documents (w_db (run_worker e nt cfg n w))) - set (documents (w_db w))"
  have "rows_ok (\<lambda>_. True) (\<lambda>_. True) (row_fits cfg (documents (w_db w))) (w_db w)"
    by (simp add: rows_ok_def row_fits_def)
  from sizes.run_keeps [OF this, of e nt n] have "doc_fits cfg (document.truncate d)"
    using d by (auto simp: rows_ok_def row_fits_def)
  then obtain x ps jobType outputs where m: "d_meta d = stored_meta x ps jobType outputs"
    and l: "int (max_content_length outputs (d_content_md d)) \<le> jd_max_bytes (c_job_defaults cfg)"
    using assms(1) by (auto simp: doc_fits_def document.truncate_def)
  have "int (length c) \<le> jd_max_bytes (c_job_defaults cfg)" if "(f, c) \<in> set outputs" for f c
    using max_content_length_bounds(2) [OF that, of "d_content_md d"] l by linarith
  moreover have "int (length (d_content_md d)) \<le> jd_max_bytes (c_job_defaults cfg)"
    using max_content_length_bounds(1) [of "d_content_md d" outputs] l by linarith
  ultimately show "int (length (d_content_md d)) \<le> jd_max_bytes (c_job_defaults cfg) \<and>
    (\<exists>x ps jobType outputs. d_meta d = stored_meta x ps jobType outputs \<and>
       (\<forall>(f, c) \<in> set outputs. int (length c) \<le> jd_max_bytes (c_job_defaults cfg)))" using m by blast
qed

section \<open>Attempts\<close>

text \<open>
  With a limit of \<open>m\<close> retries: a task that has failed was tried \<open>m + 1\<close> times, any other has used at most
  \<open>m\<close> attempts.
\<close>

definition attempts_ok :: "int \<Rightarrow> task \<Rightarrow> bool" where
  "attempts_ok m t \<longleftrightarrow> (if t_status t = TaskStatusFailed then t_attempts t = m + 1 else t_attempts t \<le> m)"

text \<open>While a worker holds the task \<open>i\<close>, which it claimed with \<open>a\<close> attempts.\<close>

definition held_attempts :: "int \<Rightarrow> int \<Rightarrow> int \<Rightarrow> db \<Rightarrow> bool" where
  "held_attempts m i a s \<longleftrightarrow> i \<le> task_seq s \<and> 0 \<le> m \<and>
     (\<forall>t \<in> set (tasks s). attempts_ok m t) \<and> (\<forall>t \<in> set (tasks s). t_id t = i \<longrightarrow> t_attempts t = a)"

interpretation held: task_table "held_attempts m i a" for m i a
  by unfold_locales (auto simp: held_attempts_def attempts_ok_def)

text \<open>The claim of a task starts the hold; the statement for its outcome ends it.\<close>

lemma dequeue_attempts:
  assumes "dequeue_task e lease s = (r, s')" and "db_inv s" and "0 \<le> m" and "\<forall>t \<in> set (tasks s). attempts_ok m t"
  shows "case r of Inl _ \<Rightarrow> tasks s' = tasks s
    | Inr t \<Rightarrow> t_attempts t \<le> m \<and> held_attempts m (t_id t) (t_attempts t) s'"
proof (cases r)
  case (Inl err)
  then show ?thesis using assms(1)
    by (auto simp: dequeue_task_def read_clock_def exec_def Let_def split: option.splits list.splits)
next
  case (Inr t)
  define now where "now = pg_now e (Suc (tick s))"
  obtain t0 where t0: "t0 \<in> set (tasks s)" "t = claim now t0" "claimable (go_now e (tick s) - lease) t0"
    and s': "s' = update_task (t_id t0) (claim now) (s\<lparr>tick := tick s + 2\<rparr>)"
    using dequeue_Ok [of e lease s t s'] assms(1) Inr unfolding now_def by blast
  have ids: "distinct (map t_id (tasks s))" and le: "t_id t0 \<le> task_seq s"
    using assms(2) t0(1) by (auto simp: db_inv_def tasks_ok_def serial_ok_def)
  have a: "t_attempts t0 \<le> m" using assms(4) t0(1,3) by (auto simp: attempts_ok_def claimable_def)
  have one: "u = t0" if "u \<in> set (tasks s)" "t_id u = t_id t0" for u
    using distinct_map_inj_on_key [OF ids that(1) t0(1) that(2)] .
  define f where "f u = (if t_id u = t_id t0 then claim now u else u)" for u
  have "attempts_ok m (f u) \<and> (t_id (f u) = t_id t0 \<longrightarrow> t_attempts (f u) = t_attempts t0)" if "u \<in> set (tasks s)" for u
    using one [OF that] a assms(4) that by (cases "t_id u = t_id t0") (auto simp: attempts_ok_def claim_def f_def)
  moreover have "s' = s\<lparr>tick := tick s + 2, tasks := map f (tasks s)\<rparr>" by (simp add: s' update_task_def f_def [abs_def])
  ultimately have "held_attempts m (t_id t0) (t_attempts t0) s'" using assms(3) le by (simp add: held_attempts_def)
  then show ?thesis using Inr t0(2) a by (simp add: claim_def)
qed

lemma settle_attempts:
  assumes "held_attempts (wc_max_retries (c_worker cfg)) (t_id t) (t_attempts t) (w_db w)"
    and "t_attempts t \<le> wc_max_retries (c_worker cfg)"
  shows "\<forall>u \<in> set (tasks (w_db (snd (settle_task e nt cfg t r w)))). attempts_ok (wc_max_retries (c_worker cfg)) u"
proof -
  have upd: "\<forall>u \<in> set (tasks (w_db (ignoring (on_db (exec e Pool (\<lambda>now s. (Ok (), update_task (t_id t) (g now) s)))) w))).
      attempts_ok (wc_max_retries (c_worker cfg)) u"
    if "\<And>now u. t_attempts u = t_attempts t \<Longrightarrow> attempts_ok (wc_max_retries (c_worker cfg)) u \<Longrightarrow>
        attempts_ok (wc_max_retries (c_worker cfg)) (g now u)" for g
    using assms(1) that
    by (auto simp: ignoring_def on_db_def exec_def Let_def held_attempts_def update_task_def split: option.splits)
  let ?done = "\<lambda>w. \<forall>u \<in> set (tasks (w_db w)). attempts_ok (wc_max_retries (c_worker cfg)) u"
  have "?done (ignoring (on_db (complete_task e (t_id t))) w)"
    unfolding complete_task_def by (rule upd) (use assms(2) in \<open>simp add: attempts_ok_def\<close>)
  moreover have "?done (ignoring (on_db (retry_task e (t_id t) msg)) w)"
    if "t_attempts t < wc_max_retries (c_worker cfg)" for msg
    unfolding retry_task_def by (rule upd) (use that in \<open>simp add: attempts_ok_def\<close>)
  moreover have "?done (ignoring (on_db (fail_task e (t_id t) msg)) w)"
    if "t_attempts t = wc_max_retries (c_worker cfg)" for msg
    unfolding fail_task_def by (rule upd) (use that in \<open>simp add: attempts_ok_def\<close>)
  ultimately show ?thesis
    using assms(2) by (cases r) (simp_all add: settle_task_def should_retry_def Let_def)
qed

lemma finish_keeps_tasks: "tasks (w_db (ignoring (on_db (finish_job e j)) w)) = tasks (w_db w)"
  by (auto simp: ignoring_def on_db_def finish_job_def pending_task_counts_def has_failed_tasks_def update_job_status_def
      exec_def andthen_def Let_def update_job_def split: option.splits prod.splits sum.splits)

lemma round_attempts:
  assumes "db_inv (w_db w)" and "0 \<le> wc_max_retries (c_worker cfg)"
    and "\<forall>t \<in> set (tasks (w_db w)). attempts_ok (wc_max_retries (c_worker cfg)) t"
  shows "\<forall>t \<in> set (tasks (w_db (snd (worker_round e nt cfg w)))). attempts_ok (wc_max_retries (c_worker cfg)) t"
proof -
  obtain r w1 where d: "on_db (dequeue_task e (wc_lease_timeout (c_worker cfg))) w = (r, w1)"
    by (cases "on_db (dequeue_task e (wc_lease_timeout (c_worker cfg))) w")
  note dq = dequeue_attempts [OF conjunct1 [OF on_db_eq [OF d]] assms]
  show ?thesis
  proof (cases r)
    case (Inl err)
    then show ?thesis using d dq assms(3) by (simp add: worker_round_def)
  next
    case (Inr t)
    obtain r2 w2 where h: "handle_task e nt cfg t w1 = (r2, w2)" by (cases "handle_task e nt cfg t w1")
    have "held_attempts (wc_max_retries (c_worker cfg)) (t_id t) (t_attempts t) (w_db w2)"
    proof -
      have "held_attempts (wc_max_retries (c_worker cfg)) (t_id t) (t_attempts t) (w_db w1)" using dq Inr by simp
      from keepsD [OF held.keeps_handle_task [where t = t and nt = nt and cfg = cfg and e = e, OF refl refl] this] h
      show ?thesis by simp
    qed
    then have "\<forall>u \<in> set (tasks (w_db (snd (settle_task e nt cfg t r2 w2)))). attempts_ok (wc_max_retries (c_worker cfg)) u"
      by (rule settle_attempts) (use dq Inr in simp)
    then show ?thesis using d Inr h
      by (cases "settle_task e nt cfg t r2 w2") (simp add: worker_round_def finish_keeps_tasks)
  qed
qed

text \<open>For a worker that runs alone, \<open>max_retries\<close> is the number of retries, not of attempts: after any number
  of rounds, a task that has failed was tried exactly \<open>max_retries + 1\<close> times, and every other task has
  used at most \<open>max_retries\<close> attempts, so no task is tried for ever.\<close>

theorem attempts_bounded:
  assumes "db_inv (w_db w)" and "0 \<le> wc_max_retries (c_worker cfg)"
    and "\<forall>t \<in> set (tasks (w_db w)). attempts_ok (wc_max_retries (c_worker cfg)) t"
  shows "\<forall>t \<in> set (tasks (w_db (run_worker e nt cfg n w))). attempts_ok (wc_max_retries (c_worker cfg)) t"
  using assms(1,3)
proof (induction n arbitrary: w)
  case 0
  then show ?case by simp
next
  case (Suc n)
  have "\<forall>t \<in> set (tasks (w_db (run_worker e nt cfg n (snd (worker_round e nt cfg w))))).
      attempts_ok (wc_max_retries (c_worker cfg)) t"
    by (rule Suc.IH) (rule tables.round_keeps [OF Suc.prems(1)], rule round_attempts [OF Suc.prems(1) assms(2) Suc.prems(2)])
  then show ?case by simp
qed

section \<open>A concrete run\<close>

lemma demo_site_inv: "db_inv (w_db (demo_site url a))" if "0 \<le> a"
  using that by (simp add: demo_site_def demo_db_def demo_job_def demo_task_def db_inv_defs serial_ok_def task_ok_def
      job_exists_def job_types_def)

theorem worker_keeps_tables_witness:
  "db_inv (w_db (run_worker demo_env demo_net default_config 3 (demo_site ''http://h.org/'' 0)))"
  by (rule worker_keeps_tables [OF demo_site_inv]) simp

lemma demo_site_depths: "depths_ok (w_db (demo_site url a))"
  by (simp add: depths_ok_def demo_site_def demo_db_def demo_task_def demo_job_def)

theorem crawl_depth_bounded_witness:
  "depths_ok (w_db (run_worker demo_env demo_net default_config 3 (demo_site ''http://h.org/'' 0)))
   \<and> map job_depth (jobs (w_db (demo_site ''http://h.org/'' 0))) = [1]"
proof
  show "depths_ok (w_db (run_worker demo_env demo_net default_config 3 (demo_site ''http://h.org/'' 0)))"
    by (rule crawl_depth_bounded [OF demo_site_inv demo_site_depths]) simp
  show "map job_depth (jobs (w_db (demo_site ''http://h.org/'' 0))) = [1]" by code_simp
qed

theorem stored_documents_within_max_bytes_witness:
  "list_all (\<lambda>d. length (d_content_md d) \<le> 100 * 2 ^ 20)
     (documents (w_db (run_worker demo_env demo_net default_config 1 (demo_site ''http://h.org/'' 0))))"
proof -
  have "documents (w_db (demo_site ''http://h.org/'' 0)) = []" by (simp add: demo_site_def demo_db_def)
  moreover have "jd_max_bytes (c_job_defaults default_config) = int (100 * 2 ^ 20)" by (simp add: default_config_def)
  ultimately show ?thesis
    using stored_documents_within_max_bytes [of default_config demo_env demo_net 1 "demo_site ''http://h.org/'' 0"]
    by (simp add: list_all_iff del: of_nat_mult of_nat_power)
qed

theorem attempts_bounded_witness:
  "list_all (attempts_ok 3) (tasks (w_db (run_worker demo_env demo_net default_config 9 (demo_site ''http://h.org/missing'' 0))))"
proof -
  have "wc_max_retries (c_worker default_config) = 3" by (simp add: default_config_def)
  moreover have "\<forall>t \<in> set (tasks (w_db (demo_site ''http://h.org/missing'' 0))). attempts_ok 3 t"
    by (simp add: demo_site_def demo_db_def demo_task_def attempts_ok_def)
  ultimately show ?thesis
    using attempts_bounded [OF demo_site_inv, of 0 default_config "''http://h.org/missing''" demo_env demo_net 9] by (simp add: list_all_iff)
qed

end
