(* ===== verification/Pipeline.thy ===== *)
theory Pipeline
  imports Routes Crawling
begin

text \<open>
  Properties that run through the API, the store and the worker: what a request asked for is what the worker
  reads out of the job's parameters, and the formats that the worker rendered are what the API hands out.
\<close>

section \<open>Association lists through JSON\<close>

lemma map_of_json_fields: "map_of (json_fields kvs) = map_of (rev kvs)"
proof -
  have "map_of (fold (\<lambda>(k, v). AList.update k v) kvs acc) = map_of acc ++ map_of (rev kvs)" for acc
    by (induction kvs arbitrary: acc) (auto simp: update_conv' map_add_upd_left split: prod.splits intro!: ext simp: map_add_def split: option.splits)
  from this [of "[]"] show ?thesis by (simp add: json_fields_def)
qed

lemma map_of_rev_distinct: "distinct (map fst kvs) \<Longrightarrow> map_of (rev kvs) = map_of kvs"
  by (intro map_of_inject_set [THEN iffD2]) (auto simp: rev_map [symmetric])

lemma map_of_json_fields_distinct: "distinct (map fst kvs) \<Longrightarrow> map_of (json_fields kvs) = map_of kvs"
  by (simp add: map_of_json_fields map_of_rev_distinct)

lemma map_of_sort_key: "distinct (map fst m) \<Longrightarrow> map_of (sort_key fst m) = map_of m"
  by (intro map_of_inject_set [THEN iffD2]) (auto simp: distinct_map)

lemma keys_of: "map_of xs = map_of ys \<Longrightarrow> fst ` set xs = fst ` set ys"
  by (metis dom_map_of_conv_image_fst)

section \<open>Parameters\<close>

lemma params_of_fields: "distinct (map fst kvs) \<Longrightarrow> map_of (params_of (JObj kvs)) = map_of kvs"
  by (simp add: params_of_def map_of_json_fields_distinct)

text \<open>C28: Every option of a crawl request reaches the worker as it was sent: after the request has been stored as
  JSON in the job's parameters and decoded into a map, the worker reads the same depth (up to the 53 bits of a
  JSON number), the same flags, the same start URL and the same list of formats.\<close>

theorem crawl_params_roundtrip:
  assumes "\<bar>cr_max_depth r\<bar> < 2 ^ 53"
  defines "ps \<equiv> params_of (marshal_crawl r)"
  shows "get_int ps ''max_depth'' = cr_max_depth r \<and> get_string ps ''url'' = cr_url r
    \<and> get_bool ps ''same_domain'' = cr_same_domain r \<and> get_bool ps ''use_js'' = cr_use_js r
    \<and> get_bool ps ''include_sitemaps'' = cr_include_sitemaps r
    \<and> requested_formats ps = formats_values (cr_formats r) FormatMarkdown"
proof -
  have "map_of ps = map_of [(''url'', JStr (cr_url r)), (''max_depth'', JNum (cr_max_depth r)),
     (''same_domain'', JBool (cr_same_domain r)),
     (''output_format'', marshal_format_list (cr_formats r)), (''use_js'', JBool (cr_use_js r)),
     (''include_sitemaps'', JBool (cr_include_sitemaps r))]"
    unfolding ps_def marshal_crawl_def by (rule params_of_fields) simp
  then show ?thesis
    using int_float_int [OF assms(1)] by (simp add: get_int_def get_string_def get_bool_def requested_formats_def formats_from_marshal)
qed

theorem crawl_params_roundtrip_witness:
  "get_int (params_of (marshal_crawl (demo_crawl\<lparr>cr_max_depth := 9007199254740991\<rparr>))) ''max_depth'' = 9007199254740991"
  using crawl_params_roundtrip [of "demo_crawl\<lparr>cr_max_depth := 9007199254740991\<rparr>"] by simp

section \<open>Outputs\<close>

lemma update_new: "k \<notin> fst ` set al \<Longrightarrow> AList.update k v al = al @ [(k, v)]"
  by (induction al) auto

text \<open>The worker renders each requested format once, in order.\<close>

lemma render_formats_clean:
  assumes "render_formats lib x fs outputs primary = Ok (outputs', primary')"
    and "distinct fs" and "'''' \<notin> set fs" and "set fs \<inter> fst ` set outputs = {}"
  shows "outputs' = outputs @ map (\<lambda>f. (f, projr (format_content lib x f))) fs"
  using assms
proof (induction fs arbitrary: outputs primary)
  case Nil
  then show ?case by simp
next
  case (Cons f fs)
  from Cons.prems obtain content where c: "format_content lib x f = Ok content"
    and k: "render_formats lib x fs (outputs @ [(f, content)]) (if primary = '''' then content else primary) = Ok (outputs', primary')"
    by (auto simp: update_new split: sum.splits)
  have "outputs' = (outputs @ [(f, content)]) @ map (\<lambda>f. (f, projr (format_content lib x f))) fs"
    by (rule Cons.IH [OF k]) (use Cons.prems in auto)
  then show ?case using c by simp
qed

lemma render_all_clean:
  assumes "render_all lib x fs = Ok (outputs, primary)" and "clean_formats fs"
  shows "outputs = map (\<lambda>f. (f, projr (format_content lib x f))) fs"
proof -
  obtain o' p' where r: "render_formats lib x fs [] '''' = Ok (o', p')"
    using assms(1) by (cases "render_formats lib x fs [] ''''") (auto simp: render_all_def)
  have "o' = map (\<lambda>f. (f, projr (format_content lib x f))) fs"
    using render_formats_clean [OF r] assms(2) by (auto simp: clean_formats_def)
  moreover have "o' \<noteq> []" using assms(2) calculation by (simp add: clean_formats_def)
  ultimately show ?thesis using assms(1) r by (simp add: render_all_def)
qed

text \<open>The outputs in the stored metadata, and read back from it.\<close>

lemma stored_outputs:
  assumes "distinct (map fst (x_meta x))" and "outputs \<noteq> []"
  shows "\<exists>kvs. stored_meta x ps jobType outputs = JObj kvs \<and> map_of (json_fields kvs) OutputsMetaKey = Some (marshal_string_map outputs)"
proof -
  let ?m0 = "map (\<lambda>(k, v). (k, JStr v)) (AList.delete ''url'' (x_meta x))"
  let ?m1 = "if jobType = ''crawl'' \<and> get_string ps ''url'' \<noteq> ''''
                then AList.update ''crawl_url'' (JStr (get_string ps ''url'')) ?m0 else ?m0"
  let ?m2 = "AList.update OutputsMetaKey (marshal_string_map outputs) ?m1"
  have "map fst ?m0 = map fst (AList.delete ''url'' (x_meta x))" by (simp add: case_prod_unfold comp_def)
  then have "distinct (map fst ?m0)" using assms(1) by (simp only: distinct_delete)
  then have d: "distinct (map fst ?m2)" by (simp add: distinct_update)
  then have "distinct (map fst (sort_key fst ?m2))" by (simp add: distinct_map)
  then have "map_of (json_fields (sort_key fst ?m2)) = map_of ?m2"
    by (simp only: map_of_json_fields_distinct map_of_sort_key [OF d])
  then have "map_of (json_fields (sort_key fst ?m2)) OutputsMetaKey = Some (marshal_string_map outputs)"
    by (simp add: update_conv')
  moreover have "stored_meta x ps jobType outputs = JObj (sort_key fst ?m2)"
    using assms(2) by (simp add: stored_meta_def marshal_any_map_def Let_def)
  ultimately show ?thesis by blast
qed

lemma output_fields_map_of:
  assumes "\<And>k v. map_of m k = Some v \<Longrightarrow> to_lower k = k \<and> (\<exists>c. v = JStr c)"
  shows "map_of (output_fields m ks om) f =
    (if f \<in> set ks \<and> map_of m f \<noteq> None then Some (json_string (the (map_of m f))) else map_of om f)"
proof (induction ks arbitrary: om)
  case Nil
  then show ?case by simp
next
  case (Cons k ks)
  show ?case
  proof (cases "map_of m k")
    case None
    then show ?thesis using Cons by auto
  next
    case (Some v)
    then show ?thesis using assms [OF Some] Cons by (auto simp: update_conv')
  qed
qed

lemma output_map_stored:
  assumes "distinct (map fst outputs)" and "\<And>k. k \<in> fst ` set outputs \<Longrightarrow> to_lower k = k" and "\<And>ks. set (iter ks) = set ks"
  shows "map_of (output_map iter (marshal_string_map outputs)) = map_of outputs"
proof
  fix f
  let ?kvs = "map (\<lambda>(k, v). (k, JStr v)) (sort_key fst outputs)"
  let ?m = "json_fields ?kvs"
  have "map fst ?kvs = map fst (sort_key fst outputs)" by (simp add: case_prod_unfold comp_def)
  then have "distinct (map fst ?kvs)" using assms(1) by (simp only: distinct_map set_sort distinct_sort)
  then have "map_of ?m = map_of ?kvs" by (rule map_of_json_fields_distinct)
  also have "\<dots> = map_option JStr \<circ> map_of (sort_key fst outputs)" by (rule map_of_map)
  finally have m: "map_of ?m k = map_option JStr (map_of outputs k)" for k by (simp add: map_of_sort_key [OF assms(1)])
  have keys: "f \<in> set (iter (map fst ?m)) \<longleftrightarrow> map_of outputs f \<noteq> None"
  proof -
    have "f \<in> set (iter (map fst ?m)) \<longleftrightarrow> map_of ?m f \<noteq> None" by (simp only: assms(3) set_map map_of_eq_None_iff not_not)
    then show ?thesis by (simp only: m option.map_disc_iff)
  qed
  have "map_of (output_fields ?m (iter (map fst ?m)) []) f =
      (if f \<in> set (iter (map fst ?m)) \<and> map_of ?m f \<noteq> None then Some (json_string (the (map_of ?m f))) else map_of [] f)"
  proof (rule output_fields_map_of)
    fix k v assume "map_of ?m k = Some v"
    then obtain c where c: "map_of outputs k = Some c" "v = JStr c" by (auto simp only: m map_option_eq_Some)
    have "k \<in> fst ` set outputs" by (rule rev_image_eqI [OF map_of_SomeD [OF c(1)]]) simp
    then show "to_lower k = k \<and> (\<exists>c. v = JStr c)" using c(2) by (simp add: assms(2))
  qed
  also have "\<dots> = map_of outputs f" using keys by (auto simp: m)
  finally show "map_of (output_map iter (marshal_string_map outputs)) f = map_of outputs f"
    by (simp add: marshal_string_map_def Let_def)
qed

lemma build_meta_outputs: "map_of (build_meta rfc3339 (JObj kvs) j u v) OutputsMetaKey = map_of (json_fields kvs) OutputsMetaKey"
  by (auto simp: build_meta_def Let_def update_conv' OutputsMetaKey_def split: option.splits)

text \<open>C27: What a job asked for is what its documents show: for a document whose contents the worker rendered from a page
  in the formats of a request, the API returns exactly these formats in the order of the request, each with
  the content the worker rendered for it, however Go iterates over the stored map.\<close>

theorem outputs_roundtrip:
  assumes "render_all lib x fs = Ok (outputs, primary)" and "fs = formats_values req FormatMarkdown"
    and "d_meta row = stored_meta x ps jobType outputs" and "distinct (map fst (x_meta x))"
    and "\<forall>ks. set (iter ks) = set ks"
  shows "resp_outputs (document_from_row rfc3339 iter row j fs) =
    map (\<lambda>f. \<lparr>out_format = f, out_content = projr (format_content lib x f)\<rparr>) fs"
proof -
  have clean: "clean_formats fs" using formats_values_lower formats_values_nonempty [of req] by (auto simp: assms(2) clean_formats_def FormatMarkdown_def)
  then have fs: "fs \<noteq> []" "distinct fs" "\<And>f. f \<in> set fs \<Longrightarrow> to_lower f = f" by (auto simp: clean_formats_def)
  have outs: "outputs = map (\<lambda>f. (f, projr (format_content lib x f))) fs" by (rule render_all_clean [OF assms(1) clean])
  then have keys: "map fst outputs = fs" and ne: "outputs \<noteq> []" using fs(1) by (simp_all add: comp_def)
  obtain kvs where kvs: "d_meta row = JObj kvs" "map_of (json_fields kvs) OutputsMetaKey = Some (marshal_string_map outputs)"
    using stored_outputs [OF assms(4) ne] assms(3) by auto
  let ?om = "output_map iter (marshal_string_map outputs)"
  have om: "map_of ?om = map_of outputs"
    by (rule output_map_stored) (use keys fs assms(5) in \<open>auto simp flip: set_map\<close>)
  then have "set (map fst ?om) = set fs" using keys_of [OF om] keys by (metis set_map)
  then have ord: "ordered_outputs iter ?om fs = map (output_of ?om) fs"
    by (intro ordered_outputs_clean clean) (use assms(5) in simp_all)
  have "output_of ?om f = \<lparr>out_format = f, out_content = projr (format_content lib x f)\<rparr>" if "f \<in> set fs" for f
    using that by (simp add: output_of_def om) (simp add: outs map_of_map_restrict)
  then show ?thesis
    using kvs ord fs(1) by (simp add: document_from_row_def extract_outputs_def build_meta_outputs Let_def)
qed

definition demo_page :: extracted where
  "demo_page = \<lparr>x_url = ''u'', x_title = ''T'', x_text = ''text'', x_html = ''html'', x_meta = [(''url'', ''u''), (''title'', ''T'')],
     x_links = []\<rparr>"

definition demo_rendered :: "(string \<times> string) list" where
  "demo_rendered = [(''text'', ''# T'' @ newline @ newline @ ''html''), (''html'', ''html'')]"

definition demo_row :: document_row where
  "demo_row = (Listing.demo_doc 1 ''u'')\<lparr>d_meta := stored_meta demo_page [] ''batch_scrape'' demo_rendered\<rparr>"

theorem outputs_roundtrip_witness:
  "resp_outputs (document_from_row (\<lambda>_. ''t'') rev demo_row demo_job [''text'', ''html'']) =
     [\<lparr>out_format = ''text'', out_content = ''# T'' @ newline @ newline @ ''html''\<rparr>, \<lparr>out_format = ''html'', out_content = ''html''\<rparr>]"
proof -
  have r: "render_all demo_libs demo_page [''text'', ''html''] = Ok (demo_rendered, ''# T'' @ newline @ newline @ ''html'')"
    by code_simp
  have f: "[''text'', ''html''] = formats_values (Some ['' Text'', ''html'', ''TEXT'']) FormatMarkdown" by code_simp
  have m: "d_meta demo_row = stored_meta demo_page [] ''batch_scrape'' demo_rendered" by (simp add: demo_row_def)
  have d: "distinct (map fst (x_meta demo_page))" by (simp add: demo_page_def)
  have "\<forall>ks. set (rev ks) = set ks" by simp
  from outputs_roundtrip [OF r f m d this, of "\<lambda>_. ''t''" demo_job]
  have "resp_outputs (document_from_row (\<lambda>_. ''t'') rev demo_row demo_job [''text'', ''html'']) =
     map (\<lambda>f. \<lparr>out_format = f, out_content = projr (format_content demo_libs demo_page f)\<rparr>) [''text'', ''html'']" .
  also have "\<dots> = [\<lparr>out_format = ''text'', out_content = ''# T'' @ newline @ newline @ ''html''\<rparr>, \<lparr>out_format = ''html'', out_content = ''html''\<rparr>]"
    by code_simp
  finally show ?thesis .
qed

end
