(* ===== verification/Cluster.thy ===== *)
theory Cluster
  imports Routes Crawling
begin

text \<open>
  The whole system as a step relation: any number of workers that claim, handle, settle and may die with their
  task in work, their heartbeats, requests to the API and sweeps of the cleanup, in any order.  One \<open>handleTask\<close> is one
  step; what other workers do between its statements shows only through the arguments \<open>e\<close> and \<open>nt\<close>.
\<close>

datatype progress = Claimed | Handled "unit res" | Settled

record system =
  sy_world :: world
  sy_held :: "nat \<Rightarrow> (task \<times> progress) option"

definition hold :: "nat \<Rightarrow> (task \<times> progress) option \<Rightarrow> world \<Rightarrow> system \<Rightarrow> system" where
  "hold k x w y = y\<lparr>sy_world := w, sy_held := (sy_held y)(k := x)\<rparr>"

inductive system_step :: "env \<Rightarrow> net \<Rightarrow> config \<Rightarrow> system \<Rightarrow> system \<Rightarrow> bool" for e nt cfg where
  claim: "sy_held y k = None \<Longrightarrow> on_db (dequeue_task e (wc_lease_timeout (c_worker cfg))) (sy_world y) = (Ok t, w) \<Longrightarrow>
    system_step e nt cfg y (hold k (Some (t, Claimed)) w y)"
| no_claim: "sy_held y k = None \<Longrightarrow> on_db (dequeue_task e (wc_lease_timeout (c_worker cfg))) (sy_world y) = (Inl err, w) \<Longrightarrow>
    system_step e nt cfg y (hold k None w y)"
| handle: "sy_held y k = Some (t, Claimed) \<Longrightarrow> handle_task e nt cfg t (sy_world y) = (r, w) \<Longrightarrow>
    system_step e nt cfg y (hold k (Some (t, Handled r)) w y)"
| settle: "sy_held y k = Some (t, Handled r) \<Longrightarrow> settle_task e nt cfg t r (sy_world y) = (x, w) \<Longrightarrow>
    system_step e nt cfg y (hold k (Some (t, Settled)) w y)"
| finish: "sy_held y k = Some (t, Settled) \<Longrightarrow>
    system_step e nt cfg y (hold k None (ignoring (on_db (finish_job e (t_job t))) (sy_world y)) y)"
| heartbeat: "sy_held y k = Some (t, p) \<Longrightarrow>
    system_step e nt cfg y (hold k (Some (t, p)) (ignoring (on_db (update_task_heartbeat e (t_id t))) (sy_world y)) y)"
| crash: "system_step e nt cfg y (hold k None (sy_world y) y)"
| request: "(rp, s) \<in> {batch_handler e cfg p1 (w_db (sy_world y)), crawl_handler e cfg p2 (w_db (sy_world y)), map_handler e cfg p3 (w_db (sy_world y))} \<Longrightarrow>
    system_step e nt cfg y (y\<lparr>sy_world := (sy_world y)\<lparr>w_db := s\<rparr>\<rparr>)"
| clean: "system_step e nt cfg y (y\<lparr>sy_world := (sy_world y)\<lparr>w_db := ignoring (sweep e) (w_db (sy_world y))\<rparr>\<rparr>)"

definition started :: "config \<Rightarrow> system" where
  "started cfg = \<lparr>sy_world = \<lparr>w_db = empty_db, w_robots = new_robots (cc_robots_fail_open (c_crawl cfg))\<rparr>, sy_held = (\<lambda>_. None)\<rparr>"

text \<open>Every step has an environment and an outside world of its own: nothing ties one answer of them to the next.\<close>

inductive reachable :: "config \<Rightarrow> system \<Rightarrow> bool" for cfg where
  start: "reachable cfg (started cfg)"
| step: "reachable cfg y \<Longrightarrow> system_step e nt cfg y y' \<Longrightarrow> reachable cfg y'"

inductive_cases system_stepE: "system_step e nt cfg y y'"

lemma hold_simps [simp]: "sy_world (hold k x w y) = w" "sy_held (hold k x w y) = (sy_held y)(k := x)"
  by (simp_all add: hold_def)

text \<open>A round of the worker of \<open>Worker\<close> is four steps of a worker of the system.\<close>

lemma round_is_steps:
  assumes "sy_held y k = None"
  shows "(system_step e nt cfg)\<^sup>*\<^sup>* y (hold k None (snd (worker_round e nt cfg (sy_world y))) y)"
proof -
  let ?d = "on_db (dequeue_task e (wc_lease_timeout (c_worker cfg))) (sy_world y)"
  show ?thesis
  proof (cases "fst ?d")
    case (Inl err)
    then have d: "?d = (Inl err, snd ?d)" by (simp add: prod_eq_iff)
    have "worker_round e nt cfg (sy_world y) = (Idle, snd ?d)" unfolding worker_round_def by (subst d) simp
    then show ?thesis using no_claim [OF assms d] by auto
  next
    case (Inr t)
    then have d: "?d = (Ok t, snd ?d)" by (simp add: prod_eq_iff)
    obtain r w2 where h: "handle_task e nt cfg t (snd ?d) = (r, w2)" by (cases "handle_task e nt cfg t (snd ?d)")
    obtain x w3 where s: "settle_task e nt cfg t r w2 = (x, w3)" by (cases "settle_task e nt cfg t r w2")
    let ?y1 = "hold k (Some (t, Claimed)) (snd ?d) y" and ?y2 = "hold k (Some (t, Handled r)) w2 y"
      and ?y3 = "hold k (Some (t, Settled)) w3 y" and ?w4 = "ignoring (on_db (finish_job e (t_job t))) w3"
    have again: "hold k b w' (hold k a w y) = hold k b w' y" for a b w w' by (simp add: hold_def)
    have "system_step e nt cfg y ?y1" by (rule claim [OF assms d])
    moreover have "system_step e nt cfg ?y1 ?y2" using handle [of ?y1 k t e nt cfg r w2] h by (simp add: again)
    moreover have "system_step e nt cfg ?y2 ?y3" using settle [of ?y2 k t r e nt cfg x w3] s by (simp add: again)
    moreover have "system_step e nt cfg ?y3 (hold k None ?w4 y)" using finish [of ?y3 k t e nt cfg] by (simp add: again)
    moreover have "snd (worker_round e nt cfg (sy_world y)) = ?w4" unfolding worker_round_def by (subst d) (simp add: h s)
    ultimately show ?thesis by (auto intro: converse_rtranclp_into_rtranclp)
  qed
qed

section \<open>What every reachable state satisfies\<close>

definition safe :: "config \<Rightarrow> db \<Rightarrow> bool" where
  "safe cfg s \<longleftrightarrow> db_inv s \<and> depths_ok s \<and> (\<forall>d \<in> set (documents s). doc_fits cfg (document.truncate d))"

lemma safe_steps:
  assumes "safe cfg s" and "db_inv s'" and "crawl_rows cfg [] s s \<Longrightarrow> crawl_rows cfg [] s s'"
  shows "safe cfg s'"
proof -
  have "crawl_rows cfg [] s s'" using assms(1) by (intro assms(3) rows_of_depths) (auto simp: safe_def row_fits_def)
  moreover have "db_inv s" using assms(1) by (simp add: safe_def)
  ultimately show ?thesis using assms(2) depths_of_rows [of s cfg "[]" s']
    by (auto simp: safe_def rows_ok_def row_fits_def)
qed

lemma safe_keeps: "safe cfg s \<Longrightarrow> keeps db_inv f \<Longrightarrow> keeps (crawl_rows cfg [] s) f \<Longrightarrow> safe cfg (snd (f s))"
  by (rule safe_steps [of cfg s]) (simp_all add: safe_def keepsD)

lemma rows_sweep: "keeps (crawl_rows cfg ds s0) (sweep e)"
proof -
  have "crawl_rows cfg ds s0 s \<Longrightarrow> crawl_rows cfg ds s0 (s\<lparr>jobs := map (cancel_if_expired now) (jobs s)\<rparr>)" for s now
    by (auto simp: rows_ok_def same_depth_def cancel_if_expired_def job_depth_def)
  moreover have "crawl_rows cfg ds s0 s \<Longrightarrow> crawl_rows cfg ds s0 (delete_jobs P s)" for s P
    by (auto simp: rows_ok_def delete_jobs_def Let_def)
  ultimately show ?thesis unfolding sweep_def connect_def cancel_expired_def delete_expired_def
    by (intro keeps_andthen keeps_rows_exec) (auto intro!: keepsI)
qed

lemma rows_heartbeat: "keeps (crawl_rows cfg ds s0) (update_task_heartbeat e i)"
  unfolding update_task_heartbeat_def by (intro keeps_rows_exec keeps_then crawl.rows_update_task) simp_all

lemma safe_created:
  assumes "safe cfg s" and "create_job_with_seeds e cfg ty params seeds s = (r, s')" and "\<forall>x \<in> set seeds. seed_depth x = 0"
  shows "safe cfg s'"
proof (cases r)
  case (Inl err)
  then have same: "same_tables s s'" using create_job_error assms(2) by blast
  moreover have "db_inv s'" using keepsD [OF keeps_create_job, of s e cfg ty params seeds] assms(1,2) by (simp add: safe_def)
  ultimately show ?thesis using assms(1) by (auto simp: safe_def same_tables_def depths_ok_def)
next
  case (Inr jobID)
  have inv: "db_inv s" "db_inv s'" using keepsD [OF keeps_create_job, of s e cfg ty params seeds] assms(1,2) by (simp_all add: safe_def)
  obtain j new where j: "jobs s' = jobs s @ [j]" "tasks s' = tasks s @ new" "documents s' = documents s" "\<not> job_exists jobID s" "j_id j = jobID"
    and new: "\<forall>t \<in> set new. \<exists>x \<in> set seeds. stored_as jobID (seed_task cfg x) t"
    using create_job_Ok [OF inv(1)] assms(2) Inr by blast
  have "t_depth t = 0" if "t \<in> set new" for t
    using new that assms(3) by (auto simp: stored_as_def seed_task_def new_task_def)
  moreover have "t_job t \<noteq> j_id j" if "t \<in> set (tasks s)" for t
    using that inv(1) j(4,5) by (auto simp: db_inv_defs)
  ultimately have "depths_ok s'" using assms(1) j(1,2) by (fastforce simp: safe_def depths_ok_def)
  then show ?thesis using inv(2) assms(1) j(3) by (simp add: safe_def)
qed

lemma safe_handlers:
  assumes "safe cfg s"
  shows "safe cfg (snd (batch_handler e cfg p1 s))" and "safe cfg (snd (crawl_handler e cfg p2 s))" and "safe cfg (snd (map_handler e cfg p3 s))"
proof -
  have made: "safe cfg (snd (create_job_with_seeds e cfg ty params seeds s))" if "\<forall>x \<in> set seeds. seed_depth x = 0" for ty params seeds
    by (rule safe_created [OF assms _ that]) (rule prod.collapse [symmetric])
  show "safe cfg (snd (batch_handler e cfg p1 s))"
    using assms made by (simp add: batch_handler_def split_beta split: sum.splits)
  show "safe cfg (snd (crawl_handler e cfg p2 s))"
    using assms made by (simp add: crawl_handler_def split_beta Let_def split: sum.splits)
  show "safe cfg (snd (map_handler e cfg p3 s))"
    using assms made by (simp add: map_handler_def split_beta Let_def split: sum.splits)
qed

lemma safe_ignoring: "safe cfg (w_db w) \<Longrightarrow> keeps db_inv f \<Longrightarrow> keeps (crawl_rows cfg [] (w_db w)) f \<Longrightarrow>
    safe cfg (w_db (ignoring (on_db f) w))"
  using safe_keeps [of cfg "w_db w" f] by (simp add: ignoring_def on_db_snd)

lemma step_safe:
  assumes "system_step e nt cfg y y'" and "safe cfg (w_db (sy_world y))"
  shows "safe cfg (w_db (sy_world y'))"
  using assms(1)
proof cases
  case (claim k t w)
  then show ?thesis using safe_keeps [OF assms(2) tables.dequeues crawl.dequeues, of e "wc_lease_timeout (c_worker cfg)"]
    on_db_eq [OF claim(3)] by simp
next
  case (no_claim k err w)
  then show ?thesis using safe_keeps [OF assms(2) tables.dequeues crawl.dequeues, of e "wc_lease_timeout (c_worker cfg)"]
    on_db_eq [OF no_claim(3)] by simp
next
  case (handle k t r w)
  have "safe cfg (w_db (snd (handle_task e nt cfg t (sy_world y))))"
    by (rule safe_steps [OF assms(2)])
      (use assms(2) in \<open>auto simp: safe_def intro!: keepsD [OF tables.of_task.keeps_handle_task [OF refl refl]]
        keepsD [OF crawl.of_task.keeps_handle_task [OF refl refl]]\<close>)
  then show ?thesis using handle by simp
next
  case (settle k t r x w)
  have "safe cfg (w_db (snd (settle_task e nt cfg t r (sy_world y))))"
    by (rule safe_steps [OF assms(2)]) (use assms(2) in \<open>auto simp: safe_def intro: tables.settle_keeps crawl.settle_keeps\<close>)
  then show ?thesis using settle by simp
next
  case (finish k t)
  then show ?thesis using safe_ignoring [OF assms(2) tables.finishes crawl.finishes] by simp
next
  case (heartbeat k t p)
  then show ?thesis using safe_ignoring [OF assms(2) keeps_heartbeat rows_heartbeat] by simp
next
  case (crash k)
  then show ?thesis using assms(2) by simp
next
  case (request rp s p1 p2 p3)
  then have "s = snd (batch_handler e cfg p1 (w_db (sy_world y))) \<or> s = snd (crawl_handler e cfg p2 (w_db (sy_world y)))
      \<or> s = snd (map_handler e cfg p3 (w_db (sy_world y)))"
    by (auto dest: arg_cong [where f = snd])
  then have "safe cfg s" using safe_handlers [OF assms(2)] by blast
  then show ?thesis using request by simp
next
  case clean
  then show ?thesis using safe_keeps [OF assms(2) keeps_sweep rows_sweep] by (simp add: ignoring_def)
qed

text \<open>Whatever the workers, the API and the cleanup do, in any order and with any failures and crashes in between, the
  tables stay consistent, no task lies deeper than its job asked for, and no stored document exceeds
  \<open>max_bytes\<close>.\<close>

theorem reachable_safe:
  assumes "reachable cfg y"
  shows "db_inv (w_db (sy_world y)) \<and> depths_ok (w_db (sy_world y)) \<and>
    (\<forall>d \<in> set (documents (w_db (sy_world y))). doc_fits cfg (document.truncate d))"
  using assms
proof (induction rule: reachable.induct)
  case start
  show ?case by (simp add: started_def db_inv_empty) (simp add: empty_db_def depths_ok_def)
next
  case (step y e nt y')
  then show ?case using step_safe [of e nt cfg y y'] by (simp add: safe_def)
qed

theorem reachable_safe_witness:
  "\<exists>y. reachable demo_config y \<and> map t_depth (tasks (w_db (sy_world y))) = [0] \<and> db_inv (w_db (sy_world y)) \<and> depths_ok (w_db (sy_world y))"
proof -
  let ?r = "crawl_handler demo_env demo_config (Ok (demo_crawl_request ''http://h.org'')) (w_db (sy_world (started demo_config)))"
  let ?y = "(started demo_config)\<lparr>sy_world := (sy_world (started demo_config))\<lparr>w_db := snd ?r\<rparr>\<rparr>"
  have "(fst ?r, snd ?r) \<in> {batch_handler demo_env demo_config (Fail ''x'') (w_db (sy_world (started demo_config))), ?r,
      map_handler demo_env demo_config (Fail ''x'') (w_db (sy_world (started demo_config)))}" by simp
  from step [OF start request [OF this]] have y: "reachable demo_config ?y" .
  moreover have "map t_depth (tasks (snd ?r)) = [0]" by code_simp
  ultimately show ?thesis using reachable_safe [OF y] by (intro exI [of _ ?y]) simp
qed

end
