(* ===== verification/TaskMachine.thy ===== *)
theory TaskMachine
  imports Crawling
begin

text \<open>
  The life of a task as an abstract machine, and the worker as its refinement: a task waits, is in work, and
  is then finished, given up or waiting again with one more attempt used.  The detailed model, with its
  statements, transactions, failures and clocks, moves every row of the table along this machine.
\<close>

section \<open>The abstract machine\<close>

datatype phase = Waiting int | InWork int | Finished int | GivenUp int | Skipped int

inductive phase_step :: "int \<Rightarrow> phase \<Rightarrow> phase \<Rightarrow> bool" for m :: int where
  claimed: "phase_step m (Waiting a) (InWork a)"
| completed: "phase_step m (InWork a) (Finished a)"
| retried: "a < m \<Longrightarrow> phase_step m (InWork a) (Waiting (a + 1))"
| given_up: "m \<le> a \<Longrightarrow> phase_step m (InWork a) (GivenUp (a + 1))"

text \<open>The phase of a row: its status with the attempts used.\<close>

definition phase_of :: "task \<Rightarrow> phase" where
  "phase_of t =
     (case t_status t of
        TaskStatusQueued \<Rightarrow> Waiting (t_attempts t) | TaskStatusProcessing \<Rightarrow> InWork (t_attempts t)
      | TaskStatusDone \<Rightarrow> Finished (t_attempts t) | TaskStatusFailed \<Rightarrow> GivenUp (t_attempts t)
      | TaskStatusSkipped \<Rightarrow> Skipped (t_attempts t))"

text \<open>
  From \<open>s\<close> to \<open>s'\<close>: no task is lost or moved to another job, each has run along the machine, and each new
  one has started waiting with no attempt used.
\<close>

definition evolves :: "int \<Rightarrow> db \<Rightarrow> db \<Rightarrow> bool" where
  "evolves m s s' \<longleftrightarrow>
     (\<forall>t \<in> set (tasks s). \<exists>t' \<in> set (tasks s'). t_id t' = t_id t \<and> t_job t' = t_job t \<and> (phase_step m)\<^sup>*\<^sup>* (phase_of t) (phase_of t')) \<and>
     (\<forall>t' \<in> set (tasks s'). t_id t' \<in> t_id ` set (tasks s) \<or> (phase_step m)\<^sup>*\<^sup>* (Waiting 0) (phase_of t'))"

lemma evolves_same: "tasks s' = tasks s \<Longrightarrow> evolves m s s'"
  by (auto simp: evolves_def)

lemma one_task:
  assumes "db_inv s" and "t \<in> set (tasks s)" and "u \<in> set (tasks s)" and "t_id t = t_id u"
  shows "t = u"
proof -
  have "distinct (map t_id (tasks s))" using assms(1) by (simp add: db_inv_defs serial_ok_def)
  from distinct_map_inj_on_key [OF this assms(2-4)] show ?thesis .
qed

lemma evolves_trans:
  assumes "evolves m s s'" and "evolves m s' s''" and "db_inv s''"
  shows "evolves m s s''"
  unfolding evolves_def
proof (intro conjI ballI)
  fix t assume "t \<in> set (tasks s)"
  then obtain t' where t': "t' \<in> set (tasks s')" "t_id t' = t_id t" "t_job t' = t_job t" "(phase_step m)\<^sup>*\<^sup>* (phase_of t) (phase_of t')"
    using assms(1) unfolding evolves_def by blast
  then obtain t'' where "t'' \<in> set (tasks s'')" "t_id t'' = t_id t'" "t_job t'' = t_job t'" "(phase_step m)\<^sup>*\<^sup>* (phase_of t') (phase_of t'')"
    using assms(2) unfolding evolves_def by blast
  then show "\<exists>t'' \<in> set (tasks s''). t_id t'' = t_id t \<and> t_job t'' = t_job t \<and> (phase_step m)\<^sup>*\<^sup>* (phase_of t) (phase_of t'')"
    using t' by (intro bexI [of _ t'']) (auto intro: rtranclp_trans)
next
  fix t'' assume t'': "t'' \<in> set (tasks s'')"
  show "t_id t'' \<in> t_id ` set (tasks s) \<or> (phase_step m)\<^sup>*\<^sup>* (Waiting 0) (phase_of t'')"
  proof (cases "t_id t'' \<in> t_id ` set (tasks s')")
    case False
    then show ?thesis using assms(2) t'' by (auto simp: evolves_def)
  next
    case True
    then obtain t' where t': "t' \<in> set (tasks s')" "t_id t' = t_id t''" by auto
    then obtain u where u: "u \<in> set (tasks s'')" "t_id u = t_id t'" "(phase_step m)\<^sup>*\<^sup>* (phase_of t') (phase_of u)"
      using assms(2) unfolding evolves_def by blast
    then have "u = t''" using one_task [OF assms(3) u(1) t''] t'(2) by simp
    then show ?thesis using assms(1) t' u(3) unfolding evolves_def by (metis rtranclp_trans)
  qed
qed

lemma evolves_update:
  assumes "\<And>t. t_id (g t) = t_id t" and "\<And>t. t_job (g t) = t_job t"
    and "\<And>t. t \<in> set (tasks s) \<Longrightarrow> t_id t = i \<Longrightarrow> (phase_step m)\<^sup>*\<^sup>* (phase_of t) (phase_of (g t))"
  shows "evolves m s (update_task i g s)"
  unfolding evolves_def
proof (intro conjI ballI)
  fix t assume "t \<in> set (tasks s)"
  then show "\<exists>t' \<in> set (tasks (update_task i g s)). t_id t' = t_id t \<and> t_job t' = t_job t \<and> (phase_step m)\<^sup>*\<^sup>* (phase_of t) (phase_of t')"
    using assms by (intro bexI [of _ "if t_id t = i then g t else t"]) (auto simp: update_task_def)
next
  fix t' assume "t' \<in> set (tasks (update_task i g s))"
  then show "t_id t' \<in> t_id ` set (tasks s) \<or> (phase_step m)\<^sup>*\<^sup>* (Waiting 0) (phase_of t')"
    using assms(1) by (auto simp: update_task_def)
qed

section \<open>While a task is in work\<close>

text \<open>What a task's own statements leave alone: the keys of the rows \<open>ks\<close> that were there, in their order.\<close>

definition row_key :: "task \<Rightarrow> int \<times> string \<times> phase" where
  "row_key t = (t_id t, t_job t, phase_of t)"

definition steady :: "(int \<times> string \<times> phase) list \<Rightarrow> int \<Rightarrow> db \<Rightarrow> bool" where
  "steady ks n s \<longleftrightarrow> n \<le> task_seq s \<and>
     (\<exists>new. map row_key (tasks s) = ks @ new \<and> (\<forall>k \<in> set new. n < fst k \<and> snd (snd k) = Waiting 0))"

lemma steady_append:
  assumes "steady ks n s" and "t_id r = task_seq s + 1" and "phase_of r = Waiting 0"
  shows "steady ks n (s\<lparr>task_seq := task_seq s + 1, tasks := tasks s @ [r]\<rparr>)"
proof -
  obtain new where "n \<le> task_seq s" "map row_key (tasks s) = ks @ new" "\<forall>k \<in> set new. n < fst k \<and> snd (snd k) = Waiting 0"
    using assms(1) unfolding steady_def by blast
  then show ?thesis unfolding steady_def
    by (intro conjI exI [of _ "new @ [row_key r]"]) (auto simp: row_key_def assms(2,3))
qed

interpretation steady: task_table "steady ks n" for ks n
proof
  show "steady ks n s \<Longrightarrow> t_id r = task_seq s + 1 \<Longrightarrow> t_status r = TaskStatusQueued \<Longrightarrow> t_attempts r = 0 \<Longrightarrow>
      steady ks n (s\<lparr>task_seq := task_seq s + 1, tasks := tasks s @ [r]\<rparr>)" for s r
    by (rule steady_append) (simp_all add: phase_of_def)
next
  fix f :: "task \<Rightarrow> task" and s
  assume "\<And>t. t_id (f t) = t_id t" "\<And>t. t_job (f t) = t_job t" "\<And>t. t_status (f t) = t_status t"
    "\<And>t. t_attempts (f t) = t_attempts t" and s: "steady ks n s"
  then have "row_key (f t) = row_key t" for t by (cases "t_status t") (simp_all add: row_key_def phase_of_def)
  then show "steady ks n (s\<lparr>tasks := map f (tasks s)\<rparr>)" using s by (simp add: steady_def o_def)
qed (auto simp: steady_def)

lemma steady_evolves:
  assumes "steady (map row_key (tasks s)) n s'"
  shows "evolves m s s'"
proof -
  obtain new where new: "map row_key (tasks s') = map row_key (tasks s) @ new" "\<forall>k \<in> set new. n < fst k \<and> snd (snd k) = Waiting 0"
    using assms unfolding steady_def by blast
  then have keys: "row_key ` set (tasks s') = row_key ` set (tasks s) \<union> set new" by (metis set_append set_map)
  show ?thesis unfolding evolves_def
  proof (intro conjI ballI)
    fix t assume "t \<in> set (tasks s)"
    then obtain t' where "t' \<in> set (tasks s')" "row_key t' = row_key t" using keys by (metis UnI1 imageE imageI)
    then show "\<exists>t' \<in> set (tasks s'). t_id t' = t_id t \<and> t_job t' = t_job t \<and> (phase_step m)\<^sup>*\<^sup>* (phase_of t) (phase_of t')"
      by (intro bexI [of _ t']) (auto simp: row_key_def)
  next
    fix t' assume "t' \<in> set (tasks s')"
    then have "row_key t' \<in> row_key ` set (tasks s) \<union> set new" using keys by auto
    then show "t_id t' \<in> t_id ` set (tasks s) \<or> (phase_step m)\<^sup>*\<^sup>* (Waiting 0) (phase_of t')"
      using new(2) by (force simp: row_key_def)
  qed
qed

section \<open>One round\<close>

lemma dequeue_evolves:
  assumes "db_inv s" and "dequeue_task e lease s = (r, s')"
  shows "evolves m s s'"
proof (cases r)
  case (Inl err)
  then have "tasks s' = tasks s" using assms(2)
    by (auto simp: dequeue_task_def read_clock_def exec_def Let_def split: option.splits list.splits)
  then show ?thesis by (rule evolves_same)
next
  case (Inr t)
  define now where "now = pg_now e (Suc (tick s))"
  obtain t0 where t0: "t0 \<in> set (tasks s)" "claimable (go_now e (tick s) - lease) t0"
    and s': "s' = update_task (t_id t0) (claim now) (s\<lparr>tick := tick s + 2\<rparr>)"
    using dequeue_Ok [OF assms(2) [unfolded Inr]] unfolding now_def by blast
  have "(phase_step m)\<^sup>*\<^sup>* (phase_of t0) (phase_of (claim now t0))"
    using t0(2)
    by (cases "t_status t0 = TaskStatusQueued")
      (auto simp: phase_of_def claim_def claimable_def intro!: r_into_rtranclp [of "phase_step m"] phase_step.claimed)
  moreover have "u = t0" if "u \<in> set (tasks s)" "t_id u = t_id t0" for u using one_task [OF assms(1) that(1) t0(1) that(2)] .
  ultimately have "evolves m (s\<lparr>tick := tick s + 2\<rparr>) s'"
    unfolding s' by (intro evolves_update) (auto simp: claim_def)
  then show ?thesis by (simp add: evolves_def)
qed

text \<open>The statement for the outcome meets the task in work, with the attempts that the worker knows.\<close>

lemma settle_evolves:
  assumes "\<And>u. u \<in> set (tasks (w_db w)) \<Longrightarrow> t_id u = t_id t \<Longrightarrow> phase_of u = InWork (t_attempts t)"
  shows "evolves (wc_max_retries (c_worker cfg)) (w_db w) (w_db (snd (settle_task e nt cfg t r w)))"
proof -
  let ?m = "wc_max_retries (c_worker cfg)"
  have upd: "evolves ?m (w_db w) (w_db (ignoring (on_db (exec e Pool (\<lambda>now s. (Ok (), update_task (t_id t) (g now) s)))) w))"
    if "\<And>now u. t_id (g now u) = t_id u" "\<And>now u. t_job (g now u) = t_job u"
      and "\<And>now u. phase_of u = InWork (t_attempts t) \<Longrightarrow> phase_step ?m (InWork (t_attempts t)) (phase_of (g now u))" for g
  proof -
    define g' where "g' = g (pg_now e (tick (w_db w)))"
    have "evolves ?m (w_db w) (update_task (t_id t) g' (w_db w))"
    proof (rule evolves_update)
      fix u assume "u \<in> set (tasks (w_db w))" "t_id u = t_id t"
      then have "phase_of u = InWork (t_attempts t)" by (rule assms)
      then show "(phase_step ?m)\<^sup>*\<^sup>* (phase_of u) (phase_of (g' u))" using that(3) unfolding g'_def by auto
    qed (use that(1,2) in \<open>simp_all add: g'_def\<close>)
    moreover have "tasks (w_db (ignoring (on_db (exec e Pool (\<lambda>now s. (Ok (), update_task (t_id t) (g now) s)))) w)) =
        (if db_fault e (tick (w_db w)) = None then tasks (update_task (t_id t) g' (w_db w)) else tasks (w_db w))"
      by (auto simp: ignoring_def on_db_def exec_def Let_def stmt_now_def g'_def split: option.splits)
    ultimately show ?thesis
      by (cases "db_fault e (tick (w_db w)) = None") (simp_all only: evolves_def if_True if_False simp_thms, auto)
  qed
  have work: "phase_of u = InWork a \<longleftrightarrow> t_status u = TaskStatusProcessing \<and> t_attempts u = a" for u a
    by (auto simp: phase_of_def split: task_status.splits)
  have "evolves ?m (w_db w) (w_db (ignoring (on_db (complete_task e (t_id t))) w))"
    unfolding complete_task_def by (rule upd) (auto simp: work, simp add: phase_of_def phase_step.completed)
  moreover have "evolves ?m (w_db w) (w_db (ignoring (on_db (retry_task e (t_id t) msg)) w))" if "t_attempts t < ?m" for msg
    unfolding retry_task_def by (rule upd) (auto simp: work, simp add: phase_of_def phase_step.retried that)
  moreover have "evolves ?m (w_db w) (w_db (ignoring (on_db (fail_task e (t_id t) msg)) w))" if "\<not> t_attempts t < ?m" for msg
    unfolding fail_task_def by (rule upd) (use that in \<open>auto simp: work, simp add: phase_of_def phase_step.given_up\<close>)
  ultimately show ?thesis by (cases r) (simp_all add: settle_task_def should_retry_def Let_def)
qed

lemma round_evolves:
  assumes "db_inv (w_db w)"
  shows "evolves (wc_max_retries (c_worker cfg)) (w_db w) (w_db (snd (worker_round e nt cfg w)))"
proof -
  let ?m = "wc_max_retries (c_worker cfg)"
  obtain r w1 where d: "on_db (dequeue_task e (wc_lease_timeout (c_worker cfg))) w = (r, w1)"
    by (cases "on_db (dequeue_task e (wc_lease_timeout (c_worker cfg))) w")
  note dq = conjunct1 [OF on_db_eq [OF d]]
  note ev1 = dequeue_evolves [OF assms dq, of ?m]
  have inv1: "db_inv (w_db w1)" using keepsD [OF keeps_on_db [OF tables.dequeues], OF assms] d by (metis snd_conv)
  show ?thesis
  proof (cases r)
    case (Inl err)
    then show ?thesis using d ev1 by (simp add: worker_round_def)
  next
    case (Inr t)
    obtain r2 w2 where h: "handle_task e nt cfg t w1 = (r2, w2)" by (cases "handle_task e nt cfg t w1")
    have inv2: "db_inv (w_db w2)"
      using keepsD [OF tables.of_task.keeps_handle_task [where t = t and nt = nt and cfg = cfg and e = e, OF refl refl] inv1] h by simp
    let ?ks = "map row_key (tasks (w_db w1))" and ?n = "task_seq (w_db w1)"
    have "steady ?ks ?n (w_db w1)" by (simp add: steady_def)
    from keepsD [OF steady.keeps_handle_task [where t = t and nt = nt and cfg = cfg and e = e, OF refl refl] this] h
    have st: "steady ?ks ?n (w_db w2)" by simp
    have work: "phase_of u = InWork (t_attempts t)" if u: "u \<in> set (tasks (w_db w2))" "t_id u = t_id t" for u
    proof -
      obtain t0 where t0: "t0 \<in> set (tasks (w_db w))" "t = claim (pg_now e (Suc (tick (w_db w)))) t0"
        "w_db w1 = update_task (t_id t0) (claim (pg_now e (Suc (tick (w_db w))))) ((w_db w)\<lparr>tick := tick (w_db w) + 2\<rparr>)"
        using dequeue_Ok [OF dq [unfolded Inr]] by blast
      then have "t \<in> set (tasks (w_db w1))" by (force simp: update_task_def)
      then have "row_key t \<in> set ?ks" by simp
      moreover have "phase_of t = InWork (t_attempts t)" by (simp add: t0(2) claim_def phase_of_def)
      moreover obtain new where "map row_key (tasks (w_db w2)) = ?ks @ new" using st unfolding steady_def by blast
      ultimately obtain v where "v \<in> set (tasks (w_db w2))" "t_id v = t_id t" "phase_of v = InWork (t_attempts t)"
        by (metis (no_types, lifting) Un_iff fst_conv imageE list.set_map row_key_def set_append snd_conv)
      then show ?thesis using one_task [OF inv2 _ u(1)] u(2) by metis
    qed
    obtain res w3 where s: "settle_task e nt cfg t r2 w2 = (res, w3)" by (cases "settle_task e nt cfg t r2 w2")
    have inv3: "db_inv (w_db w3)" using tables.settle_keeps [OF inv2, of e nt cfg t r2] s by simp
    have "evolves ?m (w_db w) (w_db w2)" by (rule evolves_trans [OF ev1 steady_evolves [OF st] inv2])
    moreover have "evolves ?m (w_db w2) (w_db w3)" using settle_evolves [OF work, of w2 cfg e nt r2] s by simp
    ultimately have "evolves ?m (w_db w) (w_db w3)" using inv3 by (rule evolves_trans)
    then show ?thesis using d Inr h s by (simp add: worker_round_def evolves_def finish_keeps_tasks)
  qed
qed

text \<open>The worker refines the machine of a task's life: over any number of rounds, with any answers of the network
  and any failing statements and commits, no task is lost or moved to another job, every task has gone from its
  phase to its present one by steps of the machine (claimed, completed, retried while attempts are left, given
  up when they are used up), and every new task has come from waiting with no attempt used.\<close>

theorem worker_refines_task_machine:
  assumes "db_inv (w_db w)"
  shows "evolves (wc_max_retries (c_worker cfg)) (w_db w) (w_db (run_worker e nt cfg n w))"
  using assms
proof (induction n arbitrary: w)
  case 0
  then show ?case by (simp add: evolves_same)
next
  case (Suc n)
  let ?w = "snd (worker_round e nt cfg w)"
  have inv: "db_inv (w_db ?w)" by (rule tables.round_keeps [OF Suc.prems])
  show ?case
    using evolves_trans [OF round_evolves [OF Suc.prems, of cfg e nt] Suc.IH [OF inv] tables.run_keeps [OF inv]] by simp
qed

theorem worker_refines_task_machine_witness:
  "evolves 3 (w_db (demo_site ''http://h.org/'' 0)) (w_db (run_worker demo_env demo_net default_config 5 (demo_site ''http://h.org/'' 0)))"
  using worker_refines_task_machine [OF demo_site_inv, of 0 default_config "''http://h.org/''" demo_env demo_net 5]
  by (simp add: default_config_def)

end
