(* ===== verification/Threads.thy ===== *)
theory Threads
  imports Prelude
begin

text \<open>
  Computations that others may interrupt: a thread has returned, or it has one atomic step to make and then
  goes on.  \<open>then_do\<close> chains threads, \<open>run\<close> runs one that nobody interrupts.  \<open>abides A G Q t\<close> is what is known
  of a thread among others: as long as the others leave the state in \<open>A\<close>, each of its own steps is one of \<open>G\<close>,
  and what it returns satisfies \<open>Q\<close>.
\<close>

datatype ('a, 's) thread = Return 'a | Atom "'s \<Rightarrow> ('a, 's) thread \<times> 's"

primrec then_do :: "('a, 's) thread \<Rightarrow> ('a \<Rightarrow> ('b, 's) thread) \<Rightarrow> ('b, 's) thread" where
  "then_do (Return x) k = k x"
| "then_do (Atom f) k = Atom (\<lambda>s. map_prod (\<lambda>t. then_do t k) id (f s))"

primrec run :: "('a, 's) thread \<Rightarrow> 's \<Rightarrow> 'a \<times> 's" where
  "run (Return x) = (\<lambda>s. (x, s))"
| "run (Atom f) = (\<lambda>s. let p = map_prod run id (f s) in fst p (snd p))"

text \<open>One atomic step; \<open>attempt\<close> is \<open>andthen\<close> for threads.\<close>

definition call :: "('s \<Rightarrow> 'a \<times> 's) \<Rightarrow> ('a, 's) thread" where
  "call f = Atom (\<lambda>s. map_prod Return id (f s))"

definition attempt :: "('a res, 's) thread \<Rightarrow> ('a \<Rightarrow> ('b res, 's) thread) \<Rightarrow> ('b res, 's) thread" where
  "attempt t k = then_do t (\<lambda>r. case r of Inl err \<Rightarrow> Return (Inl err) | Inr x \<Rightarrow> k x)"

section \<open>Running without interruption\<close>

lemma run_call [simp]: "run (call f) = f"
  by (rule ext) (simp add: call_def Let_def split: prod.splits)

lemma run_then_do [simp]: "run (then_do t k) s = (case run t s of (x, s') \<Rightarrow> run (k x) s')"
proof (induction t arbitrary: s)
  case (Return x)
  then show ?case by simp
next
  case (Atom f)
  have "fst (f s) \<in> Basic_BNFs.fsts (f s)" by (simp add: prod_set_defs)
  from Atom [OF _ this, of "snd (f s)"] show ?case by (simp add: Let_def)
qed

lemma run_attempt [simp]: "run (attempt t k) = andthen (run t) (\<lambda>x. run (k x))"
  by (rule ext) (simp add: attempt_def andthen_def split: sum.splits prod.splits)

lemma run_branch [simp]:
  "run (if b then t else u) = (if b then run t else run u)"
  "run (case r of Inl err \<Rightarrow> g err | Inr x \<Rightarrow> h x) = (case r of Inl err \<Rightarrow> run (g err) | Inr x \<Rightarrow> run (h x))"
  "run (case v of None \<Rightarrow> t | Some z \<Rightarrow> m z) = (case v of None \<Rightarrow> run t | Some z \<Rightarrow> run (m z))"
  "run (case p of (x, y) \<Rightarrow> c x y) = (case p of (x, y) \<Rightarrow> run (c x y))"
  by (simp_all split: sum.splits option.splits prod.splits)

section \<open>Running among others\<close>

inductive abides :: "('s \<Rightarrow> bool) \<Rightarrow> ('s \<Rightarrow> 's \<Rightarrow> bool) \<Rightarrow> ('a \<Rightarrow> bool) \<Rightarrow> ('a, 's) thread \<Rightarrow> bool" for A G Q where
  returns: "Q x \<Longrightarrow> abides A G Q (Return x)"
| steps: "(\<And>s. A s \<Longrightarrow> G s (snd (f s)) \<and> abides A G Q (fst (f s))) \<Longrightarrow> abides A G Q (Atom f)"

inductive_simps abides_simps [simp]: "abides A G Q (Return x)" "abides A G Q (Atom f)"

lemma abides_call: "(\<And>s. A s \<Longrightarrow> G s (snd (f s)) \<and> Q (fst (f s))) \<Longrightarrow> abides A G Q (call f)"
  by (simp add: call_def)

lemma abides_then_do:
  assumes "abides A G P t" and "\<And>x. P x \<Longrightarrow> abides A G Q (k x)"
  shows "abides A G Q (then_do t k)"
  using assms(1) by (induction rule: abides.induct) (simp_all add: assms(2))

definition if_ok :: "('a \<Rightarrow> bool) \<Rightarrow> 'a res \<Rightarrow> bool" where
  "if_ok P r \<longleftrightarrow> (case r of Inl _ \<Rightarrow> True | Inr x \<Rightarrow> P x)"

lemma if_ok_simps [simp]: "if_ok P (Inl err)" "if_ok P (Inr x) = P x"
  by (simp_all add: if_ok_def)

lemma if_ok_True [intro!]: "if_ok (\<lambda>_. True) r"
  by (simp add: if_ok_def split: sum.splits)

lemma abides_attempt:
  assumes "abides A G (if_ok P) t" and "\<And>x. P x \<Longrightarrow> abides A G (if_ok Q) (k x)"
  shows "abides A G (if_ok Q) (attempt t k)"
  unfolding attempt_def by (rule abides_then_do [OF assms(1)]) (auto simp: assms(2) split: sum.splits)

lemma abides_weaken: "abides A G P t \<Longrightarrow> (\<And>x. P x \<Longrightarrow> Q x) \<Longrightarrow> abides A G Q t"
  by (induction rule: abides.induct) simp_all

end
