(* ===== verification/WorkerThreads.thy ===== *)
theory WorkerThreads
  imports Worker Threads
begin

text \<open>
  The task processing of \<open>internal/worker/worker.go\<close> as threads: one atomic step for each statement on the database,
  each transaction, each fetch and each section of \<open>internal/robots/robots.go\<close> under its mutex, in the order of
  the code.  Without interruption the threads compute what the functions of \<open>Worker\<close> compute (\<open>run_handle_thread\<close>).
\<close>

type_synonym 'a work = "('a res, world) thread"

definition query :: "'a op \<Rightarrow> 'a work" where
  "query f = call (on_db f)"

text \<open>\<open>_ = f()\<close>.\<close>

definition query_ignored :: "'a op \<Rightarrow> unit work" where
  "query_ignored f = call (\<lambda>w. (Ok (), ignoring (on_db f) w))"

section \<open>The robots client\<close>

definition in_robots :: "(robots_client \<Rightarrow> 'a \<times> robots_client) \<Rightarrow> ('a, world) thread" where
  "in_robots f = call (\<lambda>w. case f (w_robots w) of (x, rc) \<Rightarrow> (x, w\<lparr>w_robots := rc\<rparr>))"

text \<open>The section that looks into the cache; the fetch with the section that stores its result.\<close>

definition get_data_thread :: "net \<Rightarrow> string \<Rightarrow> string \<Rightarrow> (robots_data option, world) thread" where
  "get_data_thread nt host scheme =
     then_do (in_robots (\<lambda>rc. (rc_cache rc host, rc))) (\<lambda>cached.
       case cached of
         Some data \<Rightarrow> Return data
       | None \<Rightarrow> call (\<lambda>w. let data = robots_fetch (n_robots nt (world_tick w)) host scheme
                         in (data, w\<lparr>w_robots := (w_robots w)\<lparr>rc_cache := (rc_cache (w_robots w))(host := Some data)\<rparr>\<rparr>)))"

definition allowed_thread :: "net \<Rightarrow> string \<Rightarrow> string \<Rightarrow> (bool, world) thread" where
  "allowed_thread nt rawURL ua =
     (case robots_target rawURL of
        None \<Rightarrow> Return True
      | Some (host, scheme) \<Rightarrow>
          then_do (get_data_thread nt host scheme) (\<lambda>data.
            case data of
              None \<Rightarrow> in_robots (\<lambda>rc. (rc_fail_open rc, rc))
            | Some d \<Rightarrow> Return (rd_test_agent d rawURL (agent_or_default ua))))"

definition delay_thread :: "net \<Rightarrow> string \<Rightarrow> string \<Rightarrow> duration \<Rightarrow> (duration, world) thread" where
  "delay_thread nt rawURL ua defaultDelay =
     (case robots_target rawURL of
        None \<Rightarrow> Return defaultDelay
      | Some (host, scheme) \<Rightarrow>
          then_do (get_data_thread nt host scheme) (\<lambda>data.
            case data of
              None \<Rightarrow> Return defaultDelay
            | Some d \<Rightarrow>
                (case rd_crawl_delay d (agent_or_default ua) of
                   None \<Rightarrow> Return defaultDelay
                 | Some x \<Rightarrow> Return (if x > 0 \<and> x > defaultDelay then x else defaultDelay))))"

text \<open>\<open>Wait\<close>: the section that reads the last fetch, the sleep, and the section that writes it.\<close>

definition wait_thread :: "env \<Rightarrow> net \<Rightarrow> string \<Rightarrow> string \<Rightarrow> duration \<Rightarrow> unit work" where
  "wait_thread e nt rawURL ua defaultDelay =
     then_do (delay_thread nt rawURL ua defaultDelay) (\<lambda>delay.
       if delay \<le> 0 then call (\<lambda>w. (Ok (), next_tick w))
       else case robots_target rawURL of
         None \<Rightarrow> call (\<lambda>w. (Ok (), next_tick w))
       | Some (host, scheme) \<Rightarrow>
           then_do (call (\<lambda>w. let n = world_tick w; now = go_now e n
                              in ((wait_target host delay now (w_robots w), now, n), w))) (\<lambda>(target, now, n).
             if target > now \<and> n_cancelled nt n then call (\<lambda>w. (Fail ''context canceled'', next_tick w))
             else call (\<lambda>w. (Ok (), next_tick (w\<lparr>w_robots := wait_mark host (target + int (n_late nt n)) (w_robots w)\<rparr>)))))"

definition sitemaps_thread :: "net \<Rightarrow> string \<Rightarrow> (string list, world) thread" where
  "sitemaps_thread nt rawURL =
     (case robots_target rawURL of
        None \<Rightarrow> Return []
      | Some (host, scheme) \<Rightarrow>
          then_do (get_data_thread nt host scheme) (\<lambda>data.
            case data of None \<Rightarrow> Return [] | Some d \<Rightarrow> Return (rd_sitemaps d)))"

lemma run_in_robots [simp]: "run (in_robots f) = (\<lambda>w. case f (w_robots w) of (x, rc) \<Rightarrow> (x, w\<lparr>w_robots := rc\<rparr>))"
  by (simp add: in_robots_def)

lemma run_get_data [simp]: "run (get_data_thread nt host scheme) w =
    (case get_data (n_robots nt (world_tick w)) host scheme (w_robots w) of (d, rc) \<Rightarrow> (d, w\<lparr>w_robots := rc\<rparr>))"
  by (simp add: get_data_thread_def get_data_def Let_def world_tick_def split: option.splits)

lemma run_robots:
  "run (allowed_thread nt u ua) w =
    (case allowed (n_robots nt (world_tick w)) u ua (w_robots w) of (b, rc) \<Rightarrow> (b, w\<lparr>w_robots := rc\<rparr>))"
  "run (delay_thread nt u ua dd) w =
    (case delay_for (n_robots nt (world_tick w)) u ua dd (w_robots w) of (d, rc) \<Rightarrow> (d, w\<lparr>w_robots := rc\<rparr>))"
  "run (sitemaps_thread nt u) w =
    (case sitemaps_of (n_robots nt (world_tick w)) u (w_robots w) of (sm, rc) \<Rightarrow> (sm, w\<lparr>w_robots := rc\<rparr>))"
  by (auto simp: allowed_thread_def allowed_def delay_thread_def delay_for_def sitemaps_thread_def sitemaps_of_def
      split: option.splits prod.splits)

lemma run_wait: "run (wait_thread e nt u (hc_user_agent (c_http cfg)) (cc_crawl_delay_ms (c_crawl cfg) * Millisecond)) w =
    robots_wait e nt cfg u w"
  by (auto simp: wait_thread_def robots_wait_def wait_call_def run_robots Let_def world_tick_def split: option.splits prod.splits)

section \<open>Documents\<close>

definition allowed_or_fail :: "net \<Rightarrow> config \<Rightarrow> string \<Rightarrow> string \<Rightarrow> unit work" where
  "allowed_or_fail nt cfg url ua =
     (if cc_respect_robots (c_crawl cfg) then
        then_do (allowed_thread nt url ua) (\<lambda>b. call (\<lambda>w. (if b then Ok () else Fail ''blocked by robots'', next_tick w)))
      else Return (Ok ()))"

definition store_document_thread ::
    "env \<Rightarrow> config \<Rightarrow> task \<Rightarrow> string \<Rightarrow> (string \<times> string) list \<Rightarrow> string \<Rightarrow> extracted \<Rightarrow> params \<Rightarrow> string \<Rightarrow> unit work" where
  "store_document_thread e cfg t finalURL outputs primary x ps jobType =
     (let doc = \<lparr>d_job = t_job t, d_requested_url = t_requested_url t, d_final_url = finalURL,
            d_title = x_title x, d_content_md = primary, d_content_raw = primary,
            d_meta = stored_meta x ps jobType outputs\<rparr>;
          maxBytes = jd_max_bytes (c_job_defaults cfg)
      in if maxBytes > 0 \<and> int (max_content_length outputs primary) > maxBytes
         then Return (Fail ''content exceeds max_bytes'')
         else attempt (query (insert_document e doc)) (\<lambda>_.
           if cc_dedupe_cache (c_crawl cfg)
           then (case canonicalize finalURL (cc_strip_query (c_crawl cfg)) of
                   Inl _ \<Rightarrow> Return (Ok ())
                 | Inr canon \<Rightarrow> query_ignored (mark_canonical e canon))
           else Return (Ok ())))"

definition fetch_store_thread :: "env \<Rightarrow> net \<Rightarrow> config \<Rightarrow> task \<Rightarrow> params \<Rightarrow> string \<Rightarrow> extracted work" where
  "fetch_store_thread e nt cfg t ps jobType =
     attempt (call (fetch_with_limit nt cfg (t_requested_url t) (get_bool ps ''use_js''))) (\<lambda>fr.
       let canonFinal = canonical_final cfg (fr_final_url fr) in
       attempt (if canonFinal \<noteq> '''' \<and> canonFinal \<noteq> t_final_url t
                then query_ignored (update_task_final_url e (t_id t) canonFinal) else Return (Ok ())) (\<lambda>_.
       attempt (call (\<lambda>w. (extract_page (n_libs nt) (n_now_text nt (world_tick w)) canonFinal (fr_body fr), w))) (\<lambda>x0.
         let x = drop_nofollow cfg x0 in
         (case render_all (n_libs nt) x (requested_formats ps) of
            Inl err \<Rightarrow> Return (Inl err)
          | Inr (outputs, primary) \<Rightarrow>
              attempt (store_document_thread e cfg t canonFinal outputs primary x ps jobType) (\<lambda>_. Return (Ok x))))))"

definition document_thread :: "env \<Rightarrow> net \<Rightarrow> config \<Rightarrow> task \<Rightarrow> params \<Rightarrow> string \<Rightarrow> extracted work" where
  "document_thread e nt cfg t ps jobType =
     attempt (allowed_or_fail nt cfg (t_requested_url t) (hc_user_agent (c_http cfg))) (\<lambda>_.
     attempt (wait_thread e nt (t_requested_url t) (hc_user_agent (c_http cfg)) (cc_crawl_delay_ms (c_crawl cfg) * Millisecond)) (\<lambda>_.
     fetch_store_thread e nt cfg t ps jobType))"

section \<open>Links\<close>

text \<open>The function of \<open>Links\<close> reads the answers of the sitemap servers at one interaction.\<close>

definition links_thread :: "net \<Rightarrow> config \<Rightarrow> task \<Rightarrow> params \<Rightarrow> string list \<Rightarrow> (string list, world) thread" where
  "links_thread nt cfg t ps rawLinks =
     (let sameDomain = get_bool ps ''same_domain'';
          includeSitemaps = (cc_include_sitemaps (c_crawl cfg) \<and> get_bool ps ''include_sitemaps'');
          collect = (\<lambda>n sitemaps. collect_links (sitemap_get nt cfg n) sitemaps (t_requested_url t) (t_depth t) rawLinks
                       sameDomain includeSitemaps cfg)
      in if includeSitemaps \<and> t_depth t = 0 then
           then_do (sitemaps_thread nt (t_requested_url t)) (\<lambda>sitemaps. call (\<lambda>w. (collect (world_tick w) sitemaps, next_tick w)))
         else call (\<lambda>w. (collect (world_tick w) [], w)))"

fun link_tasks_thread :: "env \<Rightarrow> bool \<Rightarrow> int \<Rightarrow> string list \<Rightarrow> task list \<Rightarrow> task list work" where
  "link_tasks_thread e dedupe depth [] ts = Return (Ok ts)"
| "link_tasks_thread e dedupe depth (link # links) ts =
     (let more = link_tasks_thread e dedupe depth links (ts @ [new_task link link depth TaskStatusQueued])
      in if dedupe
         then attempt (if link = '''' then Return (Ok False) else query (has_seen_canonical e link)) (\<lambda>seen.
                if seen then link_tasks_thread e dedupe depth links ts else more)
         else more)"

definition plan_thread :: "env \<Rightarrow> config \<Rightarrow> task \<Rightarrow> string list \<Rightarrow> task list work" where
  "plan_thread e cfg t links =
     (if length links = 0 then Return (Ok [])
      else attempt (link_tasks_thread e (cc_dedupe_cache (c_crawl cfg)) (t_depth t + 1) (unique_strings links) []) (\<lambda>ts.
        if length ts = 0 then Return (Ok [])
        else if jd_max_tasks (c_job_defaults cfg) > 0
        then attempt (query (task_count e (t_job t))) (\<lambda>current.
               let remaining = jd_max_tasks (c_job_defaults cfg) - current
               in if remaining \<le> 0 then Return (Ok [])
                  else if int (length ts) > remaining then Return (Ok (take (nat remaining) ts))
                  else Return (Ok ts))
        else Return (Ok ts)))"

text \<open>\<open>InsertTasks\<close> outside a transaction: each row is visible at once.\<close>

fun insert_rows_thread :: "env \<Rightarrow> string \<Rightarrow> task list \<Rightarrow> unit work" where
  "insert_rows_thread e jobID [] = Return (Ok ())"
| "insert_rows_thread e jobID (t # ts) =
     attempt (query (insert_task_row e Pool jobID t)) (\<lambda>_. insert_rows_thread e jobID ts)"

definition insert_tasks_thread :: "env \<Rightarrow> string \<Rightarrow> task list \<Rightarrow> unit work" where
  "insert_tasks_thread e jobID ts = attempt (query (prepare e Pool)) (\<lambda>_. insert_rows_thread e jobID ts)"

section \<open>The task\<close>

definition crawl_thread :: "env \<Rightarrow> net \<Rightarrow> config \<Rightarrow> task \<Rightarrow> params \<Rightarrow> string \<Rightarrow> unit work" where
  "crawl_thread e nt cfg t ps jobType =
     attempt (document_thread e nt cfg t ps jobType) (\<lambda>x.
       if t_depth t \<ge> get_int ps ''max_depth'' then Return (Ok ())
       else then_do (call (past_max_duration e cfg (t_created_at t))) (\<lambda>late.
         if late then Return (Fail ''max_duration exceeded'')
         else then_do (links_thread nt cfg t ps (x_links x)) (\<lambda>links.
           if length links = 0 then Return (Ok ())
           else attempt (plan_thread e cfg t links) (\<lambda>ts.
                  if length ts = 0 then Return (Ok ()) else insert_tasks_thread e (t_job t) ts))))"

text \<open>The transaction of \<open>enqueueMapLinks\<close> is one step: what it inserts is visible to others when it commits.\<close>

definition map_thread :: "env \<Rightarrow> net \<Rightarrow> config \<Rightarrow> task \<Rightarrow> params \<Rightarrow> string \<Rightarrow> unit work" where
  "map_thread e nt cfg t ps jobType =
     attempt (allowed_or_fail nt cfg (t_requested_url t) (hc_user_agent (c_http cfg))) (\<lambda>_.
     attempt (wait_thread e nt (t_requested_url t) (hc_user_agent (c_http cfg)) (cc_crawl_delay_ms (c_crawl cfg) * Millisecond)) (\<lambda>_.
     attempt (call (fetch_with_limit nt cfg (t_requested_url t) False)) (\<lambda>fr.
     attempt (call (\<lambda>w. (extract_page (n_libs nt) (n_now_text nt (world_tick w)) (fr_final_url fr) (fr_body fr), w))) (\<lambda>x.
       if t_depth t \<ge> get_int ps ''max_depth'' then Return (Ok ())
       else then_do (links_thread nt cfg t ps (x_links x)) (\<lambda>links.
         if length links = 0 then Return (Ok ())
         else attempt (plan_thread e cfg t links) (\<lambda>ts.
                query (enqueue_map_links e (t_job t) (t_requested_url t) links (t_depth t + 1) ts)))))))"

definition dispatch_thread :: "env \<Rightarrow> net \<Rightarrow> config \<Rightarrow> task \<Rightarrow> job \<Rightarrow> unit work" where
  "dispatch_thread e nt cfg t j =
     (if j_type j = ''batch_scrape'' then
        attempt (document_thread e nt cfg t (params_of (j_params j)) (j_type j)) (\<lambda>_. Return (Ok ()))
      else if j_type j = ''crawl'' then crawl_thread e nt cfg t (params_of (j_params j)) (j_type j)
      else if j_type j = ''map'' then map_thread e nt cfg t (params_of (j_params j)) (j_type j)
      else Return (Fail (''unsupported job type: '' @ j_type j)))"

definition handle_thread :: "env \<Rightarrow> net \<Rightarrow> config \<Rightarrow> task \<Rightarrow> unit work" where
  "handle_thread e nt cfg t =
     attempt (query (get_job e (t_job t))) (\<lambda>j.
       then_do (call (past_max_duration e cfg (j_created_at j))) (\<lambda>late.
         if late then
           attempt (query_ignored (update_job_status e (j_id j) JobStatusCancelled ''max_duration exceeded'')) (\<lambda>_.
             Return (Fail ''job deadline exceeded''))
         else attempt (if j_status j = JobStatusQueued then query_ignored (start_job e (j_id j)) else Return (Ok ())) (\<lambda>_.
             dispatch_thread e nt cfg t j)))"

text \<open>\<open>FinishJob\<close>, statement by statement.\<close>

definition finish_status_thread :: "env \<Rightarrow> string \<Rightarrow> bool \<Rightarrow> unit work" where
  "finish_status_thread e jobID failed =
     query (update_job_status e jobID (if failed then JobStatusCompletedWithErrors else JobStatusCompleted) '''')"

definition finish_failed_thread :: "env \<Rightarrow> string \<Rightarrow> unit work" where
  "finish_failed_thread e jobID = attempt (query (has_failed_tasks e jobID)) (finish_status_thread e jobID)"

definition finish_thread :: "env \<Rightarrow> string \<Rightarrow> unit work" where
  "finish_thread e jobID =
     attempt (query (pending_task_counts e jobID)) (\<lambda>(queued, processing).
       if queued + processing > 0 then Return (Inl errPending) else finish_failed_thread e jobID)"

section \<open>Uninterrupted, the threads are the functions\<close>

lemma run_query [simp]: "run (query f) = on_db f" "run (query_ignored f) = (\<lambda>w. (Ok (), ignoring (on_db f) w))"
  by (simp_all add: query_def query_ignored_def)

lemma on_db_simps [simp]:
  "on_db (andthen f k) = andthen (on_db f) (\<lambda>x. on_db (k x))" "on_db (\<lambda>s. (r, s)) = (\<lambda>w. (r, w))"
  "on_db (Pair r) = Pair r"
  by (rule ext, simp add: on_db_def andthen_def split: prod.splits sum.splits)+

lemma run_allowed_or_fail: "run (allowed_or_fail nt cfg u ua) = ensure_robots_allowed nt cfg u ua"
  by (rule ext) (auto simp: allowed_or_fail_def ensure_robots_allowed_def run_robots Let_def world_tick_def next_tick_def split: prod.splits)

lemma run_store: "run (store_document_thread e cfg t u outputs primary x ps jobType) =
    store_document e cfg t u outputs primary x ps jobType"
  by (rule ext) (auto simp: store_document_thread_def store_document_def Let_def andthen_def split: sum.splits prod.splits)

lemma run_document: "run (document_thread e nt cfg t ps jobType) = process_document_task e nt cfg t ps jobType"
  by (rule ext)
    (auto simp: document_thread_def fetch_store_thread_def process_document_task_def fetch_extract_and_store_def run_allowed_or_fail run_store run_wait
      Let_def andthen_def split: sum.splits prod.splits)

lemma run_links: "run (links_thread nt cfg t ps raw) = links_of_page nt cfg t ps raw"
  by (rule ext) (auto simp: links_thread_def links_of_page_def run_robots Let_def world_tick_def split: prod.splits)

lemma run_link_tasks: "run (link_tasks_thread e dedupe depth links ts) = on_db (link_tasks_loop (has_seen_canonical e) dedupe depth links ts)"
proof (induction links arbitrary: dedupe ts)
  case Nil
  then show ?case by simp
next
  case (Cons link links)
  have branch: "on_db (if b then f else g) = (if b then on_db f else on_db g)" for b and f g :: "'x op" by simp
  show ?case by (simp add: Let_def Cons.IH should_skip_canonical_def branch if_distrib [of on_db] cong: if_cong)
qed

lemma run_plan: "run (plan_thread e cfg t links) = plan_links e cfg t links"
  by (simp add: plan_thread_def plan_links_def build_link_tasks_def run_link_tasks Let_def if_distrib [of on_db] cong: if_cong)

lemma run_insert_tasks: "run (insert_tasks_thread e j ts) = on_db (insert_tasks e Pool j ts)"
proof -
  have "run (insert_rows_thread e j ts) = on_db (insert_tasks_loop e Pool j ts)" by (induction ts) simp_all
  then show ?thesis by (simp add: insert_tasks_thread_def insert_tasks_def)
qed

lemma run_crawl: "run (crawl_thread e nt cfg t ps jobType) = process_crawl_task e nt cfg t ps jobType"
  unfolding crawl_thread_def process_crawl_task_def run_attempt run_document
  by (rule arg_cong [where f = "andthen _"], rule ext, rule ext)
    (auto simp: run_links run_plan run_insert_tasks split: prod.splits intro!: arg_cong [where f = "\<lambda>k. andthen _ k _"])

lemma run_map: "run (map_thread e nt cfg t ps jobType) = process_map_task e nt cfg t ps jobType"
  unfolding map_thread_def process_map_task_def run_attempt run_allowed_or_fail run_wait
  by (auto simp: run_links run_plan run_wait [abs_def] fun_eq_iff andthen_def split: prod.splits sum.splits)

lemma run_dispatch: "run (dispatch_thread e nt cfg t j) = dispatch_task e nt cfg t j"
  by (simp add: dispatch_thread_def dispatch_task_def run_document run_crawl run_map)

text \<open>A worker that nobody interrupts between its statements does exactly what \<open>handleTask\<close> and \<open>FinishJob\<close> are in the
  model of a single worker: the division into atomic steps changes no result and no state.\<close>

lemma run_handle_thread:
  "run (handle_thread e nt cfg t) = handle_task e nt cfg t"
  "run (finish_thread e j) = on_db (finish_job e j)"
  by (auto simp: handle_thread_def handle_task_def finish_thread_def finish_failed_thread_def finish_status_thread_def
      finish_job_def run_dispatch fun_eq_iff andthen_def on_db_def split: prod.splits sum.splits)

end
