(* ===== verification/Sharing.thy ===== *)
theory Sharing
  imports TaskMachine WorkerThreads
begin

text \<open>
  What the thread of a task does to the tables that it shares with other workers.  The locale \<open>thread_laws\<close> lifts the
  contract of \<open>task_laws\<close> to threads: between any two atomic steps the others may leave any state of \<open>A\<close>, and every
  step of the thread is one of \<open>G\<close>.  It is interpreted with \<open>keeps_to_job\<close>, which says what a task may change: rows of its
  own job.
\<close>

text \<open>Between planning tasks and inserting them other workers insert theirs, so the task limit is no law of a thread.\<close>

definition no_task_limit :: "config \<Rightarrow> config" where
  "no_task_limit cfg = cfg\<lparr>c_job_defaults := (c_job_defaults cfg)\<lparr>jd_max_tasks := 0\<rparr>\<rparr>"

lemma no_task_limit_simps [simp]:
  "jd_max_tasks (c_job_defaults (no_task_limit cfg)) = 0"
  "jd_max_bytes (c_job_defaults (no_task_limit cfg)) = jd_max_bytes (c_job_defaults cfg)" "doc_fits (no_task_limit cfg) d = doc_fits cfg d"
  "row_fits (no_task_limit cfg) = row_fits cfg"
  by (simp_all add: no_task_limit_def doc_fits_def row_fits_def [abs_def])

locale thread_laws =
  fixes A :: "db \<Rightarrow> bool" and G :: "db \<Rightarrow> db \<Rightarrow> bool" and e :: env and cfg :: config and j :: string and i :: int
    and fits :: "int \<Rightarrow> bool"
  assumes laws: "task_laws (G s0) e (no_task_limit cfg) j i fits"
    and now: "A s \<Longrightarrow> G s s"

sublocale thread_laws \<subseteq> at: task_laws "G s0" e "no_task_limit cfg" j i fits for s0
  by (rule laws)

context thread_laws begin

abbreviation follows :: "('a \<Rightarrow> bool) \<Rightarrow> ('a, world) thread \<Rightarrow> bool" where
  "follows \<equiv> abides (\<lambda>w. A (w_db w)) (\<lambda>w w'. G (w_db w) (w_db w'))"

lemma quiet:
  assumes "\<And>w. w_db (snd (f w)) = (w_db w)\<lparr>tick := tick (w_db (snd (f w)))\<rparr>" and "\<And>x. Q x"
  shows "follows Q (call f)"
  by (rule abides_call) (metis assms at.ticks now)

lemma query_keeps:
  assumes "\<And>s0. keeps (G s0) f" and "\<And>s r s'. A s \<Longrightarrow> f s = (r, s') \<Longrightarrow> Q r"
  shows "follows Q (query f)"
  unfolding query_def
proof (rule abides_call, intro conjI)
  fix w :: world assume A: "A (w_db w)"
  show "G (w_db w) (w_db (snd (on_db f w)))" using keepsD [OF assms(1) now [OF A]] by (simp add: on_db_snd)
  show "Q (fst (on_db f w))" using assms(2) [OF A] by (cases "f (w_db w)") (simp add: on_db_def)
qed

lemma ignored_keeps: "(\<And>s0. keeps (G s0) f) \<Longrightarrow> follows (if_ok (\<lambda>_. True)) (query_ignored f)"
  unfolding query_ignored_def
  by (rule abides_call) (simp add: at.keeps_ignoring_db now)

lemma in_robots_follows: "follows (\<lambda>_. True) (in_robots f)"
  unfolding in_robots_def by (rule quiet) (simp_all split: prod.splits)

lemma get_data_follows: "follows (\<lambda>_. True) (get_data_thread nt host scheme)"
  unfolding get_data_thread_def
  by (rule abides_then_do [OF in_robots_follows]) (auto simp: Let_def intro!: quiet split: option.splits)

lemma robots_follow:
  "follows (\<lambda>_. True) (allowed_thread nt u ua)" "follows (\<lambda>_. True) (delay_thread nt u ua d)"
  "follows (\<lambda>_. True) (sitemaps_thread nt u)"
  by (auto simp: allowed_thread_def delay_thread_def sitemaps_thread_def
      intro!: abides_then_do [OF get_data_follows] in_robots_follows split: option.splits prod.splits)

lemma allowed_follows: "follows (if_ok (\<lambda>_. True)) (allowed_or_fail nt cfg' u ua)"
  by (auto simp: allowed_or_fail_def next_tick_def intro!: abides_then_do [OF robots_follow(1)] quiet)

lemma wait_follows: "follows (if_ok (\<lambda>_. True)) (wait_thread e nt u ua d)"
  unfolding wait_thread_def
  by (rule abides_then_do [OF robots_follow(2)])
    (auto simp: next_tick_def Let_def intro!: quiet abides_then_do [where P = "\<lambda>_. True"] split: option.splits)

lemma fetch_follows: "follows (if_ok (\<lambda>_. True)) (call (fetch_with_limit nt cfg' u js))"
  by (auto simp: fetch_with_limit_def next_tick_def Let_def intro!: quiet split: sum.splits)

lemma extract_follows: "follows (if_ok (\<lambda>_. True)) (call (\<lambda>w. (f w :: 'b res, w)))"
  by (auto intro!: quiet)

lemma links_follow: "follows (\<lambda>_. True) (links_thread nt cfg' t ps raw)"
  by (auto simp: links_thread_def Let_def next_tick_def intro!: quiet abides_then_do [OF robots_follow(3)])

lemma past_follows: "follows (\<lambda>_. True) (call (past_max_duration e cfg' created))"
  by (rule quiet) (auto simp: past_max_duration_def read_clock_def Let_def)

lemma rows_follow: "\<forall>u \<in> set ts. t_status u = TaskStatusQueued \<and> fits (t_depth u) \<Longrightarrow>
    follows (if_ok (\<lambda>_. True)) (insert_rows_thread e j ts)"
proof (induction ts)
  case Nil
  then show ?case by simp
next
  case (Cons u ts)
  have "keeps (G s0) (insert_task_row e Pool j u)" for s0
    using Cons.prems by (intro keepsI at.task_row) simp_all
  from query_keeps [OF this, where Q = "if_ok (\<lambda>_. True)"] show ?case
    using Cons by (auto intro!: abides_attempt [where P = "\<lambda>_. True"])
qed

lemma insert_follows: "\<forall>u \<in> set ts. t_status u = TaskStatusQueued \<and> fits (t_depth u) \<Longrightarrow>
    follows (if_ok (\<lambda>_. True)) (insert_tasks_thread e j ts)"
  unfolding insert_tasks_thread_def prepare_def
  by (rule abides_attempt [where P = "\<lambda>_. True"]) (auto intro!: query_keeps at.reads rows_follow)

abbreviation planned :: "task list \<Rightarrow> bool" where
  "planned ts \<equiv> \<forall>u \<in> set ts. t_status u = TaskStatusQueued \<and> fits (t_depth u)"

lemma link_tasks_follow: "planned ts \<Longrightarrow> fits d \<Longrightarrow> follows (if_ok planned) (link_tasks_thread e dedupe d links ts)"
proof (induction links arbitrary: ts)
  case Nil
  then show ?case by simp
next
  case (Cons link links)
  have "planned (ts @ [new_task link link d TaskStatusQueued])" using Cons.prems by (simp add: new_task_def)
  then show ?case using Cons
    by (auto simp: Let_def has_seen_canonical_def intro!: abides_attempt [where P = "\<lambda>_. True"] query_keeps at.reads)
qed

lemma plan_follows: "fits (t_depth t + 1) \<Longrightarrow> follows (if_ok planned) (plan_thread e cfg' t links)"
proof -
  assume fits: "fits (t_depth t + 1)"
  have "follows (if_ok planned) (attempt (query (task_count e (t_job t))) (\<lambda>current.
      let remaining = jd_max_tasks (c_job_defaults cfg') - current
      in if remaining \<le> 0 then Return (Ok [])
         else if int (length ts) > remaining then Return (Ok (take (nat remaining) ts)) else Return (Ok ts)))"
    if "planned ts" for ts
    using that
    by (auto simp: task_count_def Let_def intro!: abides_attempt [where P = "\<lambda>_. True"] query_keeps at.reads dest!: in_set_takeD)
  then show ?thesis unfolding plan_thread_def
    by (auto intro!: abides_attempt [OF link_tasks_follow] fits)
qed

lemma store_follows:
  assumes "t_job t = j"
  shows "follows (if_ok (\<lambda>_. True)) (store_document_thread e cfg t u outputs primary x ps jobType)"
proof -
  let ?d = "\<lparr>d_job = t_job t, d_requested_url = t_requested_url t, d_final_url = u, d_title = x_title x,
      d_content_md = primary, d_content_raw = primary, d_meta = stored_meta x ps jobType outputs\<rparr>"
  have "keeps (G s0) (insert_document e ?d)"
    if "\<not> (jd_max_bytes (c_job_defaults cfg) > 0 \<and> int (max_content_length outputs primary) > jd_max_bytes (c_job_defaults cfg))" for s0
  proof (rule at.document)
    show "doc_fits (no_task_limit cfg) ?d" using that unfolding no_task_limit_simps doc_fits_def
      by (intro exI [of _ x] exI [of _ ps] exI [of _ jobType] exI [of _ outputs]) auto
  qed (simp add: assms)
  then show ?thesis unfolding store_document_thread_def Let_def
    by (auto intro!: abides_attempt [where P = "\<lambda>_. True"] query_keeps ignored_keeps at.mark split: sum.splits)
qed

lemma document_follows:
  assumes "t_job t = j" and "t_id t = i"
  shows "follows (if_ok (\<lambda>_. True)) (document_thread e nt cfg t ps jobType)"
  unfolding document_thread_def fetch_store_thread_def Let_def assms(2)
  by (auto intro!: abides_attempt [where P = "\<lambda>_. True"] allowed_follows wait_follows fetch_follows extract_follows ignored_keeps
      at.final_url store_follows assms(1) split: sum.splits)

lemma crawl_follows:
  assumes "t_job t = j" and "t_id t = i" and "t_depth t < get_int ps ''max_depth'' \<Longrightarrow> fits (t_depth t + 1)"
  shows "follows (if_ok (\<lambda>_. True)) (crawl_thread e nt cfg t ps jobType)"
  unfolding crawl_thread_def using assms(3)
  by (auto simp: assms(1) intro!: abides_attempt [OF document_follows [OF assms(1,2)]] abides_then_do [OF past_follows]
      abides_then_do [OF links_follow] abides_attempt [OF plan_follows] insert_follows)

lemma map_follows:
  assumes "t_job t = j" and "t_id t = i" and "t_depth t < get_int ps ''max_depth'' \<Longrightarrow> fits (t_depth t + 1)"
  shows "follows (if_ok (\<lambda>_. True)) (map_thread e nt cfg t ps jobType)"
proof -
  have "keeps (G s0) (enqueue_map_links e j src links d ts)" if "planned ts" for s0 src links d ts
    using that by (intro keepsI at.map_links) (auto simp: plan_ok_def room_def)
  then show ?thesis unfolding map_thread_def using assms(3)
    by (auto simp: assms(1) intro!: abides_attempt [where P = "\<lambda>_. True"] allowed_follows wait_follows fetch_follows extract_follows
        abides_then_do [OF links_follow] abides_attempt [OF plan_follows] query_keeps)
qed

lemma handle_follows:
  assumes "t_job t = j" and "t_id t = i"
  shows "follows (\<lambda>_. True) (handle_thread e nt cfg t)"
proof -
  define job_read where "job_read jb \<longleftrightarrow> j_id jb = j \<and> (\<forall>k \<le> get_int (params_of (j_params jb)) ''max_depth''. fits k)" for jb :: job
  have dispatch: "follows (if_ok (\<lambda>_. True)) (dispatch_thread e nt cfg t jb)" if "job_read jb" for jb
    using that unfolding dispatch_thread_def job_read_def
    by (auto intro!: abides_attempt [OF document_follows [OF assms]] crawl_follows map_follows assms)
  have "keeps (G s0) (get_job e j)" for s0
    by (auto simp: get_job_def keeps_def exec_def Let_def at.ticks split: option.splits)
  moreover have "if_ok job_read r" if "A s" "get_job e j s = (r, s')" for s r s'
  proof (cases r)
    case (Inr jb)
    have "j_id jb = j" using that(2) Inr by (auto simp: get_job_def find_Some_iff dest!: exec_ok split: option.splits)
    then show ?thesis using at.depth [OF now [OF that(1)]] that(2) Inr by (auto simp: job_read_def)
  qed simp
  ultimately have read: "follows (if_ok job_read) (query (get_job e j))" by (rule query_keeps)
  have "follows (if_ok (\<lambda>_. True)) (handle_thread e nt cfg t)"
    unfolding handle_thread_def assms(1)
  proof (rule abides_attempt [OF read])
    fix jb assume jb: "job_read jb"
    then have id: "j_id jb = j" by (simp add: job_read_def)
    show "follows (if_ok (\<lambda>_. True)) (then_do (call (past_max_duration e cfg (j_created_at jb))) (\<lambda>late.
         if late then
           attempt (query_ignored (update_job_status e (j_id jb) JobStatusCancelled ''max_duration exceeded'')) (\<lambda>_.
             Return (Fail ''job deadline exceeded''))
         else attempt (if j_status jb = JobStatusQueued then query_ignored (start_job e (j_id jb)) else Return (Ok ())) (\<lambda>_.
             dispatch_thread e nt cfg t jb)))"
      unfolding id by (auto intro!: abides_then_do [OF past_follows] abides_attempt [where P = "\<lambda>_. True"] ignored_keeps at.start at.cancels
          dispatch [OF jb])
  qed
  then show ?thesis by (rule abides_weaken) simp
qed

end

section \<open>Two contracts at once\<close>

lemma keeps_conj: "keeps I f \<Longrightarrow> keeps I' f \<Longrightarrow> keeps (\<lambda>s. I s \<and> I' s) f"
  by (simp add: keeps_def)

lemma task_laws_conj:
  assumes "task_laws I e cfg j i fits" and "task_laws I' e cfg j i fits'"
  shows "task_laws (\<lambda>s. I s \<and> I' s) e cfg j i (\<lambda>k. fits k \<and> fits' k)"
  using assms unfolding task_laws_def by (intro conjI allI impI keeps_conj) (elim conjE; blast)+

section \<open>A task keeps to its job\<close>

text \<open>
  From \<open>s0\<close> to \<open>s\<close> only rows of the job \<open>j\<close> have changed: the old tasks are in their phases with their last
  heartbeats, new ones wait, and the job itself may have been started or cancelled.
\<close>

definition keeps_to_job :: "string \<Rightarrow> db \<Rightarrow> db \<Rightarrow> bool" where
  "keeps_to_job j s0 s \<longleftrightarrow> task_seq s0 \<le> task_seq s \<and> map j_id (jobs s) = map j_id (jobs s0)
     \<and> (\<forall>jb \<in> set (jobs s). jb \<in> set (jobs s0) \<or> (j_id jb = j \<and> j_status jb \<in> {JobStatusRunning, JobStatusCancelled}))
     \<and> (\<exists>new. map row_key (tasks s) = map row_key (tasks s0) @ new
          \<and> (\<forall>k \<in> set new. task_seq s0 < fst k \<and> fst k \<le> task_seq s \<and> snd k = (j, Waiting 0) \<and> job_exists j s0))
     \<and> (\<exists>new. map t_heartbeat_at (tasks s) = map t_heartbeat_at (tasks s0) @ new)"

lemma keeps_to_job_simps [simp]:
  "keeps_to_job j s0 (s\<lparr>tick := n\<rparr>) = keeps_to_job j s0 s" "keeps_to_job j s0 (s\<lparr>documents := ds\<rparr>) = keeps_to_job j s0 s"
  "keeps_to_job j s0 (s\<lparr>doc_seq := k\<rparr>) = keeps_to_job j s0 s" "keeps_to_job j s0 (s\<lparr>mapped_urls := ms\<rparr>) = keeps_to_job j s0 s"
  "keeps_to_job j s0 (s\<lparr>map_seq := k\<rparr>) = keeps_to_job j s0 s" "keeps_to_job j s0 (s\<lparr>dedupe_cache := c\<rparr>) = keeps_to_job j s0 s"
  "keeps_to_job j s s"
  by (simp_all add: keeps_to_job_def)

lemma keeps_to_job_exec:
  "(\<And>now. keeps (keeps_to_job j s0) (body now)) \<Longrightarrow> keeps (keeps_to_job j s0) (exec e c body)"
  by (rule keeps_exec) (simp_all add: tick_free_def)

lemma keeps_to_job_later: "keeps_to_job j s0 s \<Longrightarrow> task_seq s \<le> n \<Longrightarrow> keeps_to_job j s0 (s\<lparr>task_seq := n\<rparr>)"
  unfolding keeps_to_job_def by fastforce

lemma keeps_to_job_tasks:
  "(\<And>t. row_key (f t) = row_key t \<and> t_heartbeat_at (f t) = t_heartbeat_at t) \<Longrightarrow> keeps_to_job j s0 s \<Longrightarrow>
    keeps_to_job j s0 (s\<lparr>tasks := map f (tasks s)\<rparr>)"
  by (simp add: keeps_to_job_def o_def)

lemma keeps_to_job_status:
  assumes "\<And>x. j_id (f x) = j_id x" and "\<And>x. j_status (f x) \<in> {JobStatusRunning, JobStatusCancelled}"
    and "keeps_to_job j s0 s"
  shows "keeps_to_job j s0 (update_job j f s)"
proof -
  have "j_id \<circ> (\<lambda>x. if j_id x = j then f x else x) = j_id" using assms(1) by (auto simp: fun_eq_iff)
  then show ?thesis using assms by (auto simp: keeps_to_job_def update_job_def)
qed

lemma keeps_to_job_row:
  assumes "keeps_to_job j s0 s" and "job_exists j s" and "t_id r = task_seq s + 1" and "t_job r = j"
    and "t_status r = TaskStatusQueued" and "t_attempts r = 0"
  shows "keeps_to_job j s0 (s\<lparr>task_seq := task_seq s + 1, tasks := tasks s @ [r]\<rparr>)"
proof -
  obtain new where new: "map row_key (tasks s) = map row_key (tasks s0) @ new"
      "\<forall>k \<in> set new. task_seq s0 < fst k \<and> fst k \<le> task_seq s \<and> snd k = (j, Waiting 0) \<and> job_exists j s0"
    using assms(1) unfolding keeps_to_job_def by blast
  moreover have "\<exists>beats. map t_heartbeat_at (tasks s @ [r]) = map t_heartbeat_at (tasks s0) @ beats"
    using assms(1) by (auto simp: keeps_to_job_def)
  moreover have "job_exists j s0" using assms(1,2) by (simp add: keeps_to_job_def job_exists_def)
  moreover have "row_key r = (task_seq s + 1, j, Waiting 0)" using assms(3-6) by (simp add: row_key_def phase_of_def)
  ultimately show ?thesis using assms(1) unfolding keeps_to_job_def
    by (intro conjI exI [of _ "new @ [row_key r]"]) auto
qed

lemma keeps_to_job_rollback:
  assumes "keeps_to_job j s0 s1" and "later_seqs s1 s2"
  shows "keeps_to_job j s0 (rollback s1 s2)"
proof -
  have "keeps_to_job j s0 (s1\<lparr>task_seq := task_seq s2\<rparr>)"
    using assms by (intro keeps_to_job_later) (simp_all add: later_seqs_def)
  then show ?thesis by (simp add: keeps_to_job_def rollback_def)
qed

lemma keeps_to_job_laws: "task_laws (keeps_to_job j s0) e (no_task_limit cfg) j i (\<lambda>_. True)"
proof
  show "keeps (keeps_to_job j s0) (start_job e j)" "keeps (keeps_to_job j s0) (update_job_status e j JobStatusCancelled msg)" for msg
    unfolding start_job_def update_job_status_def
    by (intro keeps_to_job_exec keeps_then keeps_to_job_status; simp)+
  show "keeps (keeps_to_job j s0) (update_task_final_url e i url)" for url
    unfolding update_task_final_url_def
    by (intro keeps_to_job_exec keeps_then keeps_to_job_tasks)
      (auto simp: set_final_url_def row_key_def phase_of_def split: task_status.splits)
  show "keeps (keeps_to_job j s0) (mark_canonical e url)" "keeps (keeps_to_job j s0) (insert_document e d)"
      "keeps (keeps_to_job j s0) (insert_mapped_row e c m)" for url d c m
    unfolding mark_canonical_def insert_document_def insert_mapped_row_def
    by (intro keeps_to_job_exec; auto simp: Let_def intro!: keepsI)+
  have "keeps (keeps_to_job j s0) (insert_task_row e c j u)" if "t_status u = TaskStatusQueued" for c u
    unfolding insert_task_row_def using that
    by (intro keeps_to_job_exec keepsI) (auto simp: Let_def intro!: keeps_to_job_later keeps_to_job_row)
  note row = keepsD [OF this]
  show "keeps_to_job j s0 (snd (insert_task_row e c j u s))" if "keeps_to_job j s0 s" "t_status u = TaskStatusQueued" for s u c
    by (rule row [OF that(2,1)])
qed (auto intro: keeps_to_job_rollback)

section \<open>The book of jobs\<close>

text \<open>
  What was ever created, by id: the type and the parameters of the job.  The book is not part of the program; it says
  what a job id means after its row is deleted, when workers may still be busy with a task of it.
\<close>

type_synonym book = "string \<rightharpoonup> string \<times> json"

definition in_book :: "book \<Rightarrow> job \<Rightarrow> bool" where
  "in_book D jb \<longleftrightarrow> D (j_id jb) = Some (j_type jb, j_params jb)"

definition depth_in :: "book \<Rightarrow> string \<Rightarrow> int \<Rightarrow> bool" where
  "depth_in D j k \<longleftrightarrow> (\<exists>ty ps. D j = Some (ty, ps) \<and> k \<le> max 0 (get_int (params_of ps) ''max_depth''))"

interpretation booked: stable_rows "in_book D" "\<lambda>t. depth_in D (t_job t) (t_depth t)" "row_fits cfg []" cfg "depth_in D" for D cfg
  by unfold_locales (auto simp: in_book_def depth_in_def row_fits_def)

definition sound :: "config \<Rightarrow> book \<Rightarrow> db \<Rightarrow> bool" where
  "sound cfg D s \<longleftrightarrow> db_inv s \<and> rows_ok (in_book D) (\<lambda>t. depth_in D (t_job t) (t_depth t)) (row_fits cfg []) s"

lemma sound_laws: "task_laws (sound cfg D) e (no_task_limit cfg) j i (depth_in D j)"
proof -
  have "task_laws (rows_ok (in_book D) (\<lambda>t. depth_in D (t_job t) (t_depth t)) (row_fits (no_task_limit cfg) [])) e (no_task_limit cfg) j i (depth_in D j)"
    by (rule booked.per_task)
  from task_laws_conj [OF tables.per_task this] show ?thesis by (simp add: sound_def [abs_def])
qed

interpretation sharing: thread_laws "sound cfg D" "\<lambda>s0 s. sound cfg D s \<and> keeps_to_job j s0 s" e cfg j i "depth_in D j"
  for cfg D j e i
  using task_laws_conj [OF sound_laws keeps_to_job_laws] by (intro thread_laws.intro) simp_all

end
