(* ===== verification/Team.thy ===== *)
theory Team
  imports Routes Sharing
begin

text \<open>
  The whole system, statement by statement: any number of workers whose threads take turns in any order and may die
  at any point, their heartbeats, requests to the API and the two statements of the cleanup.  Every step has an
  environment of its own, so clocks, failures and answers are arbitrary.
\<close>

section \<open>Steps\<close>

text \<open>A worker without a task; at work on one; after its outcome is written, in \<open>FinishJob\<close>.\<close>

datatype work_state = Free | Handling task "unit work" | Finishing task "unit work"

record team =
  tm_world :: world
  tm_work :: "nat \<Rightarrow> work_state"
  tm_book :: book

definition puts :: "nat \<Rightarrow> work_state \<Rightarrow> world \<Rightarrow> team \<Rightarrow> team" where
  "puts k x w y = y\<lparr>tm_world := w, tm_work := (tm_work y)(k := x)\<rparr>"

abbreviation team_db :: "team \<Rightarrow> db" where
  "team_db y \<equiv> w_db (tm_world y)"

definition with_db :: "db \<Rightarrow> team \<Rightarrow> team" where
  "with_db s y = y\<lparr>tm_world := (tm_world y)\<lparr>w_db := s\<rparr>\<rparr>"

text \<open>The tasks at work have had a heartbeat within the lease, by the clock of the worker that looks for a task.\<close>

definition leases_live :: "env \<Rightarrow> config \<Rightarrow> team \<Rightarrow> bool" where
  "leases_live e cfg y \<longleftrightarrow> (\<forall>k t th. tm_work y k = Handling t th \<longrightarrow>
     (\<forall>u \<in> set (tasks (team_db y)). t_id u = t_id t \<longrightarrow>
        (case t_heartbeat_at u of None \<Rightarrow> False
         | Some h \<Rightarrow> go_now e (tick (team_db y)) - wc_lease_timeout (c_worker cfg) \<le> h)))"

definition book_of :: "job list \<Rightarrow> book" where
  "book_of js = map_of (map (\<lambda>jb. (j_id jb, (j_type jb, j_params jb))) js)"

text \<open>
  A request that creates work is one step when its transaction commits, but it has asked for its seeds before,
  outside of the transaction and at other moments: the answers come from any state \<open>dc\<close> of the cache.
\<close>

definition serves :: "env \<Rightarrow> config \<Rightarrow> (string \<times> time) list \<Rightarrow> batch_request res \<Rightarrow> crawl_request res \<Rightarrow> map_request res \<Rightarrow>
    db \<Rightarrow> db \<Rightarrow> bool" where
  "serves e cfg dc p1 p2 p3 s s' \<longleftrightarrow> distinct (map fst dc) \<and>
     (let s1 = s\<lparr>dedupe_cache := dc\<rparr> in
      \<exists>s2 \<in> {snd (batch_handler e cfg p1 s1), snd (crawl_handler e cfg p2 s1), snd (map_handler e cfg p3 s1)}.
        s' = s2\<lparr>dedupe_cache := dedupe_cache s\<rparr>)"

text \<open>
  The steps other than those that a lease depends on, claims and heartbeats; \<open>timely\<close> says that heartbeats arrive in time.  A job gets an id that no job had before.  The robots client may change
  at any time: a worker of another process has its own, a restarted one a new one.
\<close>

inductive quiet_step :: "config \<Rightarrow> team \<Rightarrow> team \<Rightarrow> bool" for cfg where
  no_claim: "tm_work y k = Free \<Longrightarrow>
    on_db (dequeue_task e (wc_lease_timeout (c_worker cfg))) (tm_world y) = (Inl err, w) \<Longrightarrow>
    quiet_step cfg y (puts k Free w y)"
| work: "tm_work y k = Handling t (Atom f) \<Longrightarrow> f (tm_world y) = (th, w) \<Longrightarrow> quiet_step cfg y (puts k (Handling t th) w y)"
| settle: "tm_work y k = Handling t (Return r) \<Longrightarrow> settle_task e nt cfg t r (tm_world y) = (x, w) \<Longrightarrow>
    quiet_step cfg y (puts k (Finishing t (finish_thread e (t_job t))) w y)"
| finish: "tm_work y k = Finishing t (Atom f) \<Longrightarrow> f (tm_world y) = (th, w) \<Longrightarrow> quiet_step cfg y (puts k (Finishing t th) w y)"
| finished: "tm_work y k = Finishing t (Return r) \<Longrightarrow> quiet_step cfg y (puts k Free (tm_world y) y)"
| crash: "quiet_step cfg y (puts k Free (tm_world y) y)"
| request: "serves e cfg dc p1 p2 p3 (team_db y) s \<Longrightarrow>
    \<forall>jb \<in> set (jobs s) - set (jobs (team_db y)). j_id jb \<notin> dom (tm_book y) \<Longrightarrow>
    quiet_step cfg y ((with_db s y)\<lparr>tm_book := tm_book y ++ book_of (jobs s)\<rparr>)"
| cancel: "quiet_step cfg y (with_db (ignoring (cancel_expired e) (team_db y)) y)"
| delete: "quiet_step cfg y (with_db (ignoring (delete_expired e) (team_db y)) y)"
| robots: "quiet_step cfg y (y\<lparr>tm_world := (tm_world y)\<lparr>w_robots := rc\<rparr>\<rparr>)"

inductive team_step :: "config \<Rightarrow> bool \<Rightarrow> team \<Rightarrow> team \<Rightarrow> bool" for cfg timely where
  claim: "tm_work y k = Free \<Longrightarrow> (timely \<longrightarrow> leases_live e cfg y) \<Longrightarrow>
    on_db (dequeue_task e (wc_lease_timeout (c_worker cfg))) (tm_world y) = (Ok t, w) \<Longrightarrow>
    team_step cfg timely y (puts k (Handling t (handle_thread e nt cfg t)) w y)"
| heartbeat: "tm_work y k \<in> {Handling t th, Finishing t th} \<Longrightarrow>
    team_step cfg timely y (with_db (ignoring (update_task_heartbeat e (t_id t)) (team_db y)) y)"
| quiet: "quiet_step cfg y y' \<Longrightarrow> team_step cfg timely y y'"

text \<open>All kinds of steps side by side.\<close>

lemma team_step_cases:
  assumes "team_step cfg timely y y'"
  obtains (claim) k e t w nt where "y' = puts k (Handling t (handle_thread e nt cfg t)) w y" "tm_work y k = Free"
      "timely \<longrightarrow> leases_live e cfg y" "on_db (dequeue_task e (wc_lease_timeout (c_worker cfg))) (tm_world y) = (Ok t, w)"
  | (no_claim) k e err w where "y' = puts k Free w y" "tm_work y k = Free"
      "on_db (dequeue_task e (wc_lease_timeout (c_worker cfg))) (tm_world y) = (Inl err, w)"
  | (work) k t f th w where "y' = puts k (Handling t th) w y" "tm_work y k = Handling t (Atom f)" "f (tm_world y) = (th, w)"
  | (settle) k t r e nt x w where "y' = puts k (Finishing t (finish_thread e (t_job t))) w y" "tm_work y k = Handling t (Return r)"
      "settle_task e nt cfg t r (tm_world y) = (x, w)"
  | (finish) k t f th w where "y' = puts k (Finishing t th) w y" "tm_work y k = Finishing t (Atom f)" "f (tm_world y) = (th, w)"
  | (finished) k t r where "y' = puts k Free (tm_world y) y" "tm_work y k = Finishing t (Return r)"
  | (heartbeat) k t th e where "y' = with_db (ignoring (update_task_heartbeat e (t_id t)) (team_db y)) y"
      "tm_work y k \<in> {Handling t th, Finishing t th}"
  | (crash) k where "y' = puts k Free (tm_world y) y"
  | (request) e dc p1 p2 p3 s where "y' = (with_db s y)\<lparr>tm_book := tm_book y ++ book_of (jobs s)\<rparr>"
      "serves e cfg dc p1 p2 p3 (team_db y) s" "\<forall>jb \<in> set (jobs s) - set (jobs (team_db y)). j_id jb \<notin> dom (tm_book y)"
  | (cancel) e where "y' = with_db (ignoring (cancel_expired e) (team_db y)) y"
  | (delete) e where "y' = with_db (ignoring (delete_expired e) (team_db y)) y"
  | (robots) rc where "y' = y\<lparr>tm_world := (tm_world y)\<lparr>w_robots := rc\<rparr>\<rparr>"
  using assms
proof (cases rule: team_step.cases)
  case claim
  then show ?thesis by (rule that(1))
next
  case heartbeat
  then show ?thesis by (rule that(7))
next
  case quiet
  then show ?thesis
  proof (cases rule: quiet_step.cases)
    case no_claim
    then show ?thesis by (rule that(2))
  next
    case work
    then show ?thesis by (rule that(3))
  next
    case settle
    then show ?thesis by (rule that(4))
  next
    case finish
    then show ?thesis by (rule that(5))
  next
    case finished
    then show ?thesis by (rule that(6))
  next
    case crash
    then show ?thesis by (rule that(8))
  next
    case request
    then show ?thesis by (rule that(9))
  next
    case cancel
    then show ?thesis by (rule that(10))
  next
    case delete
    then show ?thesis by (rule that(11))
  next
    case robots
    then show ?thesis by (rule that(12))
  qed
qed

definition team_start :: "config \<Rightarrow> team" where
  "team_start cfg = \<lparr>tm_world = \<lparr>w_db = empty_db, w_robots = new_robots (cc_robots_fail_open (c_crawl cfg))\<rparr>,
     tm_work = (\<lambda>_. Free), tm_book = Map.empty\<rparr>"

inductive team_reachable :: "config \<Rightarrow> bool \<Rightarrow> team \<Rightarrow> bool" for cfg timely where
  start: "team_reachable cfg timely (team_start cfg)"
| step: "team_reachable cfg timely y \<Longrightarrow> team_step cfg timely y y' \<Longrightarrow> team_reachable cfg timely y'"

lemma puts_simps [simp]:
  "tm_world (puts k x w y) = w" "tm_work (puts k x w y) = (tm_work y)(k := x)" "tm_book (puts k x w y) = tm_book y"
  "puts k a w' (puts k b w y) = puts k a w' y"
  by (simp_all add: puts_def)

lemma with_db_simps [simp]:
  "team_db (with_db s y) = s" "tm_work (with_db s y) = tm_work y" "tm_book (with_db s y) = tm_book y"
  by (simp_all add: with_db_def)

section \<open>A worker that is not interrupted\<close>

lemma uninterrupted:
  assumes step: "\<And>y f th w. tm_work y k = c (Atom f) \<Longrightarrow> f (tm_world y) = (th, w) \<Longrightarrow> team_step cfg timely y (puts k (c th) w y)"
    and "tm_work y k = c th"
  shows "(team_step cfg timely)\<^sup>*\<^sup>* y (puts k (c (Return (fst (run th (tm_world y))))) (snd (run th (tm_world y))) y)"
  using assms(2)
proof (induction th arbitrary: y)
  case (Return r)
  have "puts k (c (Return r)) (tm_world y) y = y" using Return.prems by (simp add: puts_def fun_upd_idem)
  then show ?case by simp
next
  case (Atom f)
  obtain th w where f: "f (tm_world y) = (th, w)" by (cases "f (tm_world y)")
  have "team_step cfg timely y (puts k (c th) w y)" by (rule step [OF Atom.prems f])
  moreover have "th \<in> Basic_BNFs.fsts (f (tm_world y))" by (simp add: f prod_set_defs)
  from Atom.IH [OF _ this, of "puts k (c th) w y"]
  have "(team_step cfg timely)\<^sup>*\<^sup>* (puts k (c th) w y) (puts k (c (Return (fst (run th w)))) (snd (run th w)) y)"
    by simp
  ultimately show ?case by (simp add: f Let_def converse_rtranclp_into_rtranclp)
qed

lemma uninterrupted_work: "tm_work y k = Handling t th \<Longrightarrow>
    (team_step cfg timely)\<^sup>*\<^sup>* y (puts k (Handling t (Return (fst (run th (tm_world y))))) (snd (run th (tm_world y))) y)"
  by (rule uninterrupted [where c = "Handling t"], rule quiet, rule work)

lemma uninterrupted_finish: "tm_work y k = Finishing t th \<Longrightarrow>
    (team_step cfg timely)\<^sup>*\<^sup>* y (puts k (Finishing t (Return (fst (run th (tm_world y))))) (snd (run th (tm_world y))) y)"
  by (rule uninterrupted [where c = "Finishing t"], rule quiet, rule finish)

lemma uninterrupted_round:
  assumes "tm_work y k = Free" and "timely \<longrightarrow> leases_live e cfg y"
  shows "(team_step cfg timely)\<^sup>*\<^sup>* y (puts k Free (snd (worker_round e nt cfg (tm_world y))) y)"
proof -
  let ?d = "on_db (dequeue_task e (wc_lease_timeout (c_worker cfg))) (tm_world y)"
  show ?thesis
  proof (cases "fst ?d")
    case (Inl err)
    then have d: "?d = (Inl err, snd ?d)" by (simp add: prod_eq_iff)
    have "snd (worker_round e nt cfg (tm_world y)) = snd ?d" unfolding worker_round_def by (subst d) simp
    then show ?thesis using quiet [OF no_claim [OF assms(1) d]] by (metis r_into_rtranclp)
  next
    case (Inr t)
    then have d: "?d = (Ok t, snd ?d)" by (simp add: prod_eq_iff)
    obtain r w2 where h: "handle_task e nt cfg t (snd ?d) = (r, w2)" by (cases "handle_task e nt cfg t (snd ?d)")
    obtain x w3 where st: "settle_task e nt cfg t r w2 = (x, w3)" by (cases "settle_task e nt cfg t r w2")
    obtain q w4 where f: "on_db (finish_job e (t_job t)) w3 = (q, w4)" by (cases "on_db (finish_job e (t_job t)) w3")
    let ?y1 = "puts k (Handling t (handle_thread e nt cfg t)) (snd ?d) y" and ?y2 = "puts k (Handling t (Return r)) w2 y"
      and ?y3 = "puts k (Finishing t (finish_thread e (t_job t))) w3 y" and ?y4 = "puts k (Finishing t (Return q)) w4 y"
    have "team_step cfg timely y ?y1" by (rule claim [OF assms d])
    moreover have "(team_step cfg timely)\<^sup>*\<^sup>* ?y1 ?y2"
      using uninterrupted_work [of ?y1 k t "handle_thread e nt cfg t" cfg timely] by (simp add: run_handle_thread h)
    moreover have "team_step cfg timely ?y2 ?y3" using quiet [OF settle [of ?y2 k t r e nt cfg x w3]] st by simp
    moreover have "(team_step cfg timely)\<^sup>*\<^sup>* ?y3 ?y4"
      using uninterrupted_finish [of ?y3 k t "finish_thread e (t_job t)" cfg timely] by (simp add: run_handle_thread f)
    moreover have "team_step cfg timely ?y4 (puts k Free w4 y)" using quiet [OF finished [of ?y4 k t q cfg]] by simp
    moreover have "snd (worker_round e nt cfg (tm_world y)) = w4" unfolding worker_round_def by (subst d) (simp add: h st f ignoring_def)
    ultimately show ?thesis by (meson rtranclp.rtrancl_into_rtrancl rtranclp_trans converse_rtranclp_into_rtranclp)
  qed
qed


lemma reachable_later: "(team_step cfg timely)\<^sup>*\<^sup>* y y' \<Longrightarrow> team_reachable cfg timely y \<Longrightarrow> team_reachable cfg timely y'"
  by (induction rule: rtranclp_induct) (auto intro: team_reachable.step)

end
