(* ===== verification/TeamSafety.thy ===== *)
theory TeamSafety
  imports Team
begin

text \<open>
  What holds in every state that the system of \<open>Team\<close> can reach, heartbeats in time or not: the tables are sound, and
  every job is one that the interface created from a valid request.
\<close>

section \<open>Requests\<close>

text \<open>The type and the parameters of a job that came from a valid request.\<close>

definition from_request :: "string \<times> json \<Rightarrow> bool" where
  "from_request tp \<longleftrightarrow>
     (fst tp = ''batch_scrape'' \<and> (\<exists>r. validate_batch_request r = Ok () \<and> snd tp = marshal_batch r))
   \<or> (fst tp = ''crawl'' \<and> (\<exists>r. validate_crawl_request r = Ok () \<and> snd tp = marshal_crawl r))
   \<or> (fst tp = ''map'' \<and> (\<exists>r. validate_map_request r = Ok () \<and> snd tp = marshal_map r))"

lemma from_request_kinds:
  "validate_batch_request b = Ok () \<Longrightarrow> from_request (''batch_scrape'', marshal_batch b)"
  "validate_crawl_request c = Ok () \<Longrightarrow> from_request (''crawl'', marshal_crawl c)"
  "validate_map_request m = Ok () \<Longrightarrow> from_request (''map'', marshal_map m)"
  by (auto simp: from_request_def)

text \<open>Later than \<open>s0\<close>: new task rows have new ids.\<close>

definition later_ids :: "db \<Rightarrow> db \<Rightarrow> bool" where
  "later_ids s0 s \<longleftrightarrow> task_seq s0 \<le> task_seq s \<and> (\<exists>new. tasks s = tasks s0 @ new \<and> (\<forall>t \<in> set new. task_seq s0 < t_id t))"

lemma later_ids_simps [simp]: "later_ids s0 (s\<lparr>tick := n\<rparr>) = later_ids s0 s" "later_ids s0 (s\<lparr>jobs := js\<rparr>) = later_ids s0 s" "later_ids s s"
  by (simp_all add: later_ids_def)

lemma later_ids_exec: "(\<And>now. keeps (later_ids s0) (body now)) \<Longrightarrow> keeps (later_ids s0) (exec e c body)"
  by (rule keeps_exec) (simp_all add: tick_free_def)

lemma later_ids_statements:
  "keeps (later_ids s0) (insert_job e c ty params ex dl)" "keeps (later_ids s0) (has_seen_canonical e u)"
  "keeps (later_ids s0) (prepare e c)" "keeps (later_ids s0) (insert_task_row e c j t)"
  unfolding insert_job_def has_seen_canonical_def prepare_def insert_task_row_def
  by (rule later_ids_exec, rule keepsI, auto simp: later_ids_def Let_def)+

lemma later_ids_created: "later_ids s (snd (create_job_with_seeds e cfg ty params seeds s))"
proof -
  have loop: "keeps (later_ids s0) (insert_tasks_loop e c j ts)" for s0 c j ts
    by (induction ts) (auto intro!: keeps_intros later_ids_statements)
  have body: "keeps (later_ids s0) (create_job_body e cfg ty params seeds ex dl tx)" for s0 ex dl tx
    unfolding create_job_body_def insert_tasks_def by (auto intro!: keeps_intros later_ids_statements loop)
  have later: "keeps (later_seqs s0) (create_job_body e cfg ty params seeds ex dl tx)" for s0 ex dl tx
    unfolding create_job_body_def by (auto intro!: keeps_intros)
  have undo: "later_ids s0 (rollback s1 s2)" if "later_ids s0 s1" "later_seqs s1 s2" for s0 s1 s2
    using that by (auto simp: later_ids_def later_seqs_def rollback_def)
  have "later_ids s (snd (in_tx e (create_job_body e cfg ty params seeds ex dl) (s\<lparr>tick := n\<rparr>)))" for ex dl n
    by (rule in_tx_state) (auto simp: tick_free_def intro: undo later keepsD [OF body])
  then show ?thesis by (simp add: create_job_with_seeds_def read_clock_def Let_def)
qed

text \<open>What a request does to the tables: nothing, or one new job from a valid request, with its seeds.\<close>

definition adds_job :: "db \<Rightarrow> db \<Rightarrow> bool" where
  "adds_job s s' \<longleftrightarrow> (\<exists>jb new. jobs s' = jobs s @ [jb] \<and> tasks s' = tasks s @ new \<and> documents s' = documents s
     \<and> dedupe_cache s' = dedupe_cache s \<and> j_status jb = JobStatusQueued \<and> from_request (j_type jb, j_params jb)
     \<and> (\<forall>t \<in> set new. t_job t = j_id jb \<and> t_depth t = 0 \<and> t_status t = TaskStatusQueued \<and> t_attempts t = 0))"

lemma created_adds:
  fixes e cfg
  assumes "db_inv s" and "from_request (ty, params)" and "\<forall>x \<in> set seeds. seed_depth x = 0"
  defines "s' \<equiv> snd (create_job_with_seeds e cfg ty params seeds s)"
  shows "same_tables s s' \<or> adds_job s s'"
proof (cases "fst (create_job_with_seeds e cfg ty params seeds s)")
  case (Inl err)
  then have "create_job_with_seeds e cfg ty params seeds s = (Inl err, s')" unfolding s'_def by (simp add: prod_eq_iff)
  then show ?thesis using create_job_error by blast
next
  case (Inr jobID)
  then have c: "create_job_with_seeds e cfg ty params seeds s = (Ok jobID, s')" unfolding s'_def by (simp add: prod_eq_iff)
  obtain jb new where "jobs s' = jobs s @ [jb]" "tasks s' = tasks s @ new" "documents s' = documents s" "dedupe_cache s' = dedupe_cache s" "j_id jb = jobID"
      "j_status jb = JobStatusQueued" "j_type jb = ty" "j_params jb = params"
      "\<forall>t \<in> set new. \<exists>x \<in> set seeds. stored_as jobID (seed_task cfg x) t"
    using create_job_Ok [OF assms(1) c] by blast
  moreover have "t_job t = jobID \<and> t_depth t = 0 \<and> t_status t = TaskStatusQueued \<and> t_attempts t = 0"
    if "\<exists>x \<in> set seeds. stored_as jobID (seed_task cfg x) t" for t
    using that assms(3) by (auto simp: stored_as_def seed_task_def new_task_def)
  ultimately have "adds_job s s'" using assms(2) unfolding adds_job_def by (intro exI [of _ jb] exI [of _ new]) simp
  then show ?thesis ..
qed

lemma handler_effect:
  assumes "s' \<in> {snd (batch_handler e cfg p1 s), snd (crawl_handler e cfg p2 s), snd (map_handler e cfg p3 s)}" and "db_inv s"
  shows "db_inv s' \<and> later_ids s s' \<and> (same_tables s s' \<or> adds_job s s')"
proof -
  define fine where "fine u \<longleftrightarrow> db_inv u \<and> later_ids s u \<and> (same_tables s u \<or> adds_job s u)" for u
  have created: "fine (snd (create_job_with_seeds e cfg ty params seeds s))"
    if "from_request (ty, params)" "\<forall>x \<in> set seeds. seed_depth x = 0" for ty params seeds
    using created_adds [OF assms(2) that, of e cfg] later_ids_created keepsD [OF keeps_create_job assms(2)] by (simp add: fine_def)
  have same: "fine s" using assms(2) by (simp add: fine_def)
  have "fine (snd (batch_handler e cfg p1 s))"
    using same by (auto simp: batch_handler_def split_beta intro!: created from_request_kinds split: sum.splits)
  moreover have "fine (snd (crawl_handler e cfg p2 s))"
    using same by (auto simp: crawl_handler_def split_beta intro!: created from_request_kinds split: sum.splits)
  moreover have "fine (snd (map_handler e cfg p3 s))"
    using same by (auto simp: map_handler_def split_beta intro!: created from_request_kinds split: sum.splits)
  ultimately have "fine s'" using assms(1) by (elim insertE emptyE) simp_all
  then show ?thesis by (simp add: fine_def)
qed

text \<open>It also does so when its questions to the cache are answered at other moments.\<close>

lemma request_effect:
  assumes "serves e cfg dc p1 p2 p3 s s'" and "db_inv s"
  shows "db_inv s' \<and> later_ids s s' \<and> (same_tables s s' \<or> adds_job s s')"
proof -
  let ?s1 = "s\<lparr>dedupe_cache := dc\<rparr>"
  obtain s2 where s2: "s2 \<in> {snd (batch_handler e cfg p1 ?s1), snd (crawl_handler e cfg p2 ?s1), snd (map_handler e cfg p3 ?s1)}"
    and s': "s' = s2\<lparr>dedupe_cache := dedupe_cache s\<rparr>"
    using assms(1) unfolding serves_def Let_def by blast
  have "distinct (map fst dc)" using assms(1) unfolding serves_def by blast
  then have "db_inv ?s1" using assms(2) by (simp add: db_inv_defs)
  note r = handler_effect [OF s2 this]
  have "db_inv s'" using r assms(2) by (simp add: s' db_inv_defs)
  moreover have "later_ids s s'" using r by (simp add: s' later_ids_def later_seqs_def)
  moreover have "same_tables ?s1 s2 \<Longrightarrow> same_tables s s'" by (simp add: s' same_tables_def)
  moreover have "adds_job ?s1 s2 \<Longrightarrow> adds_job s s'" by (simp add: s' adds_job_def) blast
  ultimately show ?thesis using r by blast
qed

text \<open>In particular when nothing happens to the cache meanwhile.\<close>

lemma serves_now:
  assumes "s' \<in> {snd (batch_handler e cfg p1 s), snd (crawl_handler e cfg p2 s), snd (map_handler e cfg p3 s)}" and "db_inv s"
  shows "serves e cfg (dedupe_cache s) p1 p2 p3 s s'"
proof -
  have "same_tables s s' \<or> adds_job s s'" using handler_effect [OF assms] by blast
  then have s': "s' = s'\<lparr>dedupe_cache := dedupe_cache s\<rparr>" by (auto simp: same_tables_def adds_job_def)
  have d: "distinct (map fst (dedupe_cache s))" using assms(2) by (simp add: db_inv_defs)
  have "s\<lparr>dedupe_cache := dedupe_cache s\<rparr> = s" by simp
  then show ?thesis using assms(1) s' d unfolding serves_def Let_def by (metis (no_types, lifting))
qed

section \<open>Threads of the system\<close>

lemma abides_atom: "abides A G Q (Atom f) \<Longrightarrow> A s \<Longrightarrow> f s = (t, s') \<Longrightarrow> G s s' \<and> abides A G Q t"
  by auto

text \<open>The thread of the task keeps to the task's job, now and when more jobs are in the book.\<close>

abbreviation on_job :: "config \<Rightarrow> book \<Rightarrow> task \<Rightarrow> unit work \<Rightarrow> bool" where
  "on_job cfg D t \<equiv>
     abides (\<lambda>w. sound cfg D (w_db w)) (\<lambda>w w'. sound cfg D (w_db w') \<and> keeps_to_job (t_job t) (w_db w) (w_db w')) (\<lambda>_. True)"

definition obeys :: "config \<Rightarrow> book \<Rightarrow> task \<Rightarrow> unit work \<Rightarrow> bool" where
  "obeys cfg D t th \<longleftrightarrow> (\<forall>D'. D \<subseteq>\<^sub>m D' \<longrightarrow> on_job cfg D' t th)"

lemma obeys_handle: "obeys cfg D t (handle_thread e nt cfg t)"
  unfolding obeys_def using sharing.handle_follows [OF refl refl] by blast

lemma obeys_mono: "obeys cfg D t th \<Longrightarrow> D \<subseteq>\<^sub>m D' \<Longrightarrow> obeys cfg D' t th"
  unfolding obeys_def using map_le_trans by blast

lemma in_book_mono: "in_book D jb \<Longrightarrow> D \<subseteq>\<^sub>m D' \<Longrightarrow> in_book D' jb"
  by (simp add: in_book_def map_le_def) (metis domI)

lemma depth_in_mono: "depth_in D j k \<Longrightarrow> D \<subseteq>\<^sub>m D' \<Longrightarrow> depth_in D' j k"
  by (simp add: depth_in_def map_le_def) (metis domI)

lemma sound_mono: "sound cfg D s \<Longrightarrow> D \<subseteq>\<^sub>m D' \<Longrightarrow> sound cfg D' s"
  by (auto simp: sound_def rows_ok_def intro: in_book_mono depth_in_mono)

lemma obeys_step:
  assumes "obeys cfg D t (Atom f)" and "sound cfg D (w_db w)" and "f w = (th, w')"
  shows "obeys cfg D t th" and "sound cfg D (w_db w')" and "keeps_to_job (t_job t) (w_db w) (w_db w')"
proof -
  have step: "(sound cfg D' (w_db w') \<and> keeps_to_job (t_job t) (w_db w) (w_db w')) \<and> on_job cfg D' t th" if "D \<subseteq>\<^sub>m D'" for D'
    using abides_atom [OF assms(1) [unfolded obeys_def, rule_format, OF that] sound_mono [OF assms(2) that] assms(3)] by simp
  from step [OF map_le_refl] show "sound cfg D (w_db w')" "keeps_to_job (t_job t) (w_db w) (w_db w')" by simp_all
  from step show "obeys cfg D t th" by (simp add: obeys_def)
qed

text \<open>The stages of \<open>FinishJob\<close>; \<open>known\<close> is what the statements so far have seen.\<close>

definition finish_stage :: "(bool option \<Rightarrow> bool) \<Rightarrow> string \<Rightarrow> unit work \<Rightarrow> bool" where
  "finish_stage known j th \<longleftrightarrow> (\<exists>e. th = finish_thread e j \<or> (th = finish_failed_thread e j \<and> known None)
     \<or> (\<exists>failed. th = finish_status_thread e j failed \<and> known (Some failed))) \<or> (\<exists>r. th = Return r)"

lemma finish_stages [simp]: "finish_stage known j (finish_thread e j)" "finish_stage known j (Return r)"
  by (auto simp: finish_stage_def)

lemma finish_stage_mono: "finish_stage known j th \<Longrightarrow> (\<And>x. known x \<Longrightarrow> known' x) \<Longrightarrow> finish_stage known' j th"
  unfolding finish_stage_def by blast

lemma atom_of_query: "query f = Atom g \<Longrightarrow> g w = (Return (fst (f (w_db w))), w\<lparr>w_db := snd (f (w_db w))\<rparr>)"
  by (auto simp: query_def call_def on_db_def split: prod.splits)

lemma atom_of_attempt: "attempt (query f) k = Atom g \<Longrightarrow>
    g w = (case fst (f (w_db w)) of Inl err \<Rightarrow> Return (Inl err) | Inr x \<Rightarrow> k x, w\<lparr>w_db := snd (f (w_db w))\<rparr>)"
  by (auto simp: attempt_def query_def call_def on_db_def split: prod.splits)

text \<open>One statement of \<open>FinishJob\<close>.\<close>

lemma finish_step:
  assumes "finish_stage known j (Atom g)" and "g w = (th, w')"
  obtains (counts) e where "w_db w' = snd (pending_task_counts e j (w_db w))"
      "(\<exists>r. th = Return r) \<or> (th = finish_failed_thread e j \<and> (\<exists>a b. fst (pending_task_counts e j (w_db w)) = Ok (a, b) \<and> a + b \<le> 0))"
    | (failures) e where "known None" "w_db w' = snd (has_failed_tasks e j (w_db w))"
      "(\<exists>r. th = Return r) \<or> (\<exists>failed. th = finish_status_thread e j failed \<and> fst (has_failed_tasks e j (w_db w)) = Ok failed)"
    | (status) e failed r where "known (Some failed)" "th = Return r"
      "w_db w' = snd (update_job_status e j (if failed then JobStatusCompletedWithErrors else JobStatusCompleted) '''' (w_db w))"
proof -

  consider e where "finish_thread e j = Atom g" | e where "finish_failed_thread e j = Atom g" "known None"
    | e failed where "finish_status_thread e j failed = Atom g" "known (Some failed)"
    using assms(1) by (auto simp: finish_stage_def)
  then show ?thesis
  proof cases
    case (1 e)
    from atom_of_attempt [OF this [unfolded finish_thread_def], of w] show ?thesis
      using assms(2) by (intro counts [of e]) (auto split: sum.splits)
  next
    case (2 e)
    from atom_of_attempt [OF this(1) [unfolded finish_failed_thread_def], of w] show ?thesis
      using assms(2) 2(2) by (intro failures [of e]) (auto split: sum.splits)
  next
    case (3 e failed)
    from atom_of_query [OF this(1) [unfolded finish_status_thread_def], of w] show ?thesis
      using assms(2) 3(2) by (intro status [of failed _ e]) auto
  qed
qed

section \<open>The tables stay sound\<close>

interpretation sounds: worker_laws "sound cfg D" e cfg "depth_in D" for cfg D e
proof (rule worker_laws.intro)
  fix j i
  show "task_laws (sound cfg D) e cfg j i (depth_in D j)"
  proof -
    have "task_laws (rows_ok (in_book D) (\<lambda>t. depth_in D (t_job t) (t_depth t)) (row_fits cfg [])) e cfg j i (depth_in D j)"
      by (rule booked.per_task)
    from task_laws_conj [OF tables.per_task this] show ?thesis by (simp add: sound_def [abs_def])
  qed
qed (auto simp: sound_def [abs_def] intro!: keeps_conj tables.dequeues booked.dequeues tables.completes booked.completes
    tables.fails booked.fails tables.retries booked.retries tables.finishes booked.finishes)

lemma sound_exec:
  "(\<And>now s. sound cfg D s \<Longrightarrow> sound cfg D (snd (body now s))) \<Longrightarrow> sound cfg D s \<Longrightarrow> sound cfg D (snd (exec e c body s))"
  by (rule keepsD [OF keeps_exec]) (auto simp: tick_free_def sound_def keeps_def)

lemma sound_heartbeat: "sound cfg D s \<Longrightarrow> sound cfg D (snd (update_task_heartbeat e i s))"
proof -
  assume s: "sound cfg D s"
  have rows: "keeps (rows_ok P (\<lambda>t. depth_in D (t_job t) (t_depth t)) R) (update_task_heartbeat e i)" for P R
    unfolding update_task_heartbeat_def by (rule keeps_rows_exec) (auto simp: rows_ok_def update_task_def intro!: keepsI)
  show ?thesis using s keepsD [OF keeps_heartbeat, of s e i] keepsD [OF rows, of _ _ s] by (simp add: sound_def)
qed

lemma sound_cancel: "sound cfg D s \<Longrightarrow> sound cfg D (snd (cancel_expired e s))"
  unfolding cancel_expired_def
  by (rule sound_exec) (auto simp: sound_def rows_ok_def cancel_if_expired_def in_book_def intro!: db_inv_map_jobs)

lemma sound_delete: "sound cfg D s \<Longrightarrow> sound cfg D (snd (delete_expired e s))"
  unfolding delete_expired_def
  by (rule sound_exec) (auto simp: sound_def db_inv_delete_jobs, auto simp: rows_ok_def delete_jobs_def Let_def)

lemma book_of_job:
  assumes "distinct (map j_id js)" and "jb \<in> set js"
  shows "book_of js (j_id jb) = Some (j_type jb, j_params jb)"
  unfolding book_of_def by (rule map_of_is_SomeI) (use assms in \<open>auto simp: o_def\<close>)

lemma dom_book_of: "dom (book_of js) = j_id ` set js"
  by (auto simp: book_of_def dom_map_of_conv_image_fst image_image)

lemma ran_book_of: "tp \<in> ran (book_of js) \<Longrightarrow> \<exists>jb \<in> set js. tp = (j_type jb, j_params jb)"
  by (auto simp: book_of_def ran_def dest!: map_of_SomeD)

lemma book_grows:
  assumes "sound cfg D s" and "distinct (map j_id (jobs s'))" and "\<forall>jb \<in> set (jobs s') - set (jobs s). j_id jb \<notin> dom D"
  shows "D \<subseteq>\<^sub>m D ++ book_of (jobs s')"
proof (unfold map_le_def, rule ballI)
  fix i assume i: "i \<in> dom D"
  show "D i = (D ++ book_of (jobs s')) i"
  proof (cases "book_of (jobs s') i")
    case (Some tp)
    then obtain jb where jb: "jb \<in> set (jobs s')" "j_id jb = i" using dom_book_of [of "jobs s'"] by (metis domI imageE)
    then have "jb \<in> set (jobs s)" using assms(3) i by blast
    then have "D i = Some (j_type jb, j_params jb)" using assms(1) jb by (auto simp: sound_def rows_ok_def in_book_def)
    then show ?thesis using Some book_of_job [OF assms(2) jb(1)] jb(2) by simp
  qed (simp add: map_add_def)
qed

lemma sound_request:
  assumes "sound cfg D s" and "db_inv s'" and "same_tables s s' \<or> adds_job s s'"
    and "\<forall>jb \<in> set (jobs s') - set (jobs s). j_id jb \<notin> dom D"
  shows "sound cfg (D ++ book_of (jobs s')) s'"
proof -
  let ?D = "D ++ book_of (jobs s')"
  have ids: "distinct (map j_id (jobs s'))" using assms(2) by (simp add: db_inv_defs)
  note le = book_grows [OF assms(1) ids assms(4)]
  have in_new: "in_book ?D jb" if "jb \<in> set (jobs s')" for jb
    using book_of_job [OF ids that] by (simp add: in_book_def map_add_def)
  have old: "depth_in ?D (t_job t) (t_depth t)" if "t \<in> set (tasks s)" for t
    using assms(1) that depth_in_mono [OF _ le] by (auto simp: sound_def rows_ok_def)
  have "documents s' = documents s" using assms(3) by (auto simp: same_tables_def adds_job_def)
  moreover have "depth_in ?D (t_job t) (t_depth t)" if "t \<in> set (tasks s')" for t
  proof (cases "t \<in> set (tasks s)")
    case False
    then have "\<exists>jb \<in> set (jobs s'). t_job t = j_id jb \<and> t_depth t = 0"
      using assms(3) that by (auto simp: same_tables_def adds_job_def)
    then obtain jb where "jb \<in> set (jobs s')" "t_job t = j_id jb" "t_depth t = 0" by blast
    then show ?thesis using in_new [of jb] by (auto simp: in_book_def depth_in_def)
  qed (rule old)
  ultimately show ?thesis using assms(1,2) in_new by (auto simp: sound_def rows_ok_def)
qed

section \<open>Every reachable state\<close>

definition team_ok :: "config \<Rightarrow> team \<Rightarrow> bool" where
  "team_ok cfg y \<longleftrightarrow> sound cfg (tm_book y) (team_db y) \<and> (\<forall>tp \<in> ran (tm_book y). from_request tp) \<and>
     (\<forall>k t th. tm_work y k = Handling t th \<longrightarrow> obeys cfg (tm_book y) t th) \<and>
     (\<forall>k t th. tm_work y k = Finishing t th \<longrightarrow> finish_stage (\<lambda>_. True) (t_job t) th)"

lemma team_ok_puts:
  assumes "team_ok cfg y" and "sound cfg (tm_book y) (w_db w)"
    and "case x of Free \<Rightarrow> True | Handling t th \<Rightarrow> obeys cfg (tm_book y) t th | Finishing t th \<Rightarrow> finish_stage (\<lambda>_. True) (t_job t) th"
  shows "team_ok cfg (puts k x w y)"
  using assms by (auto simp: team_ok_def split: work_state.splits)

lemma team_ok_with_db: "team_ok cfg y \<Longrightarrow> sound cfg (tm_book y) s \<Longrightarrow> team_ok cfg (with_db s y)"
  by (simp add: team_ok_def)

lemma on_db_result: "on_db f w = (r, w') \<Longrightarrow> w_db w' = snd (f (w_db w))"
  using on_db_eq [of f w r w'] by simp

lemma finish_step_sound:
  assumes "finish_stage known j (Atom g)" and "g w = (th, w')" and "sound cfg D (w_db w)"
  shows "sound cfg D (w_db w')" and "finish_stage (\<lambda>_. True) j th"
proof -
  have reads: "sound cfg D (snd (exec e Pool (\<lambda>now s. (h now s, s)) (w_db w)))" for e and h :: "time \<Rightarrow> db \<Rightarrow> 'x res"
    by (rule sound_exec [OF _ assms(3)]) simp
  have status: "sound cfg D (snd (update_job_status e j st msg (w_db w)))" for e st msg
    unfolding update_job_status_def
    by (rule sound_exec [OF _ assms(3)])
      (auto simp: sound_def update_job_def rows_ok_def in_book_def intro!: db_inv_map_jobs)
  have "sound cfg D (w_db w') \<and> finish_stage (\<lambda>_. True) j th"
    using assms(1,2)
    by (cases rule: finish_step)
      (auto simp: reads [folded pending_task_counts_def] reads [folded has_failed_tasks_def] status finish_stage_def
        pending_task_counts_def has_failed_tasks_def)
  then show "sound cfg D (w_db w')" "finish_stage (\<lambda>_. True) j th" by simp_all
qed

lemma team_ok_step:
  assumes "team_step cfg timely y y'" and "team_ok cfg y"
  shows "team_ok cfg y'"
proof -
  have sound: "sound cfg (tm_book y) (team_db y)" using assms(2) by (simp add: team_ok_def)
  note puts = team_ok_puts [OF assms(2)] and with_db = team_ok_with_db [OF assms(2)]
  from assms(1) show ?thesis
  proof (cases rule: team_step_cases)
    case (claim k e t w nt)
    then have "sound cfg (tm_book y) (w_db w)" using keepsD [OF sounds.dequeues sound] on_db_result [OF claim(4)] by simp
    then show ?thesis unfolding claim(1) by (intro puts) (simp_all add: obeys_handle)
  next
    case (no_claim k e err w)
    then show ?thesis using keepsD [OF sounds.dequeues sound] on_db_result [OF no_claim(3)] by (auto intro: puts)
  next
    case (work k t f th w)
    then have "obeys cfg (tm_book y) t (Atom f)" using assms(2) by (simp add: team_ok_def)
    from obeys_step [OF this sound work(3)] show ?thesis unfolding work(1) by (intro puts) simp_all
  next
    case (settle k t r e nt x w)
    have "sound cfg (tm_book y) (w_db w)" using sounds.settle_keeps [OF sound, where e = e and nt = nt and t = t and r = r] settle(3) by simp
    then show ?thesis unfolding settle(1) by (intro puts) simp_all
  next
    case (finish k t f th w)
    then have "finish_stage (\<lambda>_. True) (t_job t) (Atom f)" using assms(2) by (simp add: team_ok_def)
    from finish_step_sound [OF this finish(3) sound] show ?thesis unfolding finish(1) by (intro puts) simp_all
  next
    case (request e dc p1 p2 p3 s)
    have inv: "db_inv (team_db y)" using sound by (simp add: sound_def)
    note r = request_effect [OF request(2) inv]
    let ?D = "tm_book y ++ book_of (jobs s)"
    have s: "sound cfg ?D s" using sound_request [OF sound _ _ request(3)] r by blast
    have le: "tm_book y \<subseteq>\<^sub>m ?D" using book_grows [OF sound _ request(3)] r by (auto simp: db_inv_defs)
    have "from_request (j_type jb, j_params jb)" if "jb \<in> set (jobs s)" for jb
    proof (cases "jb \<in> set (jobs (team_db y))")
      case True
      then have "(j_type jb, j_params jb) \<in> ran (tm_book y)" using sound by (auto simp: sound_def rows_ok_def in_book_def ranI)
      then show ?thesis using assms(2) by (simp add: team_ok_def)
    next
      case False
      then show ?thesis using r that by (auto simp: same_tables_def adds_job_def)
    qed
    moreover have "ran ?D \<subseteq> ran (tm_book y) \<union> ran (book_of (jobs s))" by (auto simp: ran_def map_add_def split: option.splits)
    ultimately have "\<forall>tp \<in> ran ?D. from_request tp" using assms(2) ran_book_of unfolding team_ok_def by blast
    then show ?thesis unfolding request(1) using s assms(2) obeys_mono [OF _ le] by (auto simp: team_ok_def)
  next
    case robots
    then show ?thesis using assms(2) by (simp add: team_ok_def)
  qed (auto intro: puts with_db simp: sound ignoring_def sound_heartbeat sound_cancel sound_delete)
qed

lemma team_ok_reachable: "team_reachable cfg timely y \<Longrightarrow> team_ok cfg y"
proof (induction rule: team_reachable.induct)
  case start
  show ?case by (simp add: team_ok_def team_start_def sound_def db_inv_empty) (simp add: empty_db_def rows_ok_def)
next
  case (step y y')
  then show ?case using team_ok_step by blast
qed

text \<open>C4: Whatever the workers, their heartbeats, the interface and the cleanup do, statement by statement, in any order, with
  any failures and with workers dying anywhere: the tables stay consistent, no task lies deeper than its job asked
  for, and no stored document exceeds \<open>max_bytes\<close>.\<close>

theorem team_is_safe:
  assumes "team_reachable cfg timely y"
  shows "db_inv (team_db y) \<and> depths_ok (team_db y) \<and>
    (\<forall>d \<in> set (documents (team_db y)). doc_fits cfg (document.truncate d))"
proof -
  have s: "sound cfg (tm_book y) (team_db y)" using team_ok_reachable [OF assms] by (simp add: team_ok_def)
  then have "depths_ok (team_db y)"
    by (auto simp: sound_def rows_ok_def in_book_def depth_in_def depths_ok_def job_depth_def) fastforce
  then show ?thesis using s by (auto simp: sound_def rows_ok_def row_fits_def)
qed

end
