(* ===== verification/TeamLeases.thy ===== *)
theory TeamLeases
  imports TeamSafety
begin

text \<open>
  What leases give when heartbeats arrive in time: a task is in the hands of one worker, and the verdict on a finished
  job is the truth about its tasks, whatever the other workers do between the statements of \<open>FinishJob\<close>.  The proof
  looks at the tables through the keys of the task rows: id, job and phase.
\<close>

section \<open>Rows and their phases\<close>

definition keys :: "db \<Rightarrow> (int \<times> string \<times> phase) set" where
  "keys s = row_key ` set (tasks s)"

definition pending :: "phase \<Rightarrow> bool" where
  "pending p \<longleftrightarrow> (case p of Waiting _ \<Rightarrow> True | InWork _ \<Rightarrow> True | _ \<Rightarrow> False)"

definition settled :: "string \<Rightarrow> db \<Rightarrow> bool" where
  "settled j s \<longleftrightarrow> (\<forall>(i, j', p) \<in> keys s. j' = j \<longrightarrow> \<not> pending p)"

definition some_failed :: "string \<Rightarrow> db \<Rightarrow> bool" where
  "some_failed j s \<longleftrightarrow> (\<exists>i a. (i, j, GivenUp a) \<in> keys s)"

definition work_key :: "task \<Rightarrow> int \<times> string \<times> phase" where
  "work_key t = (t_id t, t_job t, InWork (t_attempts t))"

text \<open>The row of a task in work is as the worker knows it, unless the job is gone.\<close>

definition held :: "db \<Rightarrow> task \<Rightarrow> bool" where
  "held s t \<longleftrightarrow> t_id t \<le> task_seq s \<and> (\<forall>k \<in> keys s. fst k = t_id t \<longrightarrow> k = work_key t)
     \<and> (job_exists (t_job t) s \<longrightarrow> work_key t \<in> keys s)"

text \<open>
  A step that moves only rows with ids in \<open>X\<close>, creates rows only with new ids, both only for jobs with pending tasks
  or for new ones, and creates no job with the id of an old one.
\<close>

definition frame :: "book \<Rightarrow> int set \<Rightarrow> db \<Rightarrow> db \<Rightarrow> bool" where
  "frame D X s s' \<longleftrightarrow> task_seq s \<le> task_seq s'
     \<and> (\<forall>(i, j, p) \<in> keys s - keys s'. job_exists j s' \<longrightarrow> i \<in> X \<and> \<not> settled j s)
     \<and> (\<forall>(i, j, p) \<in> keys s' - keys s. (task_seq s < i \<or> i \<in> X) \<and> (\<not> settled j s \<or> j \<notin> dom D))
     \<and> (\<forall>j \<in> dom D. job_exists j s' \<longrightarrow> job_exists j s)"

lemma frameD:
  assumes "frame D X s s'"
  shows "task_seq s \<le> task_seq s'"
    and "(i, j, p) \<in> keys s \<Longrightarrow> job_exists j s' \<Longrightarrow> (i, j, p) \<in> keys s' \<or> (i \<in> X \<and> \<not> settled j s)"
    and "(i, j, p) \<in> keys s' \<Longrightarrow> (i, j, p) \<in> keys s \<or> ((task_seq s < i \<or> i \<in> X) \<and> (\<not> settled j s \<or> j \<notin> dom D))"
    and "j \<in> dom D \<Longrightarrow> job_exists j s' \<Longrightarrow> job_exists j s"
  using assms unfolding frame_def by blast+

lemma held_frame:
  assumes f: "frame D X s s'" and h: "held s t" and "t_job t \<in> dom D" and "t_id t \<notin> X"
  shows "held s' t"
  unfolding held_def
proof (intro conjI ballI impI)
  show "t_id t \<le> task_seq s'" using frameD(1) [OF f] h by (simp add: held_def)
  show "k = work_key t" if "k \<in> keys s'" "fst k = t_id t" for k
  proof -
    obtain i j p where k: "k = (i, j, p)" by (cases k)
    then have "k \<in> keys s" using frameD(3) [OF f, of i j p] that h assms(4) by (auto simp: held_def)
    then show ?thesis using h that(2) by (simp add: held_def)
  qed
  show "work_key t \<in> keys s'" if "job_exists (t_job t) s'"
    using frameD(4) [OF f assms(3) that] frameD(2) [OF f _ that] h assms(4) by (auto simp: held_def work_key_def)
qed

lemma settledD: "settled j s \<Longrightarrow> (i, j, p) \<in> keys s \<Longrightarrow> \<not> pending p"
  unfolding settled_def by blast

lemma settled_frame:
  assumes "frame D X s s'" and "settled j s" and "j \<in> dom D"
  shows "settled j s'"
proof -
  have "\<not> pending p" if "(i, j, p) \<in> keys s'" for i p
    using frameD(3) [OF assms(1) that] settledD [OF assms(2)] assms(2,3) by blast
  then show ?thesis unfolding settled_def by blast
qed

lemma failed_frame:
  assumes "frame D X s s'" and "settled j s" and "j \<in> dom D" and "job_exists j s'"
  shows "some_failed j s' = some_failed j s"
  unfolding some_failed_def using frameD(2,3) [OF assms(1)] assms(2-4) by blast

text \<open>What \<open>FinishJob\<close> knows after its count, and after its look for failures.\<close>

definition known :: "db \<Rightarrow> string \<Rightarrow> bool option \<Rightarrow> bool" where
  "known s j x \<longleftrightarrow> settled j s \<and> (case x of None \<Rightarrow> True | Some failed \<Rightarrow> job_exists j s \<longrightarrow> failed = some_failed j s)"

lemma known_frame: "frame D X s s' \<Longrightarrow> known s j x \<Longrightarrow> j \<in> dom D \<Longrightarrow> known s' j x"
  using settled_frame [of D X s s' j] failed_frame [of D X s s' j]
  by (auto simp: known_def frame_def split: option.splits)

text \<open>A finished job has no pending task, and has failed tasks exactly if its status says so.\<close>

definition verdict_ok :: "db \<Rightarrow> job_status \<Rightarrow> string \<Rightarrow> bool" where
  "verdict_ok s st j \<longleftrightarrow> (st = JobStatusCompleted \<longrightarrow> settled j s \<and> \<not> some_failed j s)
     \<and> (st = JobStatusCompletedWithErrors \<longrightarrow> settled j s \<and> some_failed j s)"

definition verdicts :: "db \<Rightarrow> bool" where
  "verdicts s \<longleftrightarrow> (\<forall>jb \<in> set (jobs s). verdict_ok s (j_status jb) (j_id jb))"

text \<open>A verdict in \<open>s'\<close> was already there in \<open>s\<close>.\<close>

definition no_new_verdict :: "db \<Rightarrow> db \<Rightarrow> bool" where
  "no_new_verdict s s' \<longleftrightarrow> (\<forall>jb \<in> set (jobs s'). j_status jb \<in> {JobStatusCompleted, JobStatusCompletedWithErrors} \<longrightarrow>
     (\<exists>jb0 \<in> set (jobs s). j_id jb0 = j_id jb \<and> j_status jb0 = j_status jb))"

lemma verdicts_frame:
  assumes "frame D X s s'" and "no_new_verdict s s'" and "verdicts s" and "j_id ` set (jobs s) \<subseteq> dom D"
  shows "verdicts s'"
  unfolding verdicts_def
proof
  fix jb assume jb: "jb \<in> set (jobs s')"
  show "verdict_ok s' (j_status jb) (j_id jb)"
  proof (cases "j_status jb \<in> {JobStatusCompleted, JobStatusCompletedWithErrors}")
    case True
    then obtain jb0 where "jb0 \<in> set (jobs s)" "j_id jb0 = j_id jb" "j_status jb0 = j_status jb"
      using assms(2) jb unfolding no_new_verdict_def by blast
    then have "verdict_ok s (j_status jb) (j_id jb)" "j_id jb \<in> dom D" using assms(3,4) by (auto simp: verdicts_def)
    moreover have "job_exists (j_id jb) s'" using jb by (simp add: job_exists_def)
    ultimately show ?thesis
      using settled_frame [OF assms(1)] failed_frame [OF assms(1)] unfolding verdict_ok_def by blast
  qed (simp add: verdict_ok_def)
qed

section \<open>The invariant of leases in time\<close>

definition worker_ok :: "book \<Rightarrow> db \<Rightarrow> work_state \<Rightarrow> bool" where
  "worker_ok D s x \<longleftrightarrow> (case x of
       Free \<Rightarrow> True
     | Handling t th \<Rightarrow> held s t \<and> t_job t \<in> dom D
     | Finishing t th \<Rightarrow> finish_stage (known s (t_job t)) (t_job t) th \<and> t_job t \<in> dom D)"

definition at_work :: "work_state \<Rightarrow> int set" where
  "at_work x = (case x of Handling t th \<Rightarrow> {t_id t} | _ \<Rightarrow> {})"

lemma at_work_simps [simp]: "at_work Free = {}" "at_work (Handling t th) = {t_id t}" "at_work (Finishing t th) = {}"
  by (simp_all add: at_work_def)

definition leased :: "book \<Rightarrow> db \<Rightarrow> (nat \<Rightarrow> work_state) \<Rightarrow> bool" where
  "leased D s W \<longleftrightarrow> (\<forall>k. worker_ok D s (W k)) \<and> (\<forall>k k'. k \<noteq> k' \<longrightarrow> at_work (W k) \<inter> at_work (W k') = {}) \<and> verdicts s"

lemma worker_ok_frame:
  assumes "frame D X s s'" and "worker_ok D s x" and "at_work x \<inter> X = {}"
  shows "worker_ok D s' x"
proof (cases x)
  case (Finishing t th)
  then have "finish_stage (known s (t_job t)) (t_job t) th" "t_job t \<in> dom D" using assms(2) by (simp_all add: worker_ok_def)
  then show ?thesis using finish_stage_mono [OF _ known_frame [OF assms(1)]] by (simp add: Finishing worker_ok_def)
qed (use assms(2,3) held_frame [OF assms(1)] in \<open>simp_all add: worker_ok_def at_work_def\<close>)

lemma leased_frame_verdicts:
  assumes "leased D s W" and "frame D X s s'" and "\<And>k. at_work (W k) \<inter> X = {}" and "verdicts s'"
  shows "leased D s' W"
  using assms(1,3,4) worker_ok_frame [OF assms(2)] by (simp add: leased_def)

lemma leased_frame:
  assumes "leased D s W" and "frame D X s s'" and "\<And>k. at_work (W k) \<inter> X = {}" and "no_new_verdict s s'"
    and "j_id ` set (jobs s) \<subseteq> dom D"
  shows "leased D s' W"
  using leased_frame_verdicts [OF assms(1-3) verdicts_frame [OF assms(2,4) _ assms(5)]] assms(1) by (simp add: leased_def)

lemma leased_free: "leased D s W \<Longrightarrow> leased D s (W(k := Free))"
  by (auto simp: leased_def worker_ok_def at_work_def)

lemma leased_book: "leased D s W \<Longrightarrow> D \<subseteq>\<^sub>m D' \<Longrightarrow> leased D' s W"
proof -
  assume "leased D s W" and "D \<subseteq>\<^sub>m D'"
  moreover have "worker_ok D' s x" if "worker_ok D s x" for x
    using that subsetD [OF map_le_implies_dom_le [OF \<open>D \<subseteq>\<^sub>m D'\<close>]] by (cases x) (simp_all add: worker_ok_def)
  ultimately show ?thesis by (simp add: leased_def)
qed

lemma leased_put:
  assumes "leased D s (W(k := Free))" and "worker_ok D s x" and "\<And>k'. k' \<noteq> k \<Longrightarrow> at_work (W k') \<inter> at_work x = {}"
  shows "leased D s (W(k := x))"
  unfolding leased_def
proof (intro conjI allI impI)
  show "worker_ok D s ((W(k := x)) i)" for i
    using assms(1,2) by (cases "i = k") (auto simp: leased_def dest: spec [of _ i])
  show "at_work ((W(k := x)) i) \<inter> at_work ((W(k := x)) i') = {}" if "i \<noteq> i'" for i i'
  proof -
    have "at_work ((W(k := Free)) i) \<inter> at_work ((W(k := Free)) i') = {}" using assms(1) that unfolding leased_def by blast
    then show ?thesis using assms(3) [of i] assms(3) [of i'] that by (cases "i = k"; cases "i' = k") auto
  qed
qed (use assms(1) in \<open>simp add: leased_def\<close>)

section \<open>Each step has its frame\<close>

lemma keys_same: "map row_key (tasks s') = map row_key (tasks s) \<Longrightarrow> keys s' = keys s"
  unfolding keys_def by (metis set_map)

lemma frame_calm: "keys s' = keys s \<Longrightarrow> task_seq s \<le> task_seq s' \<Longrightarrow> map j_id (jobs s') = map j_id (jobs s) \<Longrightarrow> frame D X s s'"
  by (simp add: frame_def job_exists_def)

lemma frame_same_tables: "same_tables s s' \<Longrightarrow> task_seq s \<le> task_seq s' \<Longrightarrow> frame D X s s'"
  by (rule frame_calm) (simp_all add: same_tables_def keys_def)

lemma held_pending: "held s t \<Longrightarrow> job_exists (t_job t) s \<Longrightarrow> \<not> settled (t_job t) s"
  using settledD by (fastforce simp: held_def work_key_def pending_def)

text \<open>A step of the thread of a task.\<close>

lemma frame_work:
  assumes "keeps_to_job (t_job t) s s'" and "held s t"
  shows "frame D {} s s'" and "no_new_verdict s s'"
proof -
  obtain new where new: "map row_key (tasks s') = map row_key (tasks s) @ new"
      "\<forall>k \<in> set new. task_seq s < fst k \<and> fst k \<le> task_seq s' \<and> snd k = (t_job t, Waiting 0) \<and> job_exists (t_job t) s"
    using assms(1) unfolding keeps_to_job_def by blast
  have keys: "keys s' = keys s \<union> set new" unfolding keys_def by (metis new(1) set_append set_map)
  have ids: "job_exists j s' = job_exists j s" for j using assms(1) by (simp add: keeps_to_job_def job_exists_def)
  have "task_seq s \<le> task_seq s'" using assms(1) by (simp add: keeps_to_job_def)
  moreover have "(task_seq s < i \<or> i \<in> {}) \<and> (\<not> settled j s \<or> j \<notin> dom D)" if "(i, j, p) \<in> keys s' - keys s" for i j p
    using that new(2) held_pending [OF assms(2)] by (auto simp: keys)
  ultimately show "frame D {} s s'" unfolding frame_def by (simp add: keys ids split: prod.splits) blast
  show "no_new_verdict s s'" using assms(1) unfolding keeps_to_job_def no_new_verdict_def by fastforce
qed

lemma keys_simps [simp]: "keys (s\<lparr>tick := n\<rparr>) = keys s" "keys (s\<lparr>jobs := js\<rparr>) = keys s" "keys (update_job j f s) = keys s"
  by (simp_all add: keys_def update_job_def)

lemma settled_tick [simp]: "settled j (s\<lparr>tick := n\<rparr>) = settled j s"
  by (simp add: settled_def)

lemma frame_ticks [simp]: "frame D X (s\<lparr>tick := n\<rparr>) s' = frame D X s s'" "frame D X s (s'\<lparr>tick := n\<rparr>) = frame D X s s'"
  by (simp_all add: frame_def)

text \<open>One row moves: \<open>g\<close> changes the phase of the row of \<open>t0\<close>, which is in the table and pending.\<close>

lemma one_row_keys:
  assumes "db_inv s" and "t0 \<in> set (tasks s)"
  shows "keys (update_task (t_id t0) g s) = keys s - {row_key t0} \<union> {row_key (g t0)}"
proof -
  have uniq: "t = t0" if "t \<in> set (tasks s)" "t_id t = t_id t0" for t using one_task [OF assms(1) that(1) assms(2) that(2)] .
  have "keys (update_task (t_id t0) g s) = (\<lambda>t. row_key (if t_id t = t_id t0 then g t else t)) ` set (tasks s)"
    by (simp add: keys_def update_task_def image_image del: if_image_distrib)
  also have "\<dots> = row_key ` (set (tasks s) - {t0}) \<union> {row_key (g t0)}" using assms(2) uniq by force
  also have "row_key ` (set (tasks s) - {t0}) = keys s - {row_key t0}"
    using uniq by (force simp: keys_def row_key_def)
  finally show ?thesis .
qed

lemma frame_one_row:
  assumes "db_inv s" and "t0 \<in> set (tasks s)" and "pending (phase_of t0)"
    and "t_id (g t0) = t_id t0" and "t_job (g t0) = t_job t0"
  shows "frame D {t_id t0} s (update_task (t_id t0) g s)"
proof -
  have "row_key t0 \<in> keys s" using assms(2) by (simp add: keys_def)
  then have busy: "\<not> settled (t_job t0) s" using settledD [of "t_job t0" s "t_id t0" "phase_of t0"] assms(3) by (auto simp: row_key_def)
  have ids: "job_exists j (update_task (t_id t0) g s) = job_exists j s" for j by (simp add: update_task_def)
  have seq: "task_seq (update_task (t_id t0) g s) = task_seq s" by (simp add: update_task_def)
  show ?thesis unfolding frame_def one_row_keys [OF assms(1,2)] ids seq
    using busy by (auto simp: row_key_def assms(4,5))
qed

lemma no_new_verdict_same: "jobs s' = jobs s \<Longrightarrow> no_new_verdict s s'"
  by (auto simp: no_new_verdict_def)

text \<open>The claim: the new holder holds its task, and with the leases of the others alive nobody else does.\<close>

lemma frame_claim:
  assumes "dequeue_task e lease s = (Ok t, s')" and "db_inv s"
  obtains t0 where "t0 \<in> set (tasks s)" "t_id t0 = t_id t" "t_job t = t_job t0" "claimable (go_now e (tick s) - lease) t0"
    "frame D {t_id t} s s'" "jobs s' = jobs s" "held s' t"
proof -
  define now where "now = pg_now e (Suc (tick s))"
  obtain t0 where t0: "t0 \<in> set (tasks s)" "t = claim now t0" "claimable (go_now e (tick s) - lease) t0"
    and s': "s' = update_task (t_id t0) (claim now) (s\<lparr>tick := tick s + 2\<rparr>)"
    using dequeue_Ok [OF assms(1)] unfolding now_def by blast
  let ?s = "s\<lparr>tick := tick s + 2\<rparr>"
  have inv: "db_inv ?s" and mem: "t0 \<in> set (tasks ?s)" using assms(2) t0(1) by simp_all
  have p: "pending (phase_of t0)" using t0(3) by (auto simp: claimable_def pending_def phase_of_def)
  have "frame D {t_id t0} ?s s'" unfolding s' by (rule frame_one_row [OF inv mem p]) (simp_all add: claim_def)
  moreover have "held s' t"
  proof -
    have keys: "keys s' = keys s - {row_key t0} \<union> {row_key t}" using one_row_keys [OF inv mem, of "claim now"] by (simp add: s' t0(2))
    have key: "row_key t = work_key t" by (simp add: t0(2) claim_def row_key_def phase_of_def work_key_def)
    have "k = row_key t0" if "k \<in> keys s" "fst k = t_id t" for k
    proof -
      obtain u where u: "u \<in> set (tasks s)" "k = row_key u" using \<open>k \<in> keys s\<close> by (auto simp: keys_def)
      then have "t_id u = t_id t0" using that(2) by (simp add: row_key_def t0(2) claim_def)
      then show ?thesis using one_task [OF assms(2) u(1) t0(1)] u(2) by simp
    qed
    moreover have "t_id t \<le> task_seq s'" using assms(2) t0(1) by (auto simp: s' update_task_def t0(2) claim_def db_inv_defs serial_ok_def)
    ultimately show ?thesis unfolding held_def keys key by auto
  qed
  ultimately show thesis using t0 by (intro that [of t0]) (simp_all add: claim_def s' update_task_def)
qed

lemma no_claim_same: "dequeue_task e lease s = (Inl err, s') \<Longrightarrow> \<exists>n. s' = s\<lparr>tick := n\<rparr>"
  by (auto simp: dequeue_task_def read_clock_def exec_def Let_def split: option.splits list.splits)

text \<open>The statement for the outcome.\<close>

lemma frame_settle:
  assumes "db_inv (w_db w)" and "held (w_db w) t"
  shows "frame D {t_id t} (w_db w) (w_db (snd (settle_task e nt cfg t r w))) \<and> jobs (w_db (snd (settle_task e nt cfg t r w))) = jobs (w_db w)"
proof -
  let ?s = "w_db w"
  have upd: "frame D {t_id t} ?s (update_task (t_id t) g ?s)" if g: "\<And>u. t_id (g u) = t_id u" "\<And>u. t_job (g u) = t_job u" for g
  proof (cases "\<exists>t0 \<in> set (tasks ?s). t_id t0 = t_id t")
    case True
    then obtain t0 where t0: "t0 \<in> set (tasks ?s)" "t_id t0 = t_id t" by blast
    then have "row_key t0 = work_key t" using assms(2) by (auto simp: held_def keys_def row_key_def)
    then have "pending (phase_of t0)" by (simp add: row_key_def work_key_def pending_def)
    from frame_one_row [OF assms(1) t0(1) this, of g] show ?thesis using t0(2) g by simp
  next
    case False
    then have "update_task (t_id t) g ?s = ?s\<lparr>tasks := tasks ?s\<rparr>" unfolding update_task_def by (intro arg_cong [where f = "\<lambda>ts. ?s\<lparr>tasks := ts\<rparr>"] map_idI) auto
    then show ?thesis by (simp add: frame_calm)
  qed
  have stmt: "frame D {t_id t} ?s (w_db (ignoring (on_db (exec e Pool (\<lambda>now s. (Ok (), update_task (t_id t) (g now) s)))) w))
      \<and> jobs (w_db (ignoring (on_db (exec e Pool (\<lambda>now s. (Ok (), update_task (t_id t) (g now) s)))) w)) = jobs ?s"
    if "\<And>now u. t_id (g now u) = t_id u" "\<And>now u. t_job (g now u) = t_job u" for g
  proof -
    have "update_task (t_id t) f (?s\<lparr>tick := n\<rparr>) = (update_task (t_id t) f ?s)\<lparr>tick := n\<rparr>" for f n by (simp add: update_task_def)
    moreover have "frame D {t_id t} ?s ?s" by (simp add: frame_calm)
    ultimately show ?thesis using upd [of "g now" for now] that
      by (auto simp: ignoring_def on_db_snd exec_def Let_def split: option.splits) (simp_all add: update_task_def)
  qed
  show ?thesis
    by (cases r) (simp_all add: settle_task_def Let_def complete_task_def fail_task_def retry_task_def stmt)
qed

text \<open>The statements of \<open>FinishJob\<close>: what the worker knows of the job stays true, and its verdict is the truth.\<close>

lemma exec_read: "snd (exec e c (\<lambda>now s. (f now s, s)) s) = s\<lparr>tick := Suc (tick s)\<rparr>"
  by (simp add: exec_def Let_def split: option.splits)

lemma count_zero: "count_tasks j P s = 0 \<longleftrightarrow> (\<forall>t \<in> set (tasks s). t_job t = j \<longrightarrow> \<not> P t)"
  by (auto simp: count_tasks_def filter_empty_conv)

lemma settled_iff: "settled j s \<longleftrightarrow>
    (\<forall>t \<in> set (tasks s). t_job t = j \<longrightarrow> t_status t \<notin> {TaskStatusQueued, TaskStatusProcessing})"
  by (auto simp: settled_def keys_def row_key_def pending_def phase_of_def split: task_status.splits phase.splits)

lemma some_failed_iff: "some_failed j s \<longleftrightarrow> (\<exists>t \<in> set (tasks s). t_job t = j \<and> t_status t = TaskStatusFailed)"
proof -
  have "GivenUp a = phase_of t \<longleftrightarrow> t_status t = TaskStatusFailed \<and> t_attempts t = a" for t a
    by (auto simp: phase_of_def split: task_status.splits)
  then have "some_failed j s \<longleftrightarrow> (\<exists>i a. \<exists>t \<in> set (tasks s). i = t_id t \<and> j = t_job t \<and> t_status t = TaskStatusFailed \<and> t_attempts t = a)"
    by (simp add: some_failed_def keys_def row_key_def image_iff)
  then show ?thesis by auto
qed

lemma known_of_counts:
  assumes "fst (pending_task_counts e j s) = Ok (a, b)" and "a + b \<le> 0"
  shows "known s j None"
proof -
  have "a = count_tasks j (\<lambda>t. t_status t = TaskStatusQueued) s" "b = count_tasks j (\<lambda>t. t_status t = TaskStatusProcessing) s"
    using assms(1) by (auto simp: pending_task_counts_def exec_def Let_def count_tasks_def split: option.splits)
  moreover have "0 \<le> count_tasks j P s" for P by (simp add: count_tasks_def)
  ultimately have "count_tasks j (\<lambda>t. t_status t = TaskStatusQueued) s = 0" "count_tasks j (\<lambda>t. t_status t = TaskStatusProcessing) s = 0"
    using assms(2) by (smt (verit))+
  then show ?thesis by (auto simp: known_def settled_iff count_zero)
qed

lemma known_of_failures:
  assumes "fst (has_failed_tasks e j s) = Ok failed" and "known s j None"
  shows "known s j (Some failed)"
proof -
  have "failed = (count_tasks j (\<lambda>t. t_status t = TaskStatusFailed) s > 0)"
    using assms(1) by (auto simp: has_failed_tasks_def exec_def Let_def count_tasks_def split: option.splits)
  also have "\<dots> = (count_tasks j (\<lambda>t. t_status t = TaskStatusFailed) s \<noteq> 0)" by (auto simp: count_tasks_def)
  finally show ?thesis using assms(2) by (auto simp: known_def some_failed_iff count_zero)
qed

lemma known_tick [simp]: "known (s\<lparr>tick := n\<rparr>) j x = known s j x"
  by (simp add: known_def some_failed_def split: option.splits)

lemma verdicts_status:
  assumes "verdicts s" and "known s j (Some failed)"
  shows "verdicts (snd (update_job_status e j (if failed then JobStatusCompletedWithErrors else JobStatusCompleted) msg s))"
    (is "verdicts (snd (update_job_status e j ?st msg s))")
proof -
  have "verdicts (update_job j (\<lambda>jb. jb\<lparr>j_status := ?st, j_error := nullif_empty msg, j_updated_at := now\<rparr>) s)" (is "verdicts ?s'") for now
  proof -
    have same: "settled i ?s' = settled i s" "some_failed i ?s' = some_failed i s" for i
      by (simp_all add: settled_def some_failed_def)
    have "verdict_ok s ?st j" if "job_exists j s" using assms(2) that by (simp add: known_def verdict_ok_def)
    then have "verdict_ok s (j_status jb) (j_id jb)" if "jb \<in> set (jobs ?s')" for jb
      using that assms(1) by (auto simp: verdicts_def update_job_def job_exists_def split: if_splits)
    then show ?thesis by (simp add: verdicts_def verdict_ok_def same)
  qed
  note upd = this
  have "verdicts (s\<lparr>tick := n\<rparr>) = verdicts s" for n by (simp add: verdicts_def verdict_ok_def settled_def some_failed_def)
  moreover have "update_job j f (s\<lparr>tick := n\<rparr>) = (update_job j f s)\<lparr>tick := n\<rparr>" for f n by (simp add: update_job_def)
  moreover have "verdicts (u\<lparr>tick := n\<rparr>) = verdicts u" for n u by (simp add: verdicts_def verdict_ok_def settled_def some_failed_def)
  ultimately show ?thesis using upd [of "stmt_now Pool (pg_now e (tick s))"] assms(1)
    by (cases failed) (simp_all add: update_job_status_def exec_def Let_def split: option.splits)
qed

lemma finish_step_leased:
  assumes "finish_stage (known (w_db w) j) j (Atom g)" and "g w = (th, w')" and "verdicts (w_db w)"
  shows "frame D {} (w_db w) (w_db w')" and "verdicts (w_db w')" and "finish_stage (known (w_db w') j) j th"
proof -
  let ?s = "w_db w"
  have calm: "frame D {} ?s ?s" by (simp add: frame_calm)
  have ver: "verdicts (?s\<lparr>tick := n\<rparr>)" for n using assms(3) by (simp add: verdicts_def verdict_ok_def settled_def some_failed_def)
  have "frame D {} ?s (w_db w') \<and> verdicts (w_db w') \<and> finish_stage (known (w_db w') j) j th"
    using assms(1,2)
  proof (cases rule: finish_step)
    case (counts e)
    then show ?thesis using calm ver known_of_counts [of e j ?s]
      by (auto simp: pending_task_counts_def exec_read) (auto simp: finish_stage_def)
  next
    case (failures e)
    then show ?thesis using calm ver known_of_failures [of e j ?s]
      by (auto simp: has_failed_tasks_def exec_read) (auto simp: finish_stage_def)
  next
    case (status e failed r)
    have "frame D {} ?s (snd (update_job_status e j st msg ?s))" for st msg
      unfolding update_job_status_def exec_def Let_def
      by (rule frame_calm) (auto simp: update_job_def o_def keys_def if_distrib [of j_id] split: option.splits)
    then show ?thesis using verdicts_status [OF assms(3) status(1)] status by simp
  qed
  then show "frame D {} (w_db w) (w_db w')" "verdicts (w_db w')" "finish_stage (known (w_db w') j) j th" by simp_all
qed

text \<open>Heartbeats, requests and the cleanup.\<close>

lemma frame_heartbeat:
  "frame D {} s (snd (update_task_heartbeat e i s))" "no_new_verdict s (snd (update_task_heartbeat e i s))"
proof -
  have "row_key (t\<lparr>t_heartbeat_at := h, t_updated_at := u\<rparr>) = row_key t" for t :: task and h u
    by (cases "t_status t") (simp_all add: row_key_def phase_of_def)
  then have "map row_key (tasks (snd (update_task_heartbeat e i s))) = map row_key (tasks s)"
    by (auto simp: update_task_heartbeat_def exec_def Let_def update_task_def split: option.splits)
  moreover have "task_seq (snd (update_task_heartbeat e i s)) = task_seq s" "jobs (snd (update_task_heartbeat e i s)) = jobs s"
    by (auto simp: update_task_heartbeat_def exec_def Let_def update_task_def split: option.splits)
  ultimately show "frame D {} s (snd (update_task_heartbeat e i s))" "no_new_verdict s (snd (update_task_heartbeat e i s))"
    by (auto intro!: frame_calm keys_same no_new_verdict_same)
qed

lemma frame_request:
  assumes "db_inv s'" and "later_ids s s'" and "same_tables s s' \<or> adds_job s s'"
    and "\<forall>jb \<in> set (jobs s') - set (jobs s). j_id jb \<notin> dom D"
  shows "frame D {} s s'" and "no_new_verdict s s'"
proof -
  have seq: "task_seq s \<le> task_seq s'" using assms(2) by (simp add: later_ids_def)
  have "frame D {} s s' \<and> no_new_verdict s s'" if "same_tables s s'"
    using that seq by (auto simp: frame_same_tables same_tables_def intro!: no_new_verdict_same)
  moreover have "frame D {} s s' \<and> no_new_verdict s s'" if a: "adds_job s s'"
  proof -
    obtain jb new where jb: "jobs s' = jobs s @ [jb]" "tasks s' = tasks s @ new" "j_status jb = JobStatusQueued"
      and new: "\<forall>t \<in> set new. t_job t = j_id jb" using a unfolding adds_job_def by blast
    have fresh: "j_id jb \<notin> dom D" using assms(1,4) jb(1) by (force simp: db_inv_defs)
    have ids: "\<forall>t \<in> set new. task_seq s < t_id t" using assms(2) jb(2) by (auto simp: later_ids_def)
    have keys: "keys s' = keys s \<union> row_key ` set new" by (simp add: keys_def jb(2) image_Un)
    have "(task_seq s < i \<or> i \<in> {}) \<and> (\<not> settled j s \<or> j \<notin> dom D)" if "(i, j, p) \<in> keys s' - keys s" for i j p
      using that new ids fresh by (auto simp: keys row_key_def)
    moreover have "job_exists j s" if "j \<in> dom D" "job_exists j s'" for j using that fresh jb(1) by (auto simp: job_exists_def)
    ultimately have "frame D {} s s'" using seq unfolding frame_def by (simp add: keys split: prod.splits) blast
    moreover have "no_new_verdict s s'" using jb(1,3) by (auto simp: no_new_verdict_def)
    ultimately show ?thesis by simp
  qed
  ultimately show "frame D {} s s'" "no_new_verdict s s'" using assms(3) by auto
qed

lemma frame_cancel:
  "frame D {} s (snd (cancel_expired e s))" "no_new_verdict s (snd (cancel_expired e s))"
proof -
  have ids: "j_id \<circ> cancel_if_expired now = j_id" for now by (simp add: fun_eq_iff)
  show "frame D {} s (snd (cancel_expired e s))"
    by (rule frame_calm) (auto simp: cancel_expired_def exec_def Let_def ids split: option.splits)
  show "no_new_verdict s (snd (cancel_expired e s))"
    by (auto simp: cancel_expired_def exec_def Let_def no_new_verdict_def cancel_if_expired_def split: option.splits)
qed

lemma deleted_jobs_gone:
  assumes "db_inv s" and "j \<in> j_id ` {x \<in> set (jobs s). P x}"
  shows "\<not> job_exists j (delete_jobs P s)"
proof -
  have dist: "distinct (map j_id (jobs s))" using assms(1) by (simp add: db_inv_defs)
  show ?thesis
    using assms(2) distinct_map_inj_on_key [OF dist] by (fastforce simp: job_exists_def delete_jobs_def Let_def)
qed

lemma frame_delete_jobs:
  assumes "db_inv s"
  shows "frame D {} s (delete_jobs P s)" and "no_new_verdict s (delete_jobs P s)"
proof -
  let ?s = "delete_jobs P s"
  note gone = deleted_jobs_gone [OF assms]
  have keys: "keys ?s = {k \<in> keys s. fst (snd k) \<notin> j_id ` {x \<in> set (jobs s). P x}}"
    by (auto simp: keys_def delete_jobs_def Let_def row_key_def)
  have "job_exists j s" if "job_exists j ?s" for j using that by (auto simp: job_exists_def delete_jobs_def Let_def)
  moreover have "task_seq ?s = task_seq s" by (simp add: delete_jobs_def Let_def)
  ultimately show "frame D {} s ?s" unfolding frame_def using gone by (auto simp: keys)
  show "no_new_verdict s ?s" by (auto simp: no_new_verdict_def delete_jobs_def Let_def)
qed

lemma frame_delete:
  assumes "db_inv s"
  shows "frame D {} s (snd (delete_expired e s))" and "no_new_verdict s (snd (delete_expired e s))"
proof -
  have tick: "delete_jobs P (s\<lparr>tick := n\<rparr>) = (delete_jobs P s)\<lparr>tick := n\<rparr>" for P n by (simp add: delete_jobs_def Let_def)
  have "no_new_verdict s (u\<lparr>tick := n\<rparr>) = no_new_verdict s u" for u n by (simp add: no_new_verdict_def)
  then show "frame D {} s (snd (delete_expired e s))" "no_new_verdict s (snd (delete_expired e s))"
    using frame_delete_jobs [OF assms]
    by (auto simp: delete_expired_def exec_def Let_def tick intro!: frame_calm no_new_verdict_same split: option.splits)
qed

section \<open>Every reachable state of a timely system\<close>

definition leases_ok :: "team \<Rightarrow> bool" where
  "leases_ok y \<longleftrightarrow> leased (tm_book y) (team_db y) (tm_work y)"

lemma live_not_claimable:
  assumes "leases_live e cfg y" and "tm_work y k = Handling t th" and "held (team_db y) t"
    and "u \<in> set (tasks (team_db y))" and "t_id u = t_id t"
  shows "\<not> claimable (go_now e (tick (team_db y)) - wc_lease_timeout (c_worker cfg)) u"
proof -
  have "row_key u = work_key t" using assms(3-5) by (auto simp: held_def keys_def row_key_def)
  then have "t_status u = TaskStatusProcessing" by (auto simp: row_key_def work_key_def phase_of_def split: task_status.splits)
  moreover have "case t_heartbeat_at u of None \<Rightarrow> False
      | Some h \<Rightarrow> go_now e (tick (team_db y)) - wc_lease_timeout (c_worker cfg) \<le> h"
    using assms(1,2,4,5) unfolding leases_live_def by blast
  ultimately show ?thesis by (auto simp: claimable_def split: option.splits)
qed

lemma leases_ok_step:
  assumes "team_step cfg True y y'" and "team_ok cfg y" and "leases_ok y"
  shows "leases_ok y'"
proof -
  have sound: "sound cfg (tm_book y) (team_db y)" and inv: "db_inv (team_db y)"
    using assms(2) by (auto simp: team_ok_def sound_def)
  have ids: "j_id ` set (jobs (team_db y)) \<subseteq> dom (tm_book y)" using sound by (auto simp: sound_def rows_ok_def in_book_def)
  have L: "leased (tm_book y) (team_db y) (tm_work y)" using assms(3) by (simp add: leases_ok_def)
  note free = leased_free [OF L]
  have ok: "worker_ok (tm_book y) (team_db y) (tm_work y i)" for i using L by (simp add: leased_def)
  have calm: "leases_ok (with_db s y)" if "frame (tm_book y) {} (team_db y) s" "no_new_verdict (team_db y) s" for s
    using leased_frame [OF L that(1) _ that(2) ids] by (simp add: leases_ok_def)
  have apart: "at_work (((tm_work y)(k := Free)) k') \<inter> {t_id t} = {}" if "tm_work y k = Handling t th" for k k' t th
  proof (cases "k' = k")
    case False
    then have "at_work (tm_work y k') \<inter> at_work (tm_work y k) = {}" using L unfolding leased_def by blast
    then show ?thesis using False that by (simp add: at_work_def)
  qed (simp add: at_work_def)
  from assms(1) show ?thesis
  proof (cases rule: team_step_cases)
    case (claim k e t w nt)
    then have dq: "dequeue_task e (wc_lease_timeout (c_worker cfg)) (team_db y) = (Ok t, w_db w)" using on_db_eq by blast
    obtain t0 where t0: "t0 \<in> set (tasks (team_db y))" "t_id t0 = t_id t" "t_job t = t_job t0"
        "claimable (go_now e (tick (team_db y)) - wc_lease_timeout (c_worker cfg)) t0"
        "frame (tm_book y) {t_id t} (team_db y) (w_db w)" "jobs (w_db w) = jobs (team_db y)" "held (w_db w) t"
      using frame_claim [OF dq inv, of "tm_book y"] by blast
    have others: "at_work (tm_work y i) \<inter> {t_id t} = {}" for i
    proof (cases "tm_work y i")
      case (Handling t' th)
      moreover have "held (team_db y) t'" using ok [of i] Handling by (simp add: worker_ok_def)
      ultimately have "t_id t' \<noteq> t_id t" using live_not_claimable [of e cfg y i t' th t0] claim(3) t0(1,2,4) by auto
      then show ?thesis by (simp add: Handling at_work_def)
    qed (simp_all add: at_work_def)
    then have "leased (tm_book y) (w_db w) ((tm_work y)(k := Free))"
      using leased_frame [OF free t0(5) _ no_new_verdict_same [OF t0(6)] ids] by (simp add: at_work_def)
    moreover have "t_job t \<in> dom (tm_book y)" using sound t0(1,3) by (auto simp: sound_def rows_ok_def depth_in_def)
    ultimately show ?thesis unfolding claim(1) leases_ok_def
      using others t0(7) by (auto simp: worker_ok_def intro!: leased_put)
  next
    case (no_claim k e err w)
    then have dq: "dequeue_task e (wc_lease_timeout (c_worker cfg)) (team_db y) = (Inl err, w_db w)" using on_db_eq by blast
    then obtain n where n: "w_db w = (team_db y)\<lparr>tick := n\<rparr>" using no_claim_same by blast
    have "leased (tm_book y) (w_db w) ((tm_work y)(k := Free))"
      by (rule leased_frame [OF free frame_calm _ no_new_verdict_same ids, where X = "{}"]) (simp_all add: n)
    then show ?thesis by (simp add: no_claim(1) leases_ok_def)
  next
    case (work k t f th w)
    have h: "held (team_db y) t" "t_job t \<in> dom (tm_book y)" using ok [of k] work(2) by (simp_all add: worker_ok_def)
    have "obeys cfg (tm_book y) t (Atom f)" using assms(2) work(2) by (simp add: team_ok_def)
    from obeys_step(3) [OF this sound work(3)] have k: "keeps_to_job (t_job t) (team_db y) (w_db w)" .
    have "leased (tm_book y) (w_db w) ((tm_work y)(k := Free))"
      using leased_frame [OF free frame_work(1) [OF k h(1)] _ frame_work(2) [OF k h(1)] ids] by simp
    moreover have "held (w_db w) t" using held_frame [OF frame_work(1) [OF k h(1)] h] by simp
    moreover have "at_work (tm_work y k') \<inter> {t_id t} = {}" if "k' \<noteq> k" for k' using apart [OF work(2), of k'] that by simp
    ultimately show ?thesis unfolding work(1) leases_ok_def
      using h(2) by (auto simp: worker_ok_def intro!: leased_put)
  next
    case (settle k t r e nt x w)
    have h: "held (team_db y) t" "t_job t \<in> dom (tm_book y)" using ok [of k] settle(2) by (simp_all add: worker_ok_def)
    have f: "frame (tm_book y) {t_id t} (team_db y) (w_db w)" "jobs (w_db w) = jobs (team_db y)"
      using frame_settle [OF inv h(1), of "tm_book y" e nt cfg r] settle(3) by simp_all
    have "leased (tm_book y) (w_db w) ((tm_work y)(k := Free))"
      by (rule leased_frame [OF free f(1) apart [OF settle(2)] no_new_verdict_same [OF f(2)] ids])
    then show ?thesis unfolding settle(1) leases_ok_def
      using h(2) by (auto simp: worker_ok_def intro!: leased_put)
  next
    case (finish k t f th w)
    have h: "finish_stage (known (team_db y) (t_job t)) (t_job t) (Atom f)" "t_job t \<in> dom (tm_book y)"
      using ok [of k] finish(2) by (simp_all add: worker_ok_def)
    have "verdicts (team_db y)" using L by (simp add: leased_def)
    note st = finish_step_leased [OF h(1) finish(3) this]
    have "leased (tm_book y) (w_db w) ((tm_work y)(k := Free))" using leased_frame_verdicts [OF free st(1) _ st(2)] by simp
    then show ?thesis unfolding finish(1) leases_ok_def
      using h(2) st(3) by (auto simp: worker_ok_def intro!: leased_put)
  next
    case (request e dc p1 p2 p3 s)
    note r = request_effect [OF request(2) inv]
    note f = frame_request [of s "team_db y" "tm_book y", OF _ _ _ request(3)]
    have "leased (tm_book y) s (tm_work y)" using leased_frame [OF L f(1) _ f(2) ids] r by simp
    moreover have "tm_book y \<subseteq>\<^sub>m tm_book y ++ book_of (jobs s)" using book_grows [OF sound _ request(3)] r by (auto simp: db_inv_defs)
    ultimately show ?thesis unfolding request(1) leases_ok_def using leased_book by simp
  next
    case robots
    then show ?thesis using assms(3) by (simp add: leases_ok_def)
  next
    case (finished k t r)
    then show ?thesis using free by (simp add: leases_ok_def)
  next
    case (crash k)
    then show ?thesis using free by (simp add: leases_ok_def)
  qed (simp_all only: ignoring_def calm frame_heartbeat frame_cancel frame_delete [OF inv])
qed

lemma timely_reachable: "team_reachable cfg True y \<Longrightarrow> team_ok cfg y \<and> leases_ok y"
proof (induction rule: team_reachable.induct)
  case start
  have "verdicts empty_db" by (simp add: verdicts_def empty_db_def)
  then show ?case using team_ok_reachable [OF team_reachable.start]
    by (simp add: leases_ok_def leased_def team_start_def worker_ok_def)
next
  case (step y y')
  then show ?case using team_ok_step leases_ok_step by blast
qed

text \<open>C2: As long as heartbeats arrive within the lease, no task is in the hands of two workers, and the task that a worker
  handles is marked as being processed, with the attempts that the worker knows, until the worker writes its outcome or
  the job is deleted.\<close>

theorem one_worker_per_task:
  assumes "team_reachable cfg True y" and "tm_work y k = Handling t th"
  shows "(\<forall>k' t' th'. tm_work y k' = Handling t' th' \<and> t_id t' = t_id t \<longrightarrow> k' = k)
    \<and> (\<forall>u \<in> set (tasks (team_db y)). t_id u = t_id t \<longrightarrow>
         t_job u = t_job t \<and> t_status u = TaskStatusProcessing \<and> t_attempts u = t_attempts t)
    \<and> (job_exists (t_job t) (team_db y) \<longrightarrow> (\<exists>u \<in> set (tasks (team_db y)). t_id u = t_id t))"
proof -
  have L: "leased (tm_book y) (team_db y) (tm_work y)" using timely_reachable [OF assms(1)] by (simp add: leases_ok_def)
  then have "worker_ok (tm_book y) (team_db y) (tm_work y k)" by (simp add: leased_def)
  then have h: "held (team_db y) t" using assms(2) by (simp add: worker_ok_def)
  have apart: "k' = k" if "tm_work y k' = Handling t' th'" "t_id t' = t_id t" for k' t' th'
  proof (rule ccontr)
    assume "k' \<noteq> k"
    then have "at_work (tm_work y k') \<inter> at_work (tm_work y k) = {}" using L unfolding leased_def by blast
    then show False using that assms(2) by simp
  qed
  have row: "t_job u = t_job t \<and> t_status u = TaskStatusProcessing \<and> t_attempts u = t_attempts t"
    if "u \<in> set (tasks (team_db y))" "t_id u = t_id t" for u
  proof -
    have "row_key u = work_key t" using h that by (auto simp: held_def keys_def row_key_def)
    then show ?thesis by (cases "t_status u") (auto simp: row_key_def work_key_def phase_of_def)
  qed
  have there: "\<exists>u \<in> set (tasks (team_db y)). t_id u = t_id t" if "job_exists (t_job t) (team_db y)"
  proof -
    have "work_key t \<in> row_key ` set (tasks (team_db y))" using h that by (simp add: held_def keys_def)
    then show ?thesis by (auto simp: row_key_def work_key_def)
  qed
  show ?thesis using apart row there by (intro conjI allI impI ballI) simp_all
qed

text \<open>C1: As long as heartbeats arrive within the lease, the verdict on a job is the truth about its tasks, although
  \<open>FinishJob\<close> counts, looks for failures and writes in three statements between which other workers claim, insert and
  settle tasks: a job marked as completed has no pending and no failed task, and one marked as completed with errors has no pending
  and at least one failed task.\<close>

theorem finished_jobs_are_settled:
  assumes "team_reachable cfg True y" and "jb \<in> set (jobs (team_db y))"
    and "j_status jb \<in> {JobStatusCompleted, JobStatusCompletedWithErrors}"
  shows "(\<forall>t \<in> set (tasks (team_db y)). t_job t = j_id jb \<longrightarrow> t_status t \<notin> {TaskStatusQueued, TaskStatusProcessing})
    \<and> (j_status jb = JobStatusCompletedWithErrors \<longleftrightarrow>
        (\<exists>t \<in> set (tasks (team_db y)). t_job t = j_id jb \<and> t_status t = TaskStatusFailed))"
proof -
  have "verdicts (team_db y)" using timely_reachable [OF assms(1)] by (simp add: leases_ok_def leased_def)
  then show ?thesis using assms(2,3) unfolding verdicts_def verdict_ok_def settled_iff some_failed_iff by auto
qed

end
