(* ===== verification/Logging.thy ===== *)
theory Logging
  imports Crawling
begin

text \<open>
  \<open>internal/logging/logging.go\<close> and what a worker of \<open>internal/worker/worker.go\<close> writes with it: the lines of a round as
  values, in their order, and the labels under which \<open>bytefetch_worker_tasks_total\<close> counts.  slog adds the time
  and prints a line as JSON.
\<close>

section \<open>The logger\<close>

datatype log_value = LInt int | LText string

type_synonym log_fields = "(string \<times> log_value) list"

datatype log_level = LevelInfo | LevelError

record log_line =
  ln_level :: log_level
  ln_msg :: string
  ln_fields :: log_fields

text \<open>The component, and the fields that \<open>With\<close> has bound in the logger of slog.\<close>

record logger =
  lg_component :: string
  lg_bound :: log_fields

definition new_logger :: "string \<Rightarrow> logger" where
  "new_logger component = \<lparr>lg_component = component, lg_bound = []\<rparr>"

definition log_info :: "logger \<Rightarrow> string \<Rightarrow> log_fields \<Rightarrow> log_line" where
  "log_info l msg kv =
     \<lparr>ln_level = LevelInfo, ln_msg = msg, ln_fields = lg_bound l @ [(''component'', LText (lg_component l))] @ kv\<rparr>"

definition log_error :: "logger \<Rightarrow> string \<Rightarrow> log_fields \<Rightarrow> log_line" where
  "log_error l msg kv =
     \<lparr>ln_level = LevelError, ln_msg = msg, ln_fields = lg_bound l @ [(''component'', LText (lg_component l))] @ kv\<rparr>"

definition with_fields :: "logger \<Rightarrow> log_fields \<Rightarrow> logger" where
  "with_fields l kv = \<lparr>lg_component = lg_component l, lg_bound = lg_bound l @ kv\<rparr>"

section \<open>The lines of a worker\<close>

definition starting_line :: "config \<Rightarrow> log_line" where
  "starting_line cfg =
     log_info (new_logger ''worker'') ''starting''
       [(''pool_size'', LInt (wc_pool_size (c_worker cfg))), (''per_host_limit'', LInt (wc_per_host_limit (c_worker cfg))),
        (''per_host_rps'', LInt (wc_per_host_rps (c_worker cfg)))]"

definition worker_logger :: "int \<Rightarrow> logger" where
  "worker_logger i = with_fields (new_logger ''worker'') [(''worker_id'', LInt i)]"

definition err_field :: "go_error \<Rightarrow> string \<times> log_value" where
  "err_field err = (''err'', LText (error_text err))"

definition task_fields :: "task \<Rightarrow> log_fields" where
  "task_fields t = [(''task_id'', LInt (t_id t)), (''job_id'', LText (t_job t)), (''depth'', LInt (t_depth t))]"

fun when_error :: "'a res \<Rightarrow> (go_error \<Rightarrow> log_line) \<Rightarrow> log_line list" where
  "when_error (Inl err) line = [line err]"
| "when_error (Inr x) line = []"

definition dequeue_lines :: "logger \<Rightarrow> go_error \<Rightarrow> log_line list" where
  "dequeue_lines lg err = (if err = ErrNoRows then [] else [log_error lg ''dequeue error'' [err_field err]])"

text \<open>\<open>settle_task\<close> with the lines and the label; \<open>ms\<close> is the time that the task took.\<close>

definition settle_logged :: "env \<Rightarrow> config \<Rightarrow> logger \<Rightarrow> int \<Rightarrow> task \<Rightarrow> unit res \<Rightarrow> world \<Rightarrow> (log_line list \<times> string) \<times> world" where
  "settle_logged e cfg lg ms t outcome w =
     (case outcome of
        Inl err \<Rightarrow>
          (let line = log_error lg ''task error'' (task_fields t @ [err_field err])
           in if should_retry (t_attempts t) (wc_max_retries (c_worker cfg))
              then (case on_db (retry_task e (t_id t) (error_text err)) w of (r, w') \<Rightarrow>
                      ((line # when_error r (\<lambda>retryErr. log_error lg ''retry task error'' [(''task_id'', LInt (t_id t)), err_field retryErr]), ''error''), w'))
              else (case on_db (fail_task e (t_id t) (error_text err)) w of (r, w') \<Rightarrow>
                      ((line # when_error r (\<lambda>failErr. log_error lg ''fail task''
                          [(''task_id'', LInt (t_id t)), err_field failErr, (''orig'', LText (error_text err))]), ''error''), w')))
      | Inr _ \<Rightarrow>
          (case on_db (complete_task e (t_id t)) w of (r, w') \<Rightarrow>
             ((when_error r (\<lambda>completeErr. log_error lg ''complete task error''
                  [(''task_id'', LInt (t_id t)), (''job_id'', LText (t_job t)), err_field completeErr]) @
                 [log_info lg ''task done'' (task_fields t @ [(''duration_ms'', LInt ms)])], ''ok''), w')))"

definition finish_lines :: "logger \<Rightarrow> task \<Rightarrow> unit res \<Rightarrow> log_line list" where
  "finish_lines lg t r =
     (case r of
        Inl err \<Rightarrow>
          if error_text err \<noteq> ''job still has pending tasks''
          then [log_error lg ''finish job error'' [(''job_id'', LText (t_job t)), err_field err]] else []
      | Inr _ \<Rightarrow> [])"

definition round_logged :: "env \<Rightarrow> net \<Rightarrow> config \<Rightarrow> logger \<Rightarrow> int \<Rightarrow> world \<Rightarrow> (log_line list \<times> string list) \<times> world" where
  "round_logged e nt cfg lg ms w0 =
     (case on_db (dequeue_task e (wc_lease_timeout (c_worker cfg))) w0 of
        (Inl err, w1) \<Rightarrow> ((dequeue_lines lg err, []), w1)
      | (Inr t, w1) \<Rightarrow>
          (case handle_task e nt cfg t w1 of (outcome, w2) \<Rightarrow>
           case settle_logged e cfg lg ms t outcome w2 of ((ls, label), w3) \<Rightarrow>
           case on_db (finish_job e (t_job t)) w3 of (r, w4) \<Rightarrow> ((ls @ finish_lines lg t r, [label]), w4)))"

section \<open>What the log says\<close>

lemma settle_logged_state: "snd (settle_logged e cfg lg ms t outcome w) = snd (settle_task e nt cfg t outcome w)"
  by (auto simp: settle_logged_def settle_task_def Let_def ignoring_def split: sum.splits prod.splits)

text \<open>Writing the log changes nothing: it is the round of the other theories.\<close>

lemma round_logged_state: "snd (round_logged e nt cfg lg ms w) = snd (worker_round e nt cfg w)"
proof (cases "on_db (dequeue_task e (wc_lease_timeout (c_worker cfg))) w")
  case (Pair r w1)
  show ?thesis
  proof (cases r)
    case (Inr t)
    obtain outcome w2 where h: "handle_task e nt cfg t w1 = (outcome, w2)" by fastforce
    show ?thesis using settle_logged_state [of e cfg lg ms t outcome w2 nt]
      by (cases "settle_logged e cfg lg ms t outcome w2"; cases "settle_task e nt cfg t outcome w2")
        (auto simp: round_logged_def worker_round_def Pair Inr h ignoring_def split: prod.splits)
  qed (simp add: round_logged_def worker_round_def Pair)
qed

text \<open>Every line names the component and everything that \<open>With\<close> has bound.\<close>

definition signed_by :: "logger \<Rightarrow> log_line \<Rightarrow> bool" where
  "signed_by lg l \<longleftrightarrow> (''component'', LText (lg_component lg)) \<in> set (ln_fields l) \<and> set (lg_bound lg) \<subseteq> set (ln_fields l)"

lemma signed_lines [simp]: "signed_by lg (log_error lg msg kv)" "signed_by lg (log_info lg msg kv)"
  by (auto simp: signed_by_def log_error_def log_info_def)

lemma updated_tasks: "tasks (update_task i f s) = map (\<lambda>t. if t_id t = i then f t else t) (tasks s)"
  by (simp add: update_task_def)

lemma completed_rows:
  assumes "on_db (complete_task e i) w = (Ok x, w')" and "u \<in> set (tasks (w_db w'))" and "t_id u = i"
  shows "t_status u = TaskStatusDone"
proof -
  have c: "complete_task e i (w_db w) = (Ok x, w_db w')" using on_db_eq [OF assms(1)] by simp
  then have "db_fault e (tick (w_db w)) = None" by (auto simp: complete_task_def exec_def Let_def split: option.splits)
  then have "tasks (snd (complete_task e i (w_db w))) =
      tasks (update_task i (\<lambda>t. t\<lparr>t_status := TaskStatusDone, t_updated_at := stmt_now Pool (pg_now e (tick (w_db w)))\<rparr>) (w_db w))"
    unfolding complete_task_def exec_def Let_def by simp
  then have "u \<in> set (tasks (update_task i (\<lambda>t. t\<lparr>t_status := TaskStatusDone, t_updated_at := stmt_now Pool (pg_now e (tick (w_db w)))\<rparr>) (w_db w)))"
    using assms(2) unfolding c snd_conv by simp
  then obtain v :: task where "u = (if t_id v = i then v\<lparr>t_status := TaskStatusDone, t_updated_at := stmt_now Pool (pg_now e (tick (w_db w)))\<rparr> else v)"
    unfolding updated_tasks set_map by blast
  then show ?thesis using assms(3) by (cases "t_id v = i") simp_all
qed

text \<open>C11: No task fails silently: if a worker has claimed a task and the row of the task is not marked as done after the round,
  then an error line of this round names the task, signed with the component and the number of the worker,
  whatever failed: the work itself, the statement for its outcome, or both.\<close>

theorem no_silent_failure:
  assumes "on_db (dequeue_task e (wc_lease_timeout (c_worker cfg))) w = (Ok t, w1)"
    and "round_logged e nt cfg lg ms w = ((ls, labels), w')"
    and "u \<in> set (tasks (w_db w'))" and "t_id u = t_id t" and "t_status u \<noteq> TaskStatusDone"
  shows "\<exists>l \<in> set ls. ln_level l = LevelError \<and> signed_by lg l \<and> (''task_id'', LInt (t_id t)) \<in> set (ln_fields l)"
proof -
  obtain outcome w2 where h: "handle_task e nt cfg t w1 = (outcome, w2)" by fastforce
  obtain ls0 label w3 where s: "settle_logged e cfg lg ms t outcome w2 = ((ls0, label), w3)" by (metis prod.collapse)
  obtain f w5 where f: "on_db (finish_job e (t_job t)) w3 = (f, w5)" by fastforce
  have "round_logged e nt cfg lg ms w = ((ls0 @ finish_lines lg t f, [label]), w5)"
    unfolding round_logged_def by (simp add: assms(1) h s f)
  then have r: "ls = ls0 @ finish_lines lg t f" "w' = w5" using assms(2) by simp_all
  have u: "u \<in> set (tasks (w_db w3))" using assms(3) finish_keeps_tasks [of e "t_job t" w3] by (simp add: r(2) f ignoring_def)
  have "\<exists>l \<in> set ls0. ln_level l = LevelError \<and> signed_by lg l \<and> (''task_id'', LInt (t_id t)) \<in> set (ln_fields l)"
  proof (cases outcome)
    case (Inl err)
    then have "log_error lg ''task error'' (task_fields t @ [err_field err]) \<in> set ls0"
      using s by (auto simp: settle_logged_def Let_def split: prod.splits if_splits)
    then show ?thesis by (rule bexI [rotated]) (simp, simp add: log_error_def task_fields_def)
  next
    case (Inr x)
    obtain c w4 where c: "on_db (complete_task e (t_id t)) w2 = (c, w4)" by fastforce
    then have "\<exists>err. c = Inl err" using completed_rows [of e "t_id t" w2 _ w4 u] s Inr u assms(4,5)
      by (cases c) (auto simp: settle_logged_def)
    then obtain err where "c = Inl err" ..
    then have "log_error lg ''complete task error'' [(''task_id'', LInt (t_id t)), (''job_id'', LText (t_job t)), err_field err] \<in> set ls0"
      using s by (auto simp: settle_logged_def Inr c)
    then show ?thesis by (rule bexI [rotated]) (simp, simp add: log_error_def)
  qed
  then show ?thesis by (auto simp: r(1))
qed

section \<open>A round that fails\<close>

text \<open>The connection breaks when the worker looks up the job of a task without attempts left.\<close>

definition demo_break :: env where
  "demo_break = demo_env\<lparr>db_fault := (\<lambda>n. if n = 7 then Some ''broken connection'' else None)\<rparr>"

definition demo_dequeued :: "task res \<times> world" where
  "demo_dequeued = on_db (dequeue_task demo_break (wc_lease_timeout (c_worker default_config))) (demo_site ''http://h.org/'' 3)"

lemma broken_get_job: "on_db (get_job e (t_job t)) w = (Inl err, w') \<Longrightarrow> handle_task e nt cfg t w = (Inl err, w')"
  by (simp add: handle_task_def andthen_def)

lemma demo_failing_round:
  obtains t w1 w4 where "on_db (dequeue_task demo_break (wc_lease_timeout (c_worker default_config))) (demo_site ''http://h.org/'' 3) = (Ok t, w1)"
    and "t_id t = 1" and "map (\<lambda>u. (t_id u, t_status u)) (tasks (w_db w4)) = [(1, TaskStatusFailed)]"
    and "round_logged demo_break demo_net default_config (worker_logger 4) 20 (demo_site ''http://h.org/'' 3) =
      (([log_error (worker_logger 4) ''task error'' (task_fields t @ [err_field (ErrNew ''broken connection'')])], [''error'']), w4)"
proof -
  let ?w1 = "snd demo_dequeued" and ?t = "projr (fst demo_dequeued)" and ?err = "ErrNew ''broken connection''"
  let ?g = "on_db (get_job demo_break ''j'')" and ?f = "on_db (fail_task demo_break 1 ''broken connection'')"
    and ?j = "on_db (finish_job demo_break ''j'')"
  have d: "fst demo_dequeued = Ok ?t" and t: "t_id ?t = 1" "t_job ?t = ''j''" "t_attempts ?t = 3" by code_simp+
  have "fst (?g ?w1) = Inl ?err" "fst (?f (snd (?g ?w1))) = Ok ()" "fst (?j (snd (?f (snd (?g ?w1))))) = Ok ()"
    "map (\<lambda>u. (t_id u, t_status u)) (tasks (w_db (snd (?j (snd (?f (snd (?g ?w1)))))))) = [(1, TaskStatusFailed)]" by code_simp+
  then obtain w2 w3 w4 where w: "?g ?w1 = (Inl ?err, w2)" "?f w2 = (Ok (), w3)" "?j w3 = (Ok (), w4)"
      "map (\<lambda>u. (t_id u, t_status u)) (tasks (w_db w4)) = [(1, TaskStatusFailed)]"
    by (intro that [of "snd (?g ?w1)" "snd (?f (snd (?g ?w1)))" "snd (?j (snd (?f (snd (?g ?w1)))))"])
      (simp_all only: prod_eq_iff fst_conv snd_conv simp_thms)
  have dq: "on_db (dequeue_task demo_break (wc_lease_timeout (c_worker default_config))) (demo_site ''http://h.org/'' 3) = (Ok ?t, ?w1)"
    using d unfolding demo_dequeued_def by (metis prod.collapse)
  have h: "handle_task demo_break demo_net default_config ?t ?w1 = (Inl ?err, w2)"
    by (rule broken_get_job) (simp only: t(2) w(1))
  have "\<not> should_retry (t_attempts ?t) (wc_max_retries (c_worker default_config))" by (simp add: t(3) should_retry_def default_config_def)
  then have s: "settle_logged demo_break default_config (worker_logger 4) 20 ?t (Inl ?err) w2 =
      (([log_error (worker_logger 4) ''task error'' (task_fields ?t @ [err_field ?err])], ''error''), w3)"
    by (simp only: settle_logged_def sum.case Let_def t(1) error_text.simps w(2) prod.case when_error.simps if_False)
  have "round_logged demo_break demo_net default_config (worker_logger 4) 20 (demo_site ''http://h.org/'' 3) =
      (([log_error (worker_logger 4) ''task error'' (task_fields ?t @ [err_field ?err])], [''error'']), w4)"
    by (simp only: round_logged_def dq prod.case sum.case h s t(2) w(3) finish_lines_def append_Nil2)
  with dq t(1) w(4) show ?thesis by (rule that)
qed

theorem no_silent_failure_witness:
  "\<exists>l ls w'. round_logged demo_break demo_net default_config (worker_logger 4) 20 (demo_site ''http://h.org/'' 3) = ((ls, [''error'']), w')
    \<and> map t_status (tasks (w_db w')) = [TaskStatusFailed]
    \<and> l \<in> set ls \<and> ln_level l = LevelError \<and> signed_by (worker_logger 4) l \<and> (''task_id'', LInt 1) \<in> set (ln_fields l)"
proof -
  obtain t w1 w4 ls where d: "on_db (dequeue_task demo_break (wc_lease_timeout (c_worker default_config))) (demo_site ''http://h.org/'' 3) = (Ok t, w1)"
      and t: "t_id t = 1" and rows: "map (\<lambda>u. (t_id u, t_status u)) (tasks (w_db w4)) = [(1, TaskStatusFailed)]"
      and r: "round_logged demo_break demo_net default_config (worker_logger 4) 20 (demo_site ''http://h.org/'' 3) = ((ls, [''error'']), w4)"
    by (rule demo_failing_round) (rule that)
  obtain u where u: "tasks (w_db w4) = [u]" "t_id u = 1" "t_status u = TaskStatusFailed" using rows by auto
  have "\<exists>l \<in> set ls. ln_level l = LevelError \<and> signed_by (worker_logger 4) l \<and> (''task_id'', LInt (t_id t)) \<in> set (ln_fields l)"
    by (rule no_silent_failure [OF d r, of u]) (simp_all add: u t)
  then show ?thesis using r u t by auto
qed

end
