(* ===== verification/TeamRuns.thy ===== *)
theory TeamRuns
  imports TeamLeases Logging
begin

text \<open>
  Concrete runs of the team: a crawl is requested, a worker claims its task, the connection breaks when the worker
  looks up the job, the task fails for good and \<open>FinishJob\<close> writes the verdict.
\<close>

section \<open>The states of the run\<close>

text \<open>No retries; the connection breaks at the statement after the claim.\<close>

definition demo_once :: config where
  "demo_once = demo_config\<lparr>c_worker := (c_worker demo_config)\<lparr>wc_max_retries := 0\<rparr>\<rparr>"

definition demo_broken :: env where
  "demo_broken = demo_env\<lparr>db_fault := (\<lambda>n. if n = 10 then Some ''broken connection'' else None)\<rparr>"

definition demo_requested :: db where
  "demo_requested = snd (crawl_handler demo_env demo_once (Ok (demo_crawl_request ''http://h.org'')) empty_db)"

definition demo_claimed :: "task res \<times> db" where
  "demo_claimed = dequeue_task demo_broken (wc_lease_timeout (c_worker demo_once)) demo_requested"

definition demo_task_claimed :: task where
  "demo_task_claimed = \<lparr>t_id = 1, t_job = ''jjjj'', t_requested_url = ''http://h.org'', t_final_url = ''http://h.org/'', t_depth = 0,
     t_status = TaskStatusProcessing, t_error = None, t_started_at = Some 9, t_heartbeat_at = Some 9,
     t_attempts = 0, t_created_at = 2, t_updated_at = 9\<rparr>"

definition demo_asked :: team where
  "demo_asked = (with_db demo_requested (team_start demo_once))\<lparr>tm_book := Map.empty ++ book_of (jobs demo_requested)\<rparr>"

definition demo_world :: "db \<Rightarrow> world" where
  "demo_world s = (tm_world demo_asked)\<lparr>w_db := s\<rparr>"

definition demo_working :: team where
  "demo_working = puts 0 (Handling demo_task_claimed (handle_thread demo_broken demo_net demo_once demo_task_claimed))
     (demo_world (snd demo_claimed)) demo_asked"

definition demo_ended :: team where
  "demo_ended = puts 0 Free (snd (worker_round demo_broken demo_net demo_once (tm_world demo_asked))) demo_asked"

lemma demo_claimed_task: "demo_claimed = (Ok demo_task_claimed, snd demo_claimed)"
proof -
  have "fst demo_claimed = Ok demo_task_claimed" by code_simp
  then show ?thesis by (metis prod.collapse)
qed

lemma demo_asked_db [simp]: "team_db demo_asked = demo_requested" "tm_work demo_asked = (\<lambda>_. Free)"
  by (simp_all add: demo_asked_def team_start_def)

lemma demo_claim: "on_db (dequeue_task demo_broken (wc_lease_timeout (c_worker demo_once))) (tm_world demo_asked) =
    (Ok demo_task_claimed, demo_world (snd demo_claimed))"
  using demo_claimed_task by (simp add: on_db_def demo_claimed_def demo_world_def prod_eq_iff split: prod.splits)

lemma demo_request_step: "quiet_step demo_once (team_start demo_once) demo_asked"
proof -
  have db: "team_db (team_start demo_once) = empty_db" by (simp add: team_start_def)
  have "serves demo_env demo_once (dedupe_cache empty_db) (Fail ''x'') (Ok (demo_crawl_request ''http://h.org'')) (Fail ''x'')
      (team_db (team_start demo_once)) demo_requested"
    unfolding db by (rule serves_now [OF _ db_inv_empty]) (simp only: demo_requested_def insert_iff simp_thms)
  from quiet_step.request [OF this] show ?thesis by (simp add: demo_asked_def team_start_def)
qed

lemma demo_asked_reachable: "team_reachable demo_once timely demo_asked"
  by (rule team_reachable.step [OF team_reachable.start team_step.quiet [OF demo_request_step]])

lemma demo_live: "leases_live e cfg demo_asked"
  by (simp add: leases_live_def)

lemma demo_working_reachable: "team_reachable demo_once timely demo_working"
  unfolding demo_working_def using demo_live demo_claim
  by (intro team_reachable.step [OF demo_asked_reachable] team_step.claim) simp_all

lemma demo_ended_reachable: "team_reachable demo_once timely demo_ended"
  unfolding demo_ended_def
  by (rule reachable_later [OF uninterrupted_round demo_asked_reachable]) (simp_all add: demo_live)

lemma on_demo_world: "on_db f (demo_world s) = (fst (f s), demo_world (snd (f s)))"
  by (simp add: on_db_def demo_world_def case_prod_beta)



text \<open>The run to its end, with the states of the job and of its task.\<close>

lemma demo_end: "map j_status (jobs (team_db demo_ended)) = [JobStatusCompletedWithErrors]
    \<and> map t_status (tasks (team_db demo_ended)) = [TaskStatusFailed] \<and> map j_id (jobs (team_db demo_ended)) = [''jjjj'']
    \<and> map j_type (jobs (team_db demo_ended)) = [''crawl''] \<and> map j_params (jobs (team_db demo_ended)) = [marshal_crawl (demo_crawl_request ''http://h.org'')]"
proof -
  let ?s1 = "snd (get_job demo_broken ''jjjj'' (snd demo_claimed))"
  let ?s2 = "snd (fail_task demo_broken 1 ''broken connection'' ?s1)"
  let ?s3 = "snd (finish_job demo_broken ''jjjj'' ?s2)"
  have "fst (get_job demo_broken ''jjjj'' (snd demo_claimed)) = Fail ''broken connection''" by code_simp
  then have "on_db (get_job demo_broken (t_job demo_task_claimed)) (demo_world (snd demo_claimed)) = (Fail ''broken connection'', demo_world ?s1)"
    by (simp add: on_demo_world demo_task_claimed_def)
  then have "handle_task demo_broken demo_net demo_once demo_task_claimed (demo_world (snd demo_claimed))
      = (Fail ''broken connection'', demo_world ?s1)"
    by (rule broken_get_job)
  moreover have "settle_task demo_broken demo_net demo_once demo_task_claimed (Fail ''broken connection'') (demo_world ?s1)
      = (Failed, demo_world ?s2)"
    by (simp add: settle_task_def should_retry_def demo_task_claimed_def demo_once_def ignoring_def on_demo_world)
  ultimately have "snd (worker_round demo_broken demo_net demo_once (tm_world demo_asked)) = demo_world ?s3"
    unfolding worker_round_def by (simp add: demo_claim ignoring_def on_demo_world) (simp add: demo_task_claimed_def)
  then have "team_db demo_ended = ?s3" by (simp add: demo_ended_def demo_world_def)
  moreover have "map j_status (jobs ?s3) = [JobStatusCompletedWithErrors] \<and> map t_status (tasks ?s3) = [TaskStatusFailed]
      \<and> map j_id (jobs ?s3) = [''jjjj''] \<and> map j_type (jobs ?s3) = [''crawl'']
      \<and> map j_params (jobs ?s3) = [marshal_crawl (demo_crawl_request ''http://h.org'')]" by code_simp
  ultimately show ?thesis by simp
qed

section \<open>The theorems about the team on this run\<close>

theorem team_is_safe_witness:
  "db_inv (team_db demo_ended) \<and> depths_ok (team_db demo_ended) \<and> map t_status (tasks (team_db demo_ended)) = [TaskStatusFailed]"
  using team_is_safe [OF demo_ended_reachable [of True]] demo_end by simp

theorem one_worker_per_task_witness:
  "tm_work demo_working 0 = Handling demo_task_claimed (handle_thread demo_broken demo_net demo_once demo_task_claimed)
    \<and> map (\<lambda>u. (t_id u, t_status u)) (tasks (team_db demo_working)) = [(t_id demo_task_claimed, TaskStatusProcessing)]"
proof -
  let ?th = "handle_thread demo_broken demo_net demo_once demo_task_claimed"
  have w: "tm_work demo_working 0 = Handling demo_task_claimed ?th" by (simp add: demo_working_def)
  have t: "tasks (team_db demo_working) = tasks (snd demo_claimed)" by (simp add: demo_working_def demo_world_def)
  have i: "map t_id (tasks (snd demo_claimed)) = [t_id demo_task_claimed]" by code_simp
  obtain u where u: "tasks (team_db demo_working) = [u]" "t_id u = t_id demo_task_claimed" using t i by auto
  then have "t_status u = TaskStatusProcessing"
    using one_worker_per_task [OF demo_working_reachable w] by simp
  with w u show ?thesis by simp
qed

theorem finished_jobs_are_settled_witness:
  "\<exists>jb t. jobs (team_db demo_ended) = [jb] \<and> tasks (team_db demo_ended) = [t]
    \<and> j_status jb = JobStatusCompletedWithErrors \<and> t_job t = j_id jb \<and> t_status t \<notin> {TaskStatusQueued, TaskStatusProcessing}"
proof -
  obtain jb where jb: "jobs (team_db demo_ended) = [jb]" "j_status jb = JobStatusCompletedWithErrors" using demo_end by auto
  obtain t where t: "tasks (team_db demo_ended) = [t]" using demo_end by auto
  show ?thesis using finished_jobs_are_settled [OF demo_ended_reachable, of jb] jb t by auto
qed


section \<open>A lease that is lost\<close>

text \<open>Without heartbeats in time a second worker claims the task while the first one still works on it: the hypothesis that
  they arrive in time cannot be dropped.\<close>

definition demo_hours_later :: env where
  "demo_hours_later = demo_env\<lparr>go_now := (\<lambda>_. 10 ^ 20), pg_now := (\<lambda>_. 10 ^ 20)\<rparr>"

theorem lost_lease_shares_task:
  "\<exists>y t t' th th'. team_reachable demo_once False y \<and> tm_work y 0 = Handling t th \<and> tm_work y 1 = Handling t' th' \<and> t_id t = t_id t'"
proof -
  let ?d = "dequeue_task demo_hours_later (wc_lease_timeout (c_worker demo_once)) (snd demo_claimed)"
  have "fst ?d = Ok (projr (fst ?d))" "t_id (projr (fst ?d)) = 1" by code_simp+
  then obtain t s where d: "?d = (Ok t, s)" "t_id t = 1" by (metis prod.collapse)
  let ?y = "puts 1 (Handling t (handle_thread demo_hours_later demo_net demo_once t)) (demo_world s) demo_working"
  have w: "tm_world demo_working = demo_world (snd demo_claimed)" "tm_work demo_working 1 = Free" by (simp_all add: demo_working_def)
  have "on_db (dequeue_task demo_hours_later (wc_lease_timeout (c_worker demo_once))) (tm_world demo_working) = (Ok t, demo_world s)"
    unfolding w by (simp add: on_demo_world d(1))
  then have "team_step demo_once False demo_working ?y" using w(2) by (intro team_step.claim) simp_all
  then have "team_reachable demo_once False ?y" by (rule team_reachable.step [OF demo_working_reachable])
  moreover have "tm_work ?y 0 = Handling demo_task_claimed (handle_thread demo_broken demo_net demo_once demo_task_claimed)"
    by (simp add: demo_working_def)
  ultimately show ?thesis using d(2) by (intro exI [of _ ?y]) (auto simp: demo_task_claimed_def)
qed

end
