(* ===== verification/TeamTypes.thy ===== *)
theory TeamTypes
  imports TeamRuns Pipeline
begin

text \<open>
  The types of the JSON that goes through the database: the columns \<open>type\<close> and \<open>params\<close> of every job that the team can
  ever meet are what the worker expects when it reads them with \<open>params["..."].(T)\<close>.
\<close>

section \<open>Typed jobs\<close>

datatype json_type = BoolT | NatT | UrlT | UrlsT | FormatsT

fun is_url :: "json \<Rightarrow> bool" where
  "is_url (JStr u) = (valid_url u \<and> u \<noteq> '''')"
| "is_url v = False"

definition valid_formats :: "string list \<Rightarrow> bool" where
  "valid_formats fs \<longleftrightarrow> fs \<noteq> [] \<and> distinct fs \<and> list_all (\<lambda>f. f \<in> set [FormatMarkdown, FormatHTML, FormatText]) fs"

fun has_type :: "json_type \<Rightarrow> json \<Rightarrow> bool" where
  "has_type BoolT (JBool b) = True"
| "has_type NatT (JNum n) = (n \<ge> 0)"
| "has_type UrlT v = is_url v"
| "has_type UrlsT (JArr vs) = (vs \<noteq> [] \<and> list_all is_url vs)"
| "has_type FormatsT v = valid_formats (formats_from_any v FormatMarkdown)"
| "has_type ty v = False"

definition has_fields :: "(string \<times> json_type) list \<Rightarrow> params \<Rightarrow> bool" where
  "has_fields fs ps \<longleftrightarrow>
     list_all (\<lambda>(k, ty). case map_of ps k of Some v \<Rightarrow> has_type ty v | None \<Rightarrow> False) fs"

text \<open>The types of jobs and of their parameters.\<close>

definition batch_fields :: "(string \<times> json_type) list" where
  "batch_fields = [(''urls'', UrlsT), (''output_format'', FormatsT), (''use_js'', BoolT)]"

definition map_fields :: "(string \<times> json_type) list" where
  "map_fields = [(''url'', UrlT), (''max_depth'', NatT), (''same_domain'', BoolT), (''include_sitemaps'', BoolT)]"

definition crawl_fields :: "(string \<times> json_type) list" where
  "crawl_fields = map_fields @ [(''output_format'', FormatsT), (''use_js'', BoolT)]"

definition well_typed :: "string \<Rightarrow> json \<Rightarrow> bool" where
  "well_typed ty v \<longleftrightarrow>
     ty = ''batch_scrape'' \<and> has_fields batch_fields (params_of v)
   \<or> ty = ''crawl'' \<and> has_fields crawl_fields (params_of v)
   \<or> ty = ''map'' \<and> has_fields map_fields (params_of v)"

section \<open>Requests produce typed jobs\<close>

lemma valid_formats_values:
  assumes "check_formats (formats_values f FormatMarkdown) = Ok ()"
  shows "has_type FormatsT (marshal_format_list f)"
proof -
  have "v \<in> set [FormatMarkdown, FormatHTML, FormatText]" if "v \<in> set (formats_values f FormatMarkdown)" for v
    using assms that formats_values_lower [OF that] by (metis check_formats_ok list_all_iff valid_format_def)
  moreover have "formats_values f FormatMarkdown \<noteq> []" by (simp add: formats_values_def Let_def)
  ultimately show ?thesis by (auto simp: valid_formats_def formats_from_marshal list_all_iff)
qed

lemma valid_url_nonempty: "valid_url u \<Longrightarrow> u \<noteq> ''''"
  using valid_url_Nil by auto

lemma is_urls: "list_all is_url (map JStr us) \<longleftrightarrow> list_all valid_url us"
  using valid_url_Nil by (auto simp: list_all_iff)

lemma has_fields_of: "map_of ps = map_of kvs \<Longrightarrow> has_fields fs ps = has_fields fs kvs"
  by (simp add: has_fields_def)

lemma typed_batch: "validate_batch_request r = Ok () \<Longrightarrow> well_typed ''batch_scrape'' (marshal_batch r)"
  unfolding well_typed_def marshal_batch_def
  by (subst has_fields_of [OF params_of_fields])
    (auto simp: has_fields_def batch_fields_def validate_batch_request_def is_urls check_urls_ok FormatMarkdown_def [symmetric]
      valid_formats_values [simplified] split: if_splits sum.splits)

lemma typed_crawl: "validate_crawl_request r = Ok () \<Longrightarrow> well_typed ''crawl'' (marshal_crawl r)"
  unfolding well_typed_def marshal_crawl_def
  by (subst (2) has_fields_of [OF params_of_fields])
    (auto simp: has_fields_def crawl_fields_def map_fields_def validate_crawl_request_def FormatMarkdown_def [symmetric]
      valid_formats_values [simplified] split: if_splits sum.splits)

lemma typed_map: "validate_map_request r = Ok () \<Longrightarrow> well_typed ''map'' (marshal_map r)"
  unfolding well_typed_def marshal_map_def
  by (subst (3) has_fields_of [OF params_of_fields])
    (auto simp: has_fields_def map_fields_def validate_map_request_def split: if_splits)

lemma typed_request: "from_request tp \<Longrightarrow> well_typed (fst tp) (snd tp)"
  unfolding from_request_def using typed_batch typed_crawl typed_map by auto

lemma job_in_book:
  assumes "team_reachable cfg timely y" and "jb \<in> set (jobs (team_db y))"
  shows "from_request (j_type jb, j_params jb)"
proof -
  have ok: "sound cfg (tm_book y) (team_db y)" "\<forall>tp \<in> ran (tm_book y). from_request tp"
    using team_ok_reachable [OF assms(1)] by (simp_all add: team_ok_def)
  then have "in_book (tm_book y) jb" using assms(2) by (simp add: sound_def rows_ok_def)
  then show ?thesis using ok(2) by (auto simp: in_book_def intro: ranI)
qed

text \<open>C9: Whatever the team does, every job in the database is of one of the three types that the worker knows, and its JSON
  parameters have every field that the worker reads, each of the type that it asserts: flags are booleans, depths are
  not negative, addresses are valid, and the formats are at least one, without repeats, all of them known.\<close>

theorem jobs_well_typed:
  assumes "team_reachable cfg timely y" and "jb \<in> set (jobs (team_db y))"
  shows "well_typed (j_type jb) (j_params jb)"
  using typed_request [OF job_in_book [OF assms]] by simp

theorem jobs_well_typed_witness:
  "\<exists>jb. jobs (team_db demo_ended) = [jb] \<and> well_typed (j_type jb) (j_params jb)"
proof -
  obtain jb where jb: "jobs (team_db demo_ended) = [jb]" using demo_end by auto
  then show ?thesis using jobs_well_typed [OF demo_ended_reachable, of jb] by simp
qed

section \<open>No unknown format\<close>

lemma format_content_error:
  assumes "format_content lib x f = Inl err" and "to_lower f \<in> set [FormatMarkdown, FormatHTML, FormatText]"
  shows "html_to_md lib (x_html x) = Inl err"
  using assms by (auto simp: format_content_def markdown_from_extract_def Let_def split: if_splits sum.splits)

lemma render_formats_error:
  assumes "render_formats lib x fs outputs primary = Inl err" and "\<forall>f \<in> set fs. to_lower f \<in> set [FormatMarkdown, FormatHTML, FormatText]"
  shows "html_to_md lib (x_html x) = Inl err"
  using assms
proof (induction fs arbitrary: outputs primary)
  case (Cons f fs)
  then show ?case using format_content_error [of lib x f err] by (auto split: if_splits sum.splits)
qed simp

lemma known_lower: "f \<in> set [FormatMarkdown, FormatHTML, FormatText] \<Longrightarrow> to_lower f = f"
  by (auto simp: FormatMarkdown_def FormatHTML_def FormatText_def to_lower_def lower_char_def)

lemma render_all_error:
  assumes "render_all lib x fs = Inl err" and "valid_formats fs"
  shows "html_to_md lib (x_html x) = Inl err"
proof -
  have fs: "\<forall>f \<in> set fs. to_lower f \<in> set [FormatMarkdown, FormatHTML, FormatText]"
    using assms(2) known_lower unfolding valid_formats_def list_all_iff by metis
  have md: "to_lower FormatMarkdown \<in> set [FormatMarkdown, FormatHTML, FormatText]" by (simp add: known_lower)
  show ?thesis using assms(1) render_formats_error [OF _ fs] format_content_error [OF _ md]
    by (auto simp: render_all_def split: sum.splits prod.splits if_splits)
qed

lemma typed_formats: "well_typed ty v \<Longrightarrow> ty \<noteq> ''map'' \<Longrightarrow> valid_formats (requested_formats (params_of v))"
  by (auto simp: well_typed_def has_fields_def batch_fields_def crawl_fields_def requested_formats_def split: option.splits)

text \<open>C12: When the worker renders a page for a job that the team can meet, the only error is one of the Markdown converter:
  the errors for unknown formats are unreachable, whatever was requested.\<close>

theorem rendering_fails_only_in_converter:
  assumes "team_reachable cfg timely y" and "jb \<in> set (jobs (team_db y))" and "j_type jb \<in> {''batch_scrape'', ''crawl''}"
    and "render_all lib x (requested_formats (params_of (j_params jb))) = Inl err"
  shows "html_to_md lib (x_html x) = Inl err"
proof -
  have "well_typed (j_type jb) (j_params jb)" using typed_request [OF job_in_book [OF assms(1,2)]] by simp
  then have "valid_formats (requested_formats (params_of (j_params jb)))" using assms(3) by (intro typed_formats) auto
  then show ?thesis by (rule render_all_error [OF assms(4)])
qed

theorem rendering_fails_only_in_converter_witness:
  "\<exists>jb lib. jobs (team_db demo_ended) = [jb] \<and> lib = demo_libs\<lparr>html_to_md := (\<lambda>_. Fail ''broken'')\<rparr>
    \<and> render_all lib demo_page (requested_formats (params_of (j_params jb))) = Fail ''broken''
    \<and> html_to_md lib (x_html demo_page) = Fail ''broken''"
proof -
  let ?lib = "demo_libs\<lparr>html_to_md := (\<lambda>_. Fail ''broken'')\<rparr>"
  obtain jb where jb: "jobs (team_db demo_ended) = [jb]" "j_type jb = ''crawl''" "j_params jb = marshal_crawl (demo_crawl_request ''http://h.org'')"
    using demo_end by auto
  have r: "render_all ?lib demo_page (requested_formats (params_of (j_params jb))) = Fail ''broken''"
    unfolding jb by code_simp
  then have "html_to_md ?lib (x_html demo_page) = Fail ''broken''"
    using rendering_fails_only_in_converter [OF demo_ended_reachable, of jb] jb by simp
  with jb r show ?thesis by blast
qed

end
