(* ===== verification/TeamSteps.thy ===== *)
theory TeamSteps
  imports TeamRuns
begin

text \<open>
  Relations between an earlier and a later state of the database while heartbeats arrive in time.  The locale \<open>timely_laws\<close>
  asks for a relation one question for each kind of statement and answers for every step of the team, and
  \<open>timely_runs\<close> for every run.
\<close>

section \<open>Every step\<close>

locale timely_laws =
  fixes R :: "config \<Rightarrow> book \<Rightarrow> db \<Rightarrow> db \<Rightarrow> bool"
  assumes claims: "dequeue_task e lease s = (q, s') \<Longrightarrow> db_inv s \<Longrightarrow> db_inv s' \<Longrightarrow> R cfg D s s'"
    and works: "keeps_to_job (t_job t) s s' \<Longrightarrow> held s t \<Longrightarrow> verdicts s \<Longrightarrow> db_inv s' \<Longrightarrow> R cfg D s s'"
    and settles: "held (w_db w) t \<Longrightarrow> db_inv (w_db w) \<Longrightarrow> db_inv (w_db (snd (settle_task e nt cfg t r w))) \<Longrightarrow>
      R cfg D (w_db w) (w_db (snd (settle_task e nt cfg t r w)))"
    and finishes: "finish_stage (known (w_db w) j) j (Atom g) \<Longrightarrow> g w = (th, w') \<Longrightarrow> verdicts (w_db w) \<Longrightarrow> R cfg D (w_db w) (w_db w')"
    and beats: "db_inv (snd (update_task_heartbeat e i s)) \<Longrightarrow> R cfg D s (snd (update_task_heartbeat e i s))"
    and requests: "later_ids s s' \<Longrightarrow> same_tables s s' \<or> adds_job s s' \<Longrightarrow> db_inv s' \<Longrightarrow>
      \<forall>jb \<in> set (jobs s') - set (jobs s). j_id jb \<notin> dom D \<Longrightarrow> R cfg D s s'"
    and cancels: "R cfg D s (snd (cancel_expired e s))"
    and deletes: "db_inv s \<Longrightarrow> R cfg D s (snd (delete_expired e s))"
    and rests: "R cfg D s s"
begin

lemma every_step:
  assumes "team_step cfg True y y'" and "team_ok cfg y" and "leases_ok y"
  shows "R cfg (tm_book y) (team_db y) (team_db y')"
proof -
  have sound: "sound cfg (tm_book y) (team_db y)" and inv: "db_inv (team_db y)" and inv': "db_inv (team_db y')"
    using assms(2) team_ok_step [OF assms(1,2)] by (auto simp: team_ok_def sound_def)
  have ok: "worker_ok (tm_book y) (team_db y) (tm_work y k)" and ver: "verdicts (team_db y)" for k
    using assms(3) by (simp_all add: leases_ok_def leased_def)
  from assms(1) show ?thesis
  proof (cases rule: team_step_cases)
    case (claim k e t w nt)
    then show ?thesis using claims [OF conjunct1 [OF on_db_eq [OF claim(4)]] inv] inv' by simp
  next
    case (no_claim k e err w)
    then show ?thesis using claims [OF conjunct1 [OF on_db_eq [OF no_claim(3)]] inv] inv' by simp
  next
    case (work k t f th w)
    have h: "held (team_db y) t" using ok [of k] work(2) by (simp add: worker_ok_def)
    have "obeys cfg (tm_book y) t (Atom f)" using assms(2) work(2) by (simp add: team_ok_def)
    from works [OF obeys_step(3) [OF this sound work(3)] h ver] show ?thesis using inv' work(1) by simp
  next
    case (settle k t r e nt x w)
    have "held (team_db y) t" using ok [of k] settle(2) by (simp add: worker_ok_def)
    from settles [OF this inv, of e nt cfg r] show ?thesis using settle(1,3) inv' by simp
  next
    case (finish k t f th w)
    have "finish_stage (known (team_db y) (t_job t)) (t_job t) (Atom f)" using ok [of k] finish(2) by (simp add: worker_ok_def)
    from finishes [OF this finish(3) ver] show ?thesis using finish(1) by simp
  next
    case (request e dc p1 p2 p3 s)
    then show ?thesis using requests [of "team_db y" s "tm_book y" cfg] request_effect [OF request(2) inv] by simp
  next
    case (heartbeat k t th e)
    then show ?thesis using beats [of e "t_id t" "team_db y"] inv' by (simp add: ignoring_def)
  qed (simp_all add: ignoring_def cancels deletes [OF inv] rests)
qed

end

section \<open>No job returns\<close>

text \<open>A job of the book whose row is deleted stays deleted.\<close>

definition no_return :: "book \<Rightarrow> db \<Rightarrow> db \<Rightarrow> bool" where
  "no_return D s s' \<longleftrightarrow> (\<forall>j \<in> dom D. job_exists j s' \<longrightarrow> job_exists j s)"

lemma no_return_fewer: "j_id ` set (jobs s') \<subseteq> j_id ` set (jobs s) \<Longrightarrow> no_return D s s'"
  by (auto simp: no_return_def job_exists_def)

lemma no_return_ids: "map j_id (jobs s') = map j_id (jobs s) \<Longrightarrow> no_return D s s'"
  by (simp add: no_return_def job_exists_def)

lemma claim_keeps_jobs: "dequeue_task e lease s = (r, s') \<Longrightarrow> jobs s' = jobs s"
  by (auto simp: dequeue_task_def read_clock_def exec_def Let_def update_task_def split: option.splits list.splits)

lemma finish_keeps_ids: "finish_stage seen j (Atom g) \<Longrightarrow> g w = (th, w') \<Longrightarrow> map j_id (jobs (w_db w')) = map j_id (jobs (w_db w))"
  by (erule (1) finish_step)
    (auto simp: pending_task_counts_def has_failed_tasks_def update_job_status_def exec_def Let_def update_job_def
      if_distrib [of j_id] comp_def split: option.splits)

interpretation returning: timely_laws "\<lambda>_. no_return"
proof
  show "no_return D s s'" if "dequeue_task e lease s = (r, s')" for e lease s r s' D
    by (rule no_return_ids) (simp add: claim_keeps_jobs [OF that])
  show "no_return D s s'" if "keeps_to_job (t_job t) s s'" for t s s' D
    by (rule no_return_ids) (use that in \<open>simp add: keeps_to_job_def\<close>)
  show "no_return D (w_db w) (w_db (snd (settle_task e nt cfg t r w)))" if "held (w_db w) t" "db_inv (w_db w)" for w t e nt cfg r D
    using frame_settle [OF that(2,1)] by (intro no_return_ids) simp
  show "no_return D (w_db w) (w_db w')" if "finish_stage (known (w_db w) j) j (Atom g)" "g w = (th, w')" for w j g th w' D
    by (rule no_return_ids) (rule finish_keeps_ids [OF that])
  show "no_return D s s'" if "\<forall>jb \<in> set (jobs s') - set (jobs s). j_id jb \<notin> dom D" for s s' D
    using that unfolding no_return_def job_exists_def by auto
  show "no_return D s (snd (cancel_expired e s))" for D s e
    by (rule no_return_ids) (auto simp: cancel_expired_def exec_def Let_def comp_def split: option.splits)
  show "no_return D s (snd (delete_expired e s))" for D s e
    by (rule no_return_fewer) (auto simp: delete_expired_def exec_def Let_def delete_jobs_def split: option.splits)
qed (auto simp: update_task_heartbeat_def exec_def Let_def update_task_def no_return_def job_exists_def split: option.splits)

section \<open>Every run\<close>

lemma book_stays: "team_step cfg timely y y' \<Longrightarrow> dom (tm_book y) \<subseteq> dom (tm_book y')"
  by (erule team_step_cases) auto

lemma task_in_dom: "team_ok cfg y \<Longrightarrow> t \<in> set (tasks (team_db y)) \<Longrightarrow> t_job t \<in> dom (tm_book y)"
  by (auto simp: team_ok_def sound_def rows_ok_def depth_in_def)

lemma job_in_dom: "team_ok cfg y \<Longrightarrow> jb \<in> set (jobs (team_db y)) \<Longrightarrow> j_id jb \<in> dom (tm_book y)"
  by (auto simp: team_ok_def sound_def rows_ok_def in_book_def)

locale timely_runs = timely_laws +
  assumes follows: "R cfg D s u \<Longrightarrow> R cfg D' u v \<Longrightarrow> dom D \<subseteq> dom D' \<Longrightarrow> no_return D u v \<Longrightarrow>
    db_inv s \<Longrightarrow> t_job ` set (tasks s) \<subseteq> dom D \<Longrightarrow> R cfg D s v"
begin

lemma every_run:
  assumes "(team_step cfg True)\<^sup>*\<^sup>* y y'" and "team_reachable cfg True y"
  shows "R cfg (tm_book y) (team_db y) (team_db y')"
proof -
  have y: "team_ok cfg y" using timely_reachable [OF assms(2)] by simp
  then have inv: "db_inv (team_db y)" "t_job ` set (tasks (team_db y)) \<subseteq> dom (tm_book y)"
    using task_in_dom by (auto simp: team_ok_def sound_def simp del: domIff)
  have "dom (tm_book y) \<subseteq> dom (tm_book y') \<and> R cfg (tm_book y) (team_db y) (team_db y')"
    using assms(1)
  proof (induction rule: rtranclp_induct)
    case base
    show ?case by (simp add: rests)
  next
    case (step z z')
    have z: "team_ok cfg z" "leases_ok z" using timely_reachable reachable_later [OF step.hyps(1) assms(2)] by blast+
    have "no_return (tm_book y) (team_db z) (team_db z')"
      using returning.every_step [OF step.hyps(2) z] step.IH unfolding no_return_def by blast
    then show ?case
      using follows [OF _ every_step [OF step.hyps(2) z] _ _ inv] step.IH book_stays [OF step.hyps(2)] by blast
  qed
  then show ?thesis ..
qed

end

end
