(* ===== verification/TeamVerdicts.thy ===== *)
theory TeamVerdicts
  imports TeamSteps
begin

text \<open>
  The status of a job as a state machine of its own: from which status to which other one the statements of the workers,
  of the interface and of the cleanup can move it, as long as heartbeats arrive in time.
\<close>

section \<open>The moves\<close>

definition is_verdict :: "job_status \<Rightarrow> bool" where
  "is_verdict st \<longleftrightarrow> st = JobStatusCompleted \<or> st = JobStatusCompletedWithErrors"

text \<open>A verdict stays, and no job waits again.\<close>

definition may_become :: "job_status \<Rightarrow> job_status \<Rightarrow> bool" where
  "may_become st st' \<longleftrightarrow> st' = st \<or> (\<not> is_verdict st \<and> st' \<noteq> JobStatusQueued)"

lemma may_become_refl [simp]: "may_become st st"
  by (simp add: may_become_def)

lemma may_become_trans: "may_become a b \<Longrightarrow> may_become b c \<Longrightarrow> may_become a c"
  by (auto simp: may_become_def)

text \<open>Every job of \<open>s'\<close> that is in the book was in \<open>s\<close>, in a status that may become its new one.\<close>

definition moves :: "book \<Rightarrow> db \<Rightarrow> db \<Rightarrow> bool" where
  "moves D s s' \<longleftrightarrow> (\<forall>jb' \<in> set (jobs s'). j_id jb' \<in> dom D \<longrightarrow>
     (\<exists>jb \<in> set (jobs s). j_id jb = j_id jb' \<and> may_become (j_status jb) (j_status jb')))"

lemma moves_same [simp]: "jobs s' = jobs s \<Longrightarrow> moves D s s'"
  by (auto simp: moves_def)

lemma moves_fewer: "set (jobs s') \<subseteq> set (jobs s) \<Longrightarrow> moves D s s'"
  by (auto simp: moves_def)

lemma moves_trans:
  assumes "moves D s u" and "moves D' u v" and "dom D \<subseteq> dom D'"
  shows "moves D s v"
  unfolding moves_def
proof (intro ballI impI)
  fix jb assume "jb \<in> set (jobs v)" "j_id jb \<in> dom D"
  then obtain j1 where j1: "j1 \<in> set (jobs u)" "j_id j1 = j_id jb" "may_become (j_status j1) (j_status jb)"
    using assms(2,3) unfolding moves_def by blast
  then obtain j0 where "j0 \<in> set (jobs s)" "j_id j0 = j_id j1" "may_become (j_status j0) (j_status j1)"
    using assms(1) \<open>j_id jb \<in> dom D\<close> unfolding moves_def by metis
  then show "\<exists>j0 \<in> set (jobs s). j_id j0 = j_id jb \<and> may_become (j_status j0) (j_status jb)"
    using j1 may_become_trans by metis
qed

section \<open>Every step\<close>

lemma verdict_settled: "verdicts s \<Longrightarrow> jb \<in> set (jobs s) \<Longrightarrow> is_verdict (j_status jb) \<Longrightarrow>
    settled (j_id jb) s \<and> (j_status jb = (if some_failed (j_id jb) s then JobStatusCompletedWithErrors else JobStatusCompleted))"
  by (auto simp: verdicts_def verdict_ok_def is_verdict_def)

lemma moves_work:
  assumes "keeps_to_job (t_job t) s s'" and "held s t" and "verdicts s"
  shows "moves D s s'"
  unfolding moves_def
proof (intro ballI impI)
  fix jb' assume jb': "jb' \<in> set (jobs s')"
  have "map j_id (jobs s') = map j_id (jobs s)" using assms(1) by (simp add: keeps_to_job_def)
  then have "j_id jb' \<in> j_id ` set (jobs s)" using jb' by (metis image_eqI set_map)
  then obtain jb where jb: "jb \<in> set (jobs s)" "j_id jb = j_id jb'" by force
  consider "jb' \<in> set (jobs s)" | "j_id jb' = t_job t" "j_status jb' \<in> {JobStatusRunning, JobStatusCancelled}"
    using assms(1) jb' by (auto simp: keeps_to_job_def)
  then show "\<exists>jb \<in> set (jobs s). j_id jb = j_id jb' \<and> may_become (j_status jb) (j_status jb')"
  proof cases
    case 2
    have "job_exists (t_job t) s" using 2(1) jb by (force simp: job_exists_def)
    then have "\<not> settled (j_id jb) s" using held_pending [OF assms(2)] jb(2) 2(1) by simp
    then have "\<not> is_verdict (j_status jb)" using verdict_settled [OF assms(3) jb(1)] by blast
    then show ?thesis using 2 jb by (auto simp: may_become_def)
  qed auto
qed

lemma moves_finish:
  assumes "finish_stage (known (w_db w) j) j (Atom g)" and "g w = (th, w')" and "verdicts (w_db w)"
  shows "moves D (w_db w) (w_db w')"
  using assms(1,2)
proof (cases rule: finish_step)
  case (status e failed r)
  have "may_become (j_status jb) (if failed then JobStatusCompletedWithErrors else JobStatusCompleted)"
    if "jb \<in> set (jobs (w_db w))" "j_id jb = j" for jb
    using verdict_settled [OF assms(3) that(1)] that status(1)
    by (auto simp: may_become_def known_def job_exists_def)
  then show ?thesis unfolding status(3)
    by (auto simp: moves_def update_job_status_def exec_def Let_def update_job_def split: option.splits)
qed (auto simp: pending_task_counts_def has_failed_tasks_def exec_read)

lemma moves_cancel: "moves D s (snd (cancel_expired e s))"
  by (auto simp: moves_def cancel_expired_def exec_def Let_def cancel_if_expired_def may_become_def is_verdict_def split: option.splits)

lemma moves_delete: "moves D s (snd (delete_expired e s))"
  by (rule moves_fewer) (auto simp: delete_expired_def exec_def Let_def delete_jobs_def split: option.splits)

lemma moves_request:
  assumes "\<forall>jb \<in> set (jobs s') - set (jobs s). j_id jb \<notin> dom D"
  shows "moves D s s'"
  unfolding moves_def using assms may_become_refl by blast

lemma moves_beat: "moves D s (snd (update_task_heartbeat e i s))"
  by (rule moves_same) (auto simp: update_task_heartbeat_def exec_def Let_def update_task_def split: option.splits)

interpretation moving: timely_runs "\<lambda>_. moves"
proof
  show "moves D s s'" if "dequeue_task e lease s = (r, s')" for e lease s r s' D
    by (rule moves_same) (rule claim_keeps_jobs [OF that])
  show "moves D (w_db w) (w_db (snd (settle_task e nt cfg t r w)))" if "held (w_db w) t" "db_inv (w_db w)" for w t e nt cfg r D
    using frame_settle [OF that(2,1)] by (intro moves_same) simp
  show "moves D s v" if "moves D s u" "moves D' u v" "dom D \<subseteq> dom D'" for D s u D' v
    using that by (rule moves_trans)
qed (simp_all add: moves_work moves_finish moves_beat moves_request moves_cancel moves_delete)

section \<open>Every run\<close>

text \<open>C8: As long as heartbeats arrive in time, a verdict is final: from any moment on, whatever happens, a job that is completed,
  with errors or without, keeps exactly this status as long as its row exists, and no job that has left the queue is
  ever queued again.\<close>

theorem job_status_moves:
  assumes "team_reachable cfg True y" and "(team_step cfg True)\<^sup>*\<^sup>* y y'"
    and "jb \<in> set (jobs (team_db y))" and "jb' \<in> set (jobs (team_db y'))" and "j_id jb' = j_id jb"
  shows "may_become (j_status jb) (j_status jb')"
proof -
  have "team_ok cfg y" using timely_reachable [OF assms(1)] by simp
  then have "j_id jb' \<in> dom (tm_book y)" using job_in_dom assms(3,5) by metis
  then obtain j0 where "j0 \<in> set (jobs (team_db y))" "j_id j0 = j_id jb'" "may_become (j_status j0) (j_status jb')"
    using moving.every_run [OF assms(2,1)] assms(4) unfolding moves_def by blast
  moreover have "distinct (map j_id (jobs (team_db y)))"
    using timely_reachable [OF assms(1)] by (simp add: team_ok_def sound_def db_inv_defs)
  ultimately show ?thesis using distinct_map_inj_on_key assms(3,5) by metis
qed

theorem job_status_moves_witness:
  "\<exists>jb jb'. jobs (team_db demo_asked) = [jb] \<and> jobs (team_db demo_ended) = [jb'] \<and> j_status jb = JobStatusQueued
    \<and> j_status jb' = JobStatusCompletedWithErrors \<and> may_become (j_status jb) (j_status jb')"
proof -
  have "map j_id (jobs demo_requested) = [''jjjj''] \<and> map j_status (jobs demo_requested) = [JobStatusQueued]" by code_simp
  then obtain jb where jb: "jobs (team_db demo_asked) = [jb]" "j_id jb = ''jjjj''" "j_status jb = JobStatusQueued" by auto
  obtain jb' where jb': "jobs (team_db demo_ended) = [jb']" "j_id jb' = ''jjjj''" "j_status jb' = JobStatusCompletedWithErrors"
    using demo_end by auto
  have "(team_step demo_once True)\<^sup>*\<^sup>* demo_asked demo_ended"
    unfolding demo_ended_def by (rule uninterrupted_round) (simp_all add: demo_live)
  then show ?thesis using job_status_moves [OF demo_asked_reachable, of demo_ended jb jb'] jb jb' by simp
qed

section \<open>A cancelled job that runs again\<close>

text \<open>Between the moment a worker reads the job and the moment it starts it, the cleanup may cancel the job: \<open>StartJob\<close> does
  not look at the status, so that the cancelled job runs.\<close>

lemma work_call: "tm_work y k = Handling t (then_do (call f) c) \<Longrightarrow> f (tm_world y) = (x, w) \<Longrightarrow>
    team_step cfg timely y (puts k (Handling t (c x)) w y)"
  using quiet [OF work [of y k t "\<lambda>s. map_prod (\<lambda>t. then_do t c) id (map_prod Return id (f s))" "c x" w]]
  by (simp add: call_def)

lemma with_db_puts: "with_db s (puts k x w y) = puts k x (w\<lparr>w_db := s\<rparr>) y"
  by (cases y) (simp add: with_db_def puts_def)

definition demo_late :: env where
  "demo_late = demo_env\<lparr>pg_now := (\<lambda>_. 10 ^ 20)\<rparr>"

definition demo_read :: "job res \<times> db" where
  "demo_read = get_job demo_env ''jjjj'' (snd demo_claimed)"

definition demo_checked :: db where
  "demo_checked = w_db (snd (past_max_duration demo_env demo_once 2 (demo_world (snd demo_read))))"

lemma demo_reading:
  "dequeue_task demo_env (wc_lease_timeout (c_worker demo_once)) demo_requested = demo_claimed"
  "map_sum id (\<lambda>jb. (j_id jb, j_status jb, j_created_at jb)) (fst demo_read) = Ok (''jjjj'', JobStatusQueued, 2)"
  "\<not> fst (past_max_duration demo_env demo_once 2 (demo_world (snd demo_read)))"
  "map j_status (jobs (snd (cancel_expired demo_late demo_checked))) = [JobStatusCancelled]"
  "map j_status (jobs (snd (start_job demo_env ''jjjj'' (snd (cancel_expired demo_late demo_checked))))) = [JobStatusRunning]"
  by code_simp+

lemma past_world: "past_max_duration e cfg c (demo_world s) =
    (fst (past_max_duration e cfg c (demo_world s)), demo_world (w_db (snd (past_max_duration e cfg c (demo_world s)))))"
  by (simp add: past_max_duration_def Let_def demo_world_def split: prod.splits)

theorem cancelled_job_runs_again:
  "\<exists>y y'. team_reachable demo_once True y \<and> map j_status (jobs (team_db y)) = [JobStatusCancelled] \<and> team_step demo_once True y y'
    \<and> map j_status (jobs (team_db y')) = [JobStatusRunning]"
proof -
  let ?t = demo_task_claimed and ?at = "\<lambda>s th. puts 0 (Handling demo_task_claimed th) (demo_world s) demo_asked"
  obtain jb where jb: "fst demo_read = Ok jb" "j_id jb = ''jjjj''" "j_status jb = JobStatusQueued" "j_created_at jb = 2"
    using demo_reading(2) by (cases "fst demo_read") auto
  define started where "started = (\<lambda>r :: unit res. case r of Inl err \<Rightarrow> Return (Inl err) | Inr _ \<Rightarrow> dispatch_thread demo_env demo_net demo_once ?t jb)"
  define checked where "checked = (\<lambda>late. if late
       then attempt (query_ignored (update_job_status demo_env (j_id jb) JobStatusCancelled ''max_duration exceeded'')) (\<lambda>_. Return (Fail ''job deadline exceeded''))
       else then_do (call (\<lambda>w. (Ok (), ignoring (on_db (start_job demo_env ''jjjj'')) w))) started)"
  have "on_db (dequeue_task demo_env (wc_lease_timeout (c_worker demo_once))) (tm_world demo_asked) = (Ok ?t, demo_world (snd demo_claimed))"
    using demo_claimed_task by (simp add: on_db_def demo_reading(1) demo_world_def prod_eq_iff case_prod_beta)
  then have "team_reachable demo_once True (?at (snd demo_claimed) (handle_thread demo_env demo_net demo_once ?t))"
    using demo_live by (intro team_reachable.step [OF demo_asked_reachable] team_step.claim) simp_all
  moreover have "team_step demo_once True (?at (snd demo_claimed) (handle_thread demo_env demo_net demo_once ?t))
      (?at (snd demo_read) (then_do (call (past_max_duration demo_env demo_once 2)) checked))"
  proof -
    obtain c where c: "handle_thread demo_env demo_net demo_once ?t = then_do (call (on_db (get_job demo_env (t_job ?t)))) c"
        "c (Ok jb) = then_do (call (past_max_duration demo_env demo_once 2)) checked"
      by (simp add: handle_thread_def attempt_def query_def checked_def started_def jb(2,3,4) query_ignored_def cong: if_cong)
    have "on_db (get_job demo_env (t_job ?t)) (demo_world (snd demo_claimed)) = (Ok jb, demo_world (snd demo_read))"
      using jb(1) by (simp add: on_demo_world demo_read_def demo_task_claimed_def)
    then show ?thesis
      using work_call [of "?at (snd demo_claimed) (handle_thread demo_env demo_net demo_once ?t)" 0 ?t _ c "Ok jb" _ demo_once True]
      by (simp add: c)
  qed
  moreover have "team_step demo_once True (?at (snd demo_read) (then_do (call (past_max_duration demo_env demo_once 2)) checked))
      (?at demo_checked (checked False))"
    using work_call [of "?at (snd demo_read) (then_do (call (past_max_duration demo_env demo_once 2)) checked)" 0 ?t "past_max_duration demo_env demo_once 2" checked
        False "demo_world demo_checked" demo_once True] past_world [of demo_env demo_once 2 "snd demo_read"] demo_reading(3)
    by (simp add: demo_checked_def)
  moreover have "team_step demo_once True (?at demo_checked (checked False)) (?at (snd (cancel_expired demo_late demo_checked)) (checked False))"
    using team_step.quiet [OF quiet_step.cancel, of demo_once True "?at demo_checked (checked False)" demo_late]
    by (simp add: with_db_puts ignoring_def) (simp add: demo_world_def)
  moreover have "team_step demo_once True (?at (snd (cancel_expired demo_late demo_checked)) (checked False))
      (?at (snd (start_job demo_env ''jjjj'' (snd (cancel_expired demo_late demo_checked)))) (started (Ok ())))"
    using work_call [of "?at (snd (cancel_expired demo_late demo_checked)) (checked False)" 0 ?t "\<lambda>w. (Ok (), ignoring (on_db (start_job demo_env ''jjjj'')) w)"
        started "Ok ()" _ demo_once True]
    by (simp add: checked_def ignoring_def on_demo_world)
  ultimately have "team_reachable demo_once True (?at (snd (cancel_expired demo_late demo_checked)) (checked False))
    \<and> team_step demo_once True (?at (snd (cancel_expired demo_late demo_checked)) (checked False))
      (?at (snd (start_job demo_env ''jjjj'' (snd (cancel_expired demo_late demo_checked)))) (started (Ok ())))"
    by (meson team_reachable.step)
  then show ?thesis using demo_reading(4,5)
    by (intro exI [of _ "?at (snd (cancel_expired demo_late demo_checked)) (checked False)"]
        exI [of _ "?at (snd (start_job demo_env ''jjjj'' (snd (cancel_expired demo_late demo_checked)))) (started (Ok ()))"])
      (simp add: demo_world_def)
qed

end
