(* ===== verification/TeamTasks.thy ===== *)
theory TeamTasks
  imports TeamVerdicts
begin

text \<open>
  The life of a task among many workers: as long as heartbeats arrive in time, every row moves along the abstract machine of
  \<open>TaskMachine\<close>, whoever works on it, and leaves the table only with its job.
\<close>

section \<open>Progress\<close>

text \<open>
  From \<open>s\<close> to \<open>s'\<close>: every row was there before and has run along the machine, or it is new and has started waiting with
  no attempt used; and no row is lost while its job exists.
\<close>

definition progress :: "int \<Rightarrow> db \<Rightarrow> db \<Rightarrow> bool" where
  "progress m s s' \<longleftrightarrow> task_seq s \<le> task_seq s'
     \<and> (\<forall>t' \<in> set (tasks s').
          (\<exists>t \<in> set (tasks s). t_id t = t_id t' \<and> t_job t = t_job t' \<and> (phase_step m)\<^sup>*\<^sup>* (phase_of t) (phase_of t'))
          \<or> (task_seq s < t_id t' \<and> (phase_step m)\<^sup>*\<^sup>* (Waiting 0) (phase_of t')))
     \<and> (\<forall>t \<in> set (tasks s). job_exists (t_job t) s' \<longrightarrow> t_id t \<in> t_id ` set (tasks s'))"

lemma progressD:
  assumes "progress m s s'" and "t' \<in> set (tasks s')"
  obtains (old) t where "t \<in> set (tasks s)" "t_id t = t_id t'" "t_job t = t_job t'" "(phase_step m)\<^sup>*\<^sup>* (phase_of t) (phase_of t')"
  | (new) "task_seq s < t_id t'" "(phase_step m)\<^sup>*\<^sup>* (Waiting 0) (phase_of t')"
  using assms unfolding progress_def by blast

lemma progress_trans:
  assumes p: "progress m s u" and q: "progress m u v" and "db_inv s"
    and there: "\<And>t. t \<in> set (tasks s) \<Longrightarrow> job_exists (t_job t) v \<Longrightarrow> job_exists (t_job t) u"
  shows "progress m s v"
  unfolding progress_def
proof (intro conjI ballI impI)
  show "task_seq s \<le> task_seq v" using p q by (auto simp: progress_def)
  fix t2 assume t2: "t2 \<in> set (tasks v)"
  show "(\<exists>t \<in> set (tasks s). t_id t = t_id t2 \<and> t_job t = t_job t2 \<and> (phase_step m)\<^sup>*\<^sup>* (phase_of t) (phase_of t2))
      \<or> (task_seq s < t_id t2 \<and> (phase_step m)\<^sup>*\<^sup>* (Waiting 0) (phase_of t2))"
    using q t2
  proof (cases rule: progressD)
    case (old t1)
    from p old(1) show ?thesis using old by (cases rule: progressD) (metis rtranclp_trans)+
  next
    case new
    then show ?thesis using p by (auto simp: progress_def)
  qed
next
  fix t assume t: "t \<in> set (tasks s)" "job_exists (t_job t) v"
  then have "t_id t \<in> t_id ` set (tasks u)" using p there unfolding progress_def by blast
  then obtain t1 where t1: "t1 \<in> set (tasks u)" "t_id t1 = t_id t" by auto
  have "t_id t \<le> task_seq s" using assms(3) t(1) by (auto simp: db_inv_defs serial_ok_def)
  then obtain t0 where "t0 \<in> set (tasks s)" "t_id t0 = t_id t1" "t_job t0 = t_job t1"
    using t1(2) by (cases rule: progressD [OF p t1(1)]) auto
  then have "t_job t1 = t_job t" using one_task [OF assms(3) _ t(1)] t1(2) by metis
  then show "t_id t \<in> t_id ` set (tasks v)" using q t1 t(2) unfolding progress_def by metis
qed

lemma progress_evolves:
  assumes "evolves m s s'" and "db_inv s'" and "task_seq s \<le> task_seq s'"
    and "\<And>t'. t' \<in> set (tasks s') \<Longrightarrow> t_id t' \<in> t_id ` set (tasks s) \<or> task_seq s < t_id t'"
  shows "progress m s s'"
  unfolding progress_def
proof (intro conjI ballI impI assms(3))
  fix t' assume t': "t' \<in> set (tasks s')"
  show "(\<exists>t \<in> set (tasks s). t_id t = t_id t' \<and> t_job t = t_job t' \<and> (phase_step m)\<^sup>*\<^sup>* (phase_of t) (phase_of t'))
      \<or> (task_seq s < t_id t' \<and> (phase_step m)\<^sup>*\<^sup>* (Waiting 0) (phase_of t'))"
  proof (cases "t_id t' \<in> t_id ` set (tasks s)")
    case False
    then show ?thesis using assms(1,4) t' unfolding evolves_def by blast
  next
    case True
    then obtain t where t: "t \<in> set (tasks s)" "t_id t' = t_id t" by auto
    then obtain u where u: "u \<in> set (tasks s')" "t_id u = t_id t" "t_job u = t_job t" "(phase_step m)\<^sup>*\<^sup>* (phase_of t) (phase_of u)"
      using assms(1) unfolding evolves_def by blast
    have "u = t'" using one_task [OF assms(2) u(1) t'] u(2) t(2) by simp
    then show ?thesis using t u by metis
  qed
next
  fix t assume "t \<in> set (tasks s)"
  then show "t_id t \<in> t_id ` set (tasks s')" using assms(1) unfolding evolves_def by (metis image_eqI)
qed

lemma progress_same: "tasks s' = tasks s \<Longrightarrow> task_seq s \<le> task_seq s' \<Longrightarrow> progress m s s'"
  unfolding progress_def by auto

text \<open>The keys of the old rows stay, and new rows wait.\<close>

lemma progress_keys:
  assumes "map row_key (tasks s') = map row_key (tasks s) @ new" and "\<forall>k \<in> set new. task_seq s < fst k \<and> snd (snd k) = Waiting 0"
    and "db_inv s'" and "task_seq s \<le> task_seq s'"
  shows "progress m s s'"
proof (rule progress_evolves [OF steady_evolves assms(3,4)])
  show "steady (map row_key (tasks s)) (task_seq s) s'" using assms by (auto simp: steady_def)
  fix t' assume "t' \<in> set (tasks s')"
  then have "row_key t' \<in> set (map row_key (tasks s'))" by simp
  then have "row_key t' \<in> row_key ` set (tasks s) \<union> set new" unfolding assms(1) by simp
  then show "t_id t' \<in> t_id ` set (tasks s) \<or> task_seq s < t_id t'"
    using assms(2) by (auto simp: row_key_def)
qed

section \<open>Every step\<close>

lemma update_ids [simp]: "(\<And>t. t_id (g t) = t_id t) \<Longrightarrow> map t_id (tasks (update_task i g s)) = map t_id (tasks s)"
  by (auto simp: update_task_def)

lemma update_seq [simp]: "task_seq (update_task i g s) = task_seq s"
  by (simp add: update_task_def)

lemma progress_claim:
  assumes "dequeue_task e lease s = (r, s')" and "db_inv s" and "db_inv s'"
  shows "progress m s s'"
proof (rule progress_evolves [OF dequeue_evolves [OF assms(2,1)] assms(3)])
  have "task_seq s' = task_seq s \<and> map t_id (tasks s') = map t_id (tasks s)"
  proof (cases r)
    case (Inl err)
    then show ?thesis using no_claim_same assms(1) by fastforce
  next
    case (Inr t)
    obtain t0 :: task where "s' = update_task (t_id t0) (claim (pg_now e (Suc (tick s)))) (s\<lparr>tick := tick s + 2\<rparr>)"
      using dequeue_Ok [OF assms(1) [unfolded Inr]] by blast
    then show ?thesis by (simp add: claim_def)
  qed
  moreover from this have "t_id ` set (tasks s') = t_id ` set (tasks s)" by (metis set_map)
  ultimately show "task_seq s \<le> task_seq s'" "\<And>t'. t' \<in> set (tasks s') \<Longrightarrow> t_id t' \<in> t_id ` set (tasks s) \<or> task_seq s < t_id t'"
    by (auto intro: imageI)
qed

lemma progress_work: "keeps_to_job j s s' \<Longrightarrow> db_inv s' \<Longrightarrow> progress m s s'"
  unfolding keeps_to_job_def by (elim conjE exE, rule progress_keys) auto

lemma settle_ids:
  fixes w e nt cfg t r
  defines "s' \<equiv> w_db (snd (settle_task e nt cfg t r w))"
  shows "task_seq s' = task_seq (w_db w)" and "t_id ` set (tasks s') = t_id ` set (tasks (w_db w))"
proof -
  have "task_seq s' = task_seq (w_db w) \<and> map t_id (tasks s') = map t_id (tasks (w_db w))"
    unfolding s'_def
    by (cases r)
      (simp_all add: settle_task_def Let_def ignoring_def on_db_snd complete_task_def fail_task_def retry_task_def exec_def
        split: option.splits)
  then show "task_seq s' = task_seq (w_db w)" "t_id ` set (tasks s') = t_id ` set (tasks (w_db w))" by (simp, metis set_map)
qed

lemma progress_settle:
  assumes "held (w_db w) t" and "db_inv (w_db (snd (settle_task e nt cfg t r w)))"
  shows "progress (wc_max_retries (c_worker cfg)) (w_db w) (w_db (snd (settle_task e nt cfg t r w)))"
proof (rule progress_evolves [OF settle_evolves assms(2)])
  fix u assume "u \<in> set (tasks (w_db w))" "t_id u = t_id t"
  then have "row_key u = work_key t" using assms(1) by (auto simp: held_def keys_def row_key_def)
  then show "phase_of u = InWork (t_attempts t)" by (simp add: row_key_def work_key_def)
qed (use settle_ids [where w = w and e = e and nt = nt and cfg = cfg and t = t and r = r] in \<open>auto intro: imageI\<close>)

lemma progress_finish: "finish_stage seen j (Atom g) \<Longrightarrow> g w = (th, w') \<Longrightarrow> progress m (w_db w) (w_db w')"
  by (erule (1) finish_step; rule progress_same)
    (auto simp: pending_task_counts_def has_failed_tasks_def update_job_status_def exec_def Let_def update_job_def split: option.splits)

lemma progress_heartbeat:
  assumes "db_inv (snd (update_task_heartbeat e i s))"
  shows "progress m s (snd (update_task_heartbeat e i s))"
proof -
  have "row_key (t\<lparr>t_heartbeat_at := h, t_updated_at := u\<rparr>) = row_key t" for t :: task and h u
    by (cases "t_status t") (simp_all add: row_key_def phase_of_def)
  then show ?thesis
    by (intro progress_keys [where new = "[]", OF _ _ assms])
      (auto simp: update_task_heartbeat_def exec_def Let_def update_task_def split: option.splits)
qed

lemma progress_request:
  assumes "later_ids s s'" and "same_tables s s' \<or> adds_job s s'" and "db_inv s'"
  shows "progress m s s'"
  using assms(2)
proof
  assume "same_tables s s'"
  then show ?thesis using assms(1) by (intro progress_same) (simp_all add: same_tables_def later_ids_def)
next
  assume "adds_job s s'"
  then obtain new where new: "tasks s' = tasks s @ new" "\<forall>t \<in> set new. t_status t = TaskStatusQueued \<and> t_attempts t = 0"
    unfolding adds_job_def by blast
  show ?thesis
  proof (rule progress_keys [where new = "map row_key new", OF _ _ assms(3)])
    show "\<forall>k \<in> set (map row_key new). task_seq s < fst k \<and> snd (snd k) = Waiting 0"
      using assms(1) new by (auto simp: later_ids_def row_key_def phase_of_def)
  qed (use assms(1) new in \<open>simp_all add: later_ids_def\<close>)
qed

lemma progress_cancel: "progress m s (snd (cancel_expired e s))"
  by (rule progress_same) (auto simp: cancel_expired_def exec_def Let_def split: option.splits)

lemma progress_delete_jobs:
  assumes gone: "\<And>j. j \<in> j_id ` {x \<in> set (jobs s). P x} \<Longrightarrow> \<not> job_exists j (delete_jobs P s)"
  shows "progress m s (delete_jobs P s)"
  unfolding progress_def
proof (intro conjI ballI impI)
  show "task_seq s \<le> task_seq (delete_jobs P s)" by (simp add: delete_jobs_def Let_def)
next
  fix t' assume "t' \<in> set (tasks (delete_jobs P s))"
  then have "t' \<in> set (tasks s)" by (simp add: delete_jobs_def Let_def)
  then show "(\<exists>t \<in> set (tasks s). t_id t = t_id t' \<and> t_job t = t_job t' \<and> (phase_step m)\<^sup>*\<^sup>* (phase_of t) (phase_of t'))
      \<or> (task_seq s < t_id t' \<and> (phase_step m)\<^sup>*\<^sup>* (Waiting 0) (phase_of t'))" by blast
next
  fix t assume t: "t \<in> set (tasks s)" "job_exists (t_job t) (delete_jobs P s)"
  then have "t_job t \<notin> j_id ` {x \<in> set (jobs s). P x}" using gone by blast
  then have "t \<in> set (tasks (delete_jobs P s))" using t(1) by (simp add: delete_jobs_def Let_def)
  then show "t_id t \<in> t_id ` set (tasks (delete_jobs P s))" by simp
qed

lemma progress_delete:
  assumes "db_inv s"
  shows "progress m s (snd (delete_expired e s))"
proof -
  have tick: "delete_jobs P (s\<lparr>tick := n\<rparr>) = (delete_jobs P s)\<lparr>tick := n\<rparr>" for P n by (simp add: delete_jobs_def Let_def)
  have "progress m s (u\<lparr>tick := n\<rparr>) = progress m s u" for u n by (simp add: progress_def)
  then show ?thesis using progress_delete_jobs [OF deleted_jobs_gone [OF assms], where m = m]
    by (auto simp: delete_expired_def exec_def Let_def tick intro!: progress_same split: option.splits)
qed

interpretation progressing: timely_runs "\<lambda>cfg _. progress (wc_max_retries (c_worker cfg))"
proof
  show "progress (wc_max_retries (c_worker cfg)) s v"
    if "progress (wc_max_retries (c_worker cfg)) s u" "progress (wc_max_retries (c_worker cfg)) u v" "no_return D u v"
      "db_inv s" "t_job ` set (tasks s) \<subseteq> dom D" for cfg s u v and D :: book
    by (rule progress_trans [OF that(1,2,4)]) (use that(3,5) in \<open>unfold no_return_def, blast\<close>)
qed (simp_all add: progress_claim progress_work progress_settle progress_finish progress_heartbeat progress_request progress_cancel
    progress_delete progress_same)

text \<open>C5: Among any number of workers the life of a task is still the abstract machine: as long as heartbeats arrive in time,
  whatever the workers, the interface and the cleanup do and whoever dies, every row moves only by being
  claimed, completed, retried while attempts are left or given up when they are used up, new rows start waiting with no
  attempt used, and no row is lost while its job exists.\<close>

theorem team_refines_task_machine:
  assumes "team_reachable cfg True y" and "(team_step cfg True)\<^sup>*\<^sup>* y y'"
  shows "progress (wc_max_retries (c_worker cfg)) (team_db y) (team_db y')"
  using assms(2,1) by (rule progressing.every_run)

theorem team_refines_task_machine_witness: "progress 0 (team_db demo_asked) (team_db demo_ended)"
proof -
  have "(team_step demo_once True)\<^sup>*\<^sup>* demo_asked demo_ended"
    unfolding demo_ended_def by (rule uninterrupted_round) (simp_all add: demo_live)
  from team_refines_task_machine [OF demo_asked_reachable this] show ?thesis by (simp add: demo_once_def)
qed

section \<open>Attempts\<close>

text \<open>How many attempts a phase has used, at most: \<open>m\<close> while a task is pending, one more when it is given up.\<close>

fun phase_attempts_ok :: "int \<Rightarrow> phase \<Rightarrow> bool" where
  "phase_attempts_ok m (GivenUp a) = (m < a \<and> a \<le> max 0 m + 1)"
| "phase_attempts_ok m (Waiting a) = (0 \<le> a \<and> a \<le> max 0 m)"
| "phase_attempts_ok m (InWork a) = (0 \<le> a \<and> a \<le> max 0 m)"
| "phase_attempts_ok m (Finished a) = (0 \<le> a \<and> a \<le> max 0 m)"
| "phase_attempts_ok m (Skipped a) = False"

lemma attempts_run:
  assumes "(phase_step m)\<^sup>*\<^sup>* p q" and "phase_attempts_ok m p"
  shows "phase_attempts_ok m q"
  using assms(1)
proof (induction rule: rtranclp_induct)
  case (step q r)
  from step.hyps(2) step.IH show ?case by cases auto
qed (rule assms(2))

lemma attempts_of_reachable:
  assumes "team_reachable cfg True y" and "t \<in> set (tasks (team_db y))"
  shows "phase_attempts_ok (wc_max_retries (c_worker cfg)) (phase_of t)"
proof -
  have "(team_step cfg True)\<^sup>*\<^sup>* (team_start cfg) y"
    using assms(1) by (induction rule: team_reachable.induct) (auto intro: rtranclp.rtrancl_into_rtrancl)
  from progressing.every_run [OF this team_reachable.start] have "(phase_step (wc_max_retries (c_worker cfg)))\<^sup>*\<^sup>* (Waiting 0) (phase_of t)"
    using assms(2) by (rule progressD) (simp_all add: team_start_def empty_db_def)
  then show ?thesis by (rule attempts_run) simp
qed

text \<open>C10: With any number of workers and heartbeats in time, every task in the database has used a number of attempts that
  its state allows: at most \<open>max_retries\<close> while it waits, is in work or done, and \<open>max_retries + 1\<close>, one
  for the first run, exactly when it has failed; and no task is ever skipped.\<close>

theorem team_attempts_bounded:
  assumes "team_reachable cfg True y" and "t \<in> set (tasks (team_db y))"
  shows "phase_attempts_ok (wc_max_retries (c_worker cfg)) (phase_of t)"
  using assms by (rule attempts_of_reachable)

theorem team_attempts_bounded_witness:
  "\<exists>t. tasks (team_db demo_ended) = [t] \<and> phase_attempts_ok 0 (phase_of t) \<and> t_status t = TaskStatusFailed \<and> t_attempts t = 1"
proof -
  obtain t where t: "tasks (team_db demo_ended) = [t]" "t_status t = TaskStatusFailed" using demo_end by auto
  then have "phase_attempts_ok 0 (phase_of t)"
    using team_attempts_bounded [OF demo_ended_reachable, of t] by (simp add: demo_once_def)
  moreover from this have "t_attempts t = 1" by (simp add: phase_of_def t(2))
  ultimately show ?thesis using t by blast
qed

end
