(* ===== verification/Draining.thy ===== *)
theory Draining
  imports Crawling
begin

text \<open>
  The queue runs empty.  A worker that runs alone over a database that does not fail settles every task and
  every job that has tasks, whatever the servers answer: each round uses up an attempt of a task, and
  the task limit bounds the tasks that a crawl may still add.  The measure is \<open>work_left\<close>.
\<close>

section \<open>What is left to do\<close>

definition attempts_left :: "int \<Rightarrow> task \<Rightarrow> nat" where
  "attempts_left m t =
     (if t_status t \<in> {TaskStatusQueued, TaskStatusProcessing} then nat (m + 1 - t_attempts t) else 0)"

definition places_left :: "int \<Rightarrow> db \<Rightarrow> nat" where
  "places_left limit s = (\<Sum>j \<in> set (map j_id (jobs s)). nat (limit - job_size j s))"

text \<open>The attempts that the pending tasks have left, and those of the tasks that the limit still admits.\<close>

definition work_left :: "config \<Rightarrow> db \<Rightarrow> nat" where
  "work_left cfg s =
     sum_list (map (attempts_left (wc_max_retries (c_worker cfg))) (tasks s))
     + nat (wc_max_retries (c_worker cfg) + 1) * places_left (jd_max_tasks (c_job_defaults cfg)) s"

definition settled_or_pending :: "string set \<Rightarrow> db \<Rightarrow> bool" where
  "settled_or_pending K s \<longleftrightarrow> (\<forall>jb \<in> set (jobs s). j_id jb \<in> K \<longrightarrow>
     job_pending (j_id jb) s \<or> j_status jb \<in> {JobStatusCompleted, JobStatusCompletedWithErrors})"

text \<open>A task in work whose worker is gone: by every later reading of the clock its lease is over.\<close>

definition orphan :: "env \<Rightarrow> config \<Rightarrow> task \<Rightarrow> bool" where
  "orphan e cfg t \<longleftrightarrow>
     (case t_heartbeat_at t of None \<Rightarrow> True | Some h \<Rightarrow> (\<forall>n. h < go_now e n - wc_lease_timeout (c_worker cfg)))"

text \<open>Between two rounds, and while the task \<open>i\<close> of the job \<open>j\<close> is in work.\<close>

definition between :: "env \<Rightarrow> config \<Rightarrow> string set \<Rightarrow> nat \<Rightarrow> db \<Rightarrow> bool" where
  "between e cfg K p s \<longleftrightarrow> 0 < jd_max_tasks (c_job_defaults cfg) \<and> work_left cfg s \<le> p \<and> settled_or_pending K s \<and>
     (\<forall>t \<in> set (tasks s). t_status t = TaskStatusProcessing \<longrightarrow> orphan e cfg t)"

definition working :: "env \<Rightarrow> config \<Rightarrow> string set \<Rightarrow> string \<Rightarrow> int \<Rightarrow> nat \<Rightarrow> db \<Rightarrow> bool" where
  "working e cfg K j i p s \<longleftrightarrow> 0 < jd_max_tasks (c_job_defaults cfg) \<and> work_left cfg s \<le> p \<and> settled_or_pending K s \<and>
     (\<forall>t \<in> set (tasks s). t_status t = TaskStatusProcessing \<longrightarrow> t_id t = i \<or> orphan e cfg t) \<and>
     (\<exists>t \<in> set (tasks s). t_status t = TaskStatusProcessing \<and> t_id t = i \<and> t_job t = j)"

lemmas drain_defs = work_left_def places_left_def settled_or_pending_def job_pending_def

lemma drain_frame [simp]:
  "work_left cfg (s\<lparr>tick := n\<rparr>) = work_left cfg s" "settled_or_pending K (s\<lparr>tick := n\<rparr>) = settled_or_pending K s"
  "job_pending j (s\<lparr>tick := n\<rparr>) = job_pending j s"
  "between e cfg K p (s\<lparr>tick := n\<rparr>) = between e cfg K p s"
  by (simp_all add: drain_defs between_def)

lemma working_cong: "jobs s = jobs s' \<Longrightarrow> tasks s = tasks s' \<Longrightarrow> working e cfg K j i p s = working e cfg K j i p s'"
  by (simp add: working_def drain_defs)

lemma working_simps [simp]:
  "working e cfg K j i p (s\<lparr>tick := n\<rparr>) = working e cfg K j i p s" "working e cfg K j i p (s\<lparr>task_seq := n\<rparr>) = working e cfg K j i p s"
  "working e cfg K j i p (s\<lparr>doc_seq := k\<rparr>) = working e cfg K j i p s" "working e cfg K j i p (s\<lparr>map_seq := k\<rparr>) = working e cfg K j i p s"
  "working e cfg K j i p (s\<lparr>mapped_urls := ms\<rparr>) = working e cfg K j i p s"
  "working e cfg K j i p (s\<lparr>documents := ds\<rparr>) = working e cfg K j i p s"
  "working e cfg K j i p (s\<lparr>dedupe_cache := c\<rparr>) = working e cfg K j i p s"
  "working e cfg K j i p (rollback s s') = working e cfg K j i p s"
  by (rule working_cong; simp add: rollback_def)+

lemma working_exec:
  "(\<And>now. keeps (working e cfg K j i p) (body now)) \<Longrightarrow> keeps (working e cfg K j i p) (exec e c body)"
  by (rule keeps_exec) (simp_all add: tick_free_def)

lemma working_update_job:
  assumes "j' \<notin> K" and "\<And>jb. j_id (f jb) = j_id jb" and "working e cfg K j i p s"
  shows "working e cfg K j i p (update_job j' f s)"
proof -
  have "map j_id (jobs (update_job j' f s)) = map j_id (jobs s)" using assms(2) by (simp add: update_job_def)
  moreover have "tasks (update_job j' f s) = tasks s" by (simp add: update_job_def)
  moreover have "settled_or_pending K (update_job j' f s)"
  proof -
    have "job_pending k (update_job j' f s) = job_pending k s" for k by (simp add: job_pending_def update_job_def)
    moreover have "jb \<in> set (jobs s)" if "jb \<in> set (jobs (update_job j' f s))" "j_id jb \<in> K" for jb
      using that assms(1,2) by (auto simp: update_job_def split: if_splits)
    ultimately show ?thesis using assms(3) by (simp add: working_def settled_or_pending_def)
  qed
  ultimately show ?thesis using assms(3) by (simp add: working_def work_left_def places_left_def)
qed

lemma job_size_map: "(\<And>t. t_job (f t) = t_job t) \<Longrightarrow> job_size j (s\<lparr>tasks := map f (tasks s)\<rparr>) = job_size j s"
  by (simp add: filter_map o_def)

lemma working_map_tasks:
  assumes "\<And>t. t_id (f t) = t_id t" and "\<And>t. t_job (f t) = t_job t" and "\<And>t. t_status (f t) = t_status t"
    and "\<And>t. t_attempts (f t) = t_attempts t" and "\<And>t. t_heartbeat_at (f t) = t_heartbeat_at t" and "working e cfg K j i p s"
  shows "working e cfg K j i p (s\<lparr>tasks := map f (tasks s)\<rparr>)"
proof -
  let ?s = "s\<lparr>tasks := map f (tasks s)\<rparr>"
  have "attempts_left m (f t) = attempts_left m t" for m t using assms(3,4) by (simp add: attempts_left_def)
  then have "work_left cfg ?s = work_left cfg s"
    using assms(2) by (simp add: work_left_def places_left_def filter_map o_def)
  moreover have "job_pending k ?s = job_pending k s" for k using assms(2,3) by (simp add: job_pending_def)
  then have "settled_or_pending K ?s = settled_or_pending K s" by (simp add: settled_or_pending_def)
  moreover have "orphan e cfg (f t) = orphan e cfg t" for t using assms(5) by (simp add: orphan_def)
  ultimately show ?thesis using assms(1-3,6) by (simp add: working_def)
qed

text \<open>A row of the job \<open>j\<close> takes one of its free places: the work that is left stays the same.\<close>

lemma places_left_add:
  assumes "job_exists j s" and "t_job r = j" and "job_size j s < limit"
  shows "places_left limit s = Suc (places_left limit (s\<lparr>tasks := tasks s @ [r]\<rparr>))"
proof -
  let ?K = "set (map j_id (jobs s))" and ?s = "s\<lparr>tasks := tasks s @ [r]\<rparr>"
  have j: "j \<in> ?K" using assms(1) by (simp only: job_exists_def)
  have "(\<Sum>k \<in> ?K - {j}. nat (limit - job_size k s)) = (\<Sum>k \<in> ?K - {j}. nat (limit - job_size k ?s))"
    by (rule sum.cong) (use assms(2) in auto)
  moreover have "nat (limit - job_size j s) = Suc (nat (limit - job_size j ?s))" using assms(2,3) by auto
  moreover have "(\<Sum>k \<in> ?K. f k) = f j + (\<Sum>k \<in> ?K - {j}. f k)" for f :: "string \<Rightarrow> nat"
    using j by (intro sum.remove) simp_all
  moreover have "places_left limit ?s = (\<Sum>k \<in> ?K. nat (limit - job_size k ?s))" by (simp add: places_left_def)
  ultimately show ?thesis by (simp only: places_left_def add_Suc)
qed

lemma working_task_row:
  assumes "working e cfg K j i p s" and "t_status t = TaskStatusQueued" and "job_size j s < jd_max_tasks (c_job_defaults cfg)"
  shows "working e cfg K j i p (snd (insert_task_row e c j t s))"
proof -
  have new: "working e cfg K j i p (s\<lparr>tick := n, task_seq := q, tasks := tasks s @ [r]\<rparr>)"
    if "job_exists j s" "t_job r = j" "t_attempts r = 0" "t_status r = TaskStatusQueued" for n q r
  proof -
    let ?s = "s\<lparr>tasks := tasks s @ [r]\<rparr>"
    have "work_left cfg ?s = work_left cfg s"
      using places_left_add [OF that(1,2) assms(3)] that(3,4) by (simp add: work_left_def attempts_left_def)
    moreover have "settled_or_pending K ?s" using assms(1) by (fastforce simp: working_def settled_or_pending_def job_pending_def)
    ultimately have "working e cfg K j i p ?s" using assms(1) that(4) by (auto simp: working_def)
    then show ?thesis using working_cong [of "s\<lparr>tick := n, task_seq := q, tasks := tasks s @ [r]\<rparr>" ?s] by simp
  qed
  have "working e cfg K j i p (s\<lparr>tick := n, task_seq := q\<rparr>)" for n q
    using assms(1) working_cong [of s "s\<lparr>tick := n, task_seq := q\<rparr>"] by simp
  then show ?thesis using assms(1,2) by (auto simp: insert_task_row_def exec_def Let_def new split: option.splits)
qed

interpretation working: task_laws "working e cfg (K - {j}) j i p" e cfg j i "\<lambda>_. True" for cfg K j i p e
proof
  fix s c and u :: task
  assume "working e cfg (K - {j}) j i p s" "t_status u = TaskStatusQueued"
    "jd_max_tasks (c_job_defaults cfg) > 0 \<Longrightarrow> job_size j s < jd_max_tasks (c_job_defaults cfg)"
  then show "working e cfg (K - {j}) j i p (snd (insert_task_row e c j u s))"
    by (intro working_task_row) (simp_all add: working_def)
next
  show "keeps (working e cfg (K - {j}) j i p) (update_task_final_url e i url)" for url
    unfolding update_task_final_url_def
    by (rule working_exec, rule keeps_then, rule working_map_tasks) (auto simp: set_final_url_def)
  show "keeps (working e cfg (K - {j}) j i p) (insert_document e d)" for d
    unfolding insert_document_def by (rule working_exec, rule keepsI) (auto simp: Let_def)
  show "keeps (working e cfg (K - {j}) j i p) (insert_mapped_row e c r)" for c r
    unfolding insert_mapped_row_def by (rule working_exec, rule keepsI) (auto simp: Let_def)
qed (auto simp: start_job_def update_job_status_def mark_canonical_def intro!: working_exec keeps_then working_update_job)

section \<open>One round\<close>

definition no_locks :: "env \<Rightarrow> bool" where
  "no_locks e \<longleftrightarrow> (\<forall>n i. \<not> row_locked e n i)"

lemma dequeue_idle:
  assumes "no_faults e" and "no_locks e" and "dequeue_task e lease s = (Inl err, s')"
  shows "s' = s\<lparr>tick := tick s + 2\<rparr> \<and> (\<forall>t \<in> set (tasks s). \<not> claimable (go_now e (tick s) - lease) t)"
proof -
  let ?s = "s\<lparr>tick := Suc (Suc (tick s))\<rparr>"
  have "claim_candidates (\<lambda>_. False) (go_now e (tick s) - lease) ?s = [] \<and> s' = ?s"
  proof -
    have "row_locked e n = (\<lambda>_. False)" for n using assms(2) by (simp add: no_locks_def fun_eq_iff)
    then show ?thesis using assms(1,3)
      by (auto simp: dequeue_task_def read_clock_def exec_no_faults Let_def split: list.splits)
  qed
  then show ?thesis by (auto simp: claim_candidates_Nil)
qed

text \<open>The update of the task \<open>t0\<close>, the only row with its id.\<close>

lemma sum_list_update_one:
  fixes h :: "'a \<Rightarrow> nat"
  assumes "distinct (map k xs)" and "x \<in> set xs"
  shows "sum_list (map h (map (\<lambda>y. if k y = k x then f y else y) xs)) + h x = sum_list (map h xs) + h (f x)"
  using assms
proof (induction xs)
  case Nil
  then show ?case by simp
next
  case (Cons y ys)
  show ?case
  proof (cases "k y = k x")
    case True
    then have "x = y" using Cons.prems by (force simp: image_iff)
    moreover have "map (\<lambda>z. if k z = k x then f z else z) ys = ys"
      using Cons.prems(1) True by (intro map_idI) (auto simp: image_iff)
    ultimately show ?thesis by (simp add: o_def)
  next
    case False
    then show ?thesis using Cons by (auto simp: o_def)
  qed
qed

lemma work_left_update:
  assumes "distinct (map t_id (tasks s))" and "t0 \<in> set (tasks s)" and "\<And>t. t_job (f t) = t_job t"
  shows "work_left cfg (update_task (t_id t0) f s) + attempts_left (wc_max_retries (c_worker cfg)) t0 =
    work_left cfg s + attempts_left (wc_max_retries (c_worker cfg)) (f t0)"
proof -
  let ?s = "update_task (t_id t0) f s" and ?h = "attempts_left (wc_max_retries (c_worker cfg))"
  have "t_job (if b then f t else t) = t_job t" for b t using assms(3) by simp
  then have "job_size j ?s = job_size j s" for j by (simp add: update_task_def filter_map o_def)
  then have "places_left limit ?s = places_left limit s" for limit by (simp add: places_left_def update_task_def)
  then show ?thesis using sum_list_update_one [OF assms(1,2), of ?h f]
    by (simp add: work_left_def update_task_def)
qed

lemma settled_update:
  assumes "settled_or_pending K s" and "\<And>t. t_job (f t) = t_job t" and "t \<in> set (tasks s)"
    and "\<And>u. u \<in> set (tasks s) \<Longrightarrow> t_id u = t_id t \<Longrightarrow> u = t"
    and "t_job t \<in> K \<Longrightarrow> t_status (f t) \<in> {TaskStatusQueued, TaskStatusProcessing}"
  shows "settled_or_pending K (update_task (t_id t) f s)"
proof -
  have "job_pending k (update_task (t_id t) f s)" if "job_pending k s" "k \<in> K" for k
  proof -
    obtain u where u: "u \<in> set (tasks s)" "t_job u = k" "t_status u \<in> {TaskStatusQueued, TaskStatusProcessing}"
      using \<open>job_pending k s\<close> by (auto simp: job_pending_def)
    show ?thesis
    proof (cases "t_id u = t_id t")
      case True
      then show ?thesis using u assms that(2) unfolding job_pending_def update_task_def
        by (intro bexI [of _ "f t"]) force+
    next
      case False
      then show ?thesis using u unfolding job_pending_def update_task_def by (intro bexI [of _ u]) force+
    qed
  qed
  then show ?thesis using assms(1) by (auto simp: settled_or_pending_def update_task_def)
qed

lemma dequeue_working:
  assumes "db_inv s" and "between e cfg K p s" and "dequeue_task e lease s = (Ok t, s')"
  shows "working e cfg K (t_job t) (t_id t) p s'"
proof -
  define now where "now = pg_now e (Suc (tick s))"
  let ?s = "s\<lparr>tick := tick s + 2\<rparr>"
  obtain t0 where t0: "t0 \<in> set (tasks s)" "t = claim now t0" "claimable (go_now e (tick s) - lease) t0"
    and s': "s' = update_task (t_id t0) (claim now) ?s"
    using dequeue_Ok [OF assms(3)] unfolding now_def by blast
  have ids: "distinct (map t_id (tasks s))" using assms(1) by (simp add: db_inv_defs serial_ok_def)
  have one: "u = t0" if "u \<in> set (tasks s)" "t_id u = t_id t0" for u
    using distinct_map_inj_on_key [OF ids that(1) t0(1) that(2)] .
  have "attempts_left m (claim now t0) = attempts_left m t0" for m
    using t0(3) by (auto simp: attempts_left_def claim_def claimable_def)
  then have "work_left cfg s' \<le> p"
    using work_left_update [of ?s t0 "claim now" cfg] ids t0(1) assms(2) by (simp add: s' claim_def between_def)
  moreover have "settled_or_pending K s'"
    unfolding s' by (rule settled_update) (use assms(2) t0(1) one in \<open>auto simp: between_def claim_def\<close>)
  moreover have "t_status u = TaskStatusProcessing \<longrightarrow> t_id u = t_id t0 \<or> orphan e cfg u" if "u \<in> set (tasks s')" for u
    using that assms(2) by (auto simp: s' update_task_def between_def claim_def split: if_splits)
  moreover have "t \<in> set (tasks s')" using t0 by (force simp: s' update_task_def)
  ultimately show ?thesis using assms(2) t0(2)
    unfolding working_def by (intro conjI bexI [of _ t]) (auto simp: claim_def between_def)
qed

lemma settle_between:
  assumes "no_faults e" and "db_inv (w_db w)" and "working e cfg (K - {j}) j (t_id t) p (w_db w)" and "t_job t = j"
    and "held_attempts (wc_max_retries (c_worker cfg)) (t_id t) (t_attempts t) (w_db w)"
    and "t_attempts t \<le> wc_max_retries (c_worker cfg)"
  shows "0 < p \<and> between e cfg (K - {j}) (p - 1) (w_db (snd (settle_task e nt cfg t r w)))"
proof -
  define m where "m = wc_max_retries (c_worker cfg)"
  obtain t0 where t0: "t0 \<in> set (tasks (w_db w))" "t_status t0 = TaskStatusProcessing" "t_id t0 = t_id t" "t_job t0 = j"
    using assms(3) by (auto simp: working_def)
  have ids: "distinct (map t_id (tasks (w_db w)))" using assms(2) by (simp add: db_inv_defs serial_ok_def)
  have one: "u = t0" if "u \<in> set (tasks (w_db w))" "t_id u = t_id t0" for u
    using distinct_map_inj_on_key [OF ids that(1) t0(1) that(2)] .
  have a: "t_attempts t0 = t_attempts t" "t_attempts t0 \<le> m" using assms(5,6) t0 by (auto simp: held_attempts_def m_def)
  have upd: "0 < p \<and> between e cfg (K - {j}) (p - 1) (w_db (ignoring (on_db (exec e Pool (\<lambda>now s. (Ok (), update_task (t_id t) (g now) s)))) w))"
    if "\<And>now t. t_job (g now t) = t_job t" and "\<And>now t. t_status (g now t) \<noteq> TaskStatusProcessing"
      and "\<And>now. attempts_left m (g now t0) < attempts_left m t0" for g
  proof -
    define f where "f = g (pg_now e (tick (w_db w)))"
    have s': "w_db (ignoring (on_db (exec e Pool (\<lambda>now s. (Ok (), update_task (t_id t) (g now) s)))) w) =
        (update_task (t_id t0) f (w_db w))\<lparr>tick := Suc (tick (w_db w))\<rparr>"
      using assms(1) t0(3) by (simp add: ignoring_def on_db_def exec_no_faults stmt_now_def f_def)
    have "work_left cfg (update_task (t_id t0) f (w_db w)) < work_left cfg (w_db w)"
      using work_left_update [OF ids t0(1), of f cfg] that(1) that(3) [of "pg_now e (tick (w_db w))"]
      unfolding f_def m_def by simp
    moreover have "work_left cfg (w_db w) \<le> p" using assms(3) by (simp add: working_def)
    moreover have "settled_or_pending (K - {j}) (update_task (t_id t0) f (w_db w))"
    proof (rule settled_update)
      show "settled_or_pending (K - {j}) (w_db w)" using assms(3) by (simp add: working_def)
    qed (use that(1) t0(1,4) in \<open>simp_all add: f_def one\<close>)
    moreover have "t_status u = TaskStatusProcessing \<longrightarrow> orphan e cfg u" if u: "u \<in> set (tasks (update_task (t_id t0) f (w_db w)))" for u
    proof -
      obtain v where "v \<in> set (tasks (w_db w))" "u = (if t_id v = t_id t0 then f v else v)"
        using u by (auto simp: update_task_def)
      then show ?thesis using \<open>\<And>now t. t_status (g now t) \<noteq> TaskStatusProcessing\<close> assms(3) t0(3)
        by (cases "t_id v = t_id t0") (auto simp: working_def f_def)
    qed
    ultimately show ?thesis unfolding s' using assms(3) by (auto simp: between_def working_def)
  qed
  have less: "attempts_left m t' < attempts_left m t0"
    if "t_status t' \<in> {TaskStatusDone, TaskStatusFailed} \<or> t_attempts t' = t_attempts t0 + 1" for t'
    using that t0(2) a by (auto simp: attempts_left_def)
  have "0 < p \<and> between e cfg (K - {j}) (p - 1) (w_db (ignoring (on_db (complete_task e (t_id t))) w))"
    unfolding complete_task_def by (rule upd) (simp_all add: less)
  moreover have "0 < p \<and> between e cfg (K - {j}) (p - 1) (w_db (ignoring (on_db (fail_task e (t_id t) msg)) w))" for msg
    unfolding fail_task_def by (rule upd) (simp_all add: less)
  moreover have "0 < p \<and> between e cfg (K - {j}) (p - 1) (w_db (ignoring (on_db (retry_task e (t_id t) msg)) w))" for msg
    unfolding retry_task_def by (rule upd) (simp_all add: less)
  ultimately show ?thesis by (cases r) (simp_all add: settle_task_def Let_def)
qed

lemma finish_between:
  assumes "no_faults e" and "between e cfg (K - {j}) p (w_db w)"
  shows "between e cfg K p (w_db (ignoring (on_db (finish_job e j)) w))"
proof -
  have s': "w_db (ignoring (on_db (finish_job e j)) w) = snd (finish_job e j (w_db w))"
    by (simp add: ignoring_def on_db_snd)
  show ?thesis
  proof (cases "job_pending j (w_db w)")
    case True
    then have "settled_or_pending K (w_db w)" using assms(2) by (fastforce simp: between_def settled_or_pending_def)
    then show ?thesis using True assms(2) by (simp add: s' finish_job_no_faults [OF assms(1)] between_def)
  next
    case False
    define f where "f = finished (if job_has_failed j (w_db w) then JobStatusCompletedWithErrors else JobStatusCompleted)
      (pg_now e (tick (w_db w) + 2))"
    let ?s = "update_job j f (w_db w)"
    have f: "j_id (f jb) = j_id jb" "j_status (f jb) \<in> {JobStatusCompleted, JobStatusCompletedWithErrors}" for jb
      by (auto simp: f_def finished_def)
    have "map j_id (jobs ?s) = map j_id (jobs (w_db w))" using f(1) by (simp add: update_job_def)
    then have "work_left cfg ?s = work_left cfg (w_db w)"
      by (simp add: work_left_def places_left_def update_job_def)
    moreover have "settled_or_pending K ?s"
      using assms(2) f by (fastforce simp: between_def settled_or_pending_def job_pending_def update_job_def)
    ultimately have "between e cfg K p ?s" using assms(2) by (simp add: between_def update_job_def)
    then show ?thesis using False by (simp add: s' finish_job_no_faults [OF assms(1)] f_def)
  qed
qed

definition queue_empty :: "db \<Rightarrow> bool" where
  "queue_empty s \<longleftrightarrow> (\<forall>t \<in> set (tasks s). t_status t \<notin> {TaskStatusQueued, TaskStatusProcessing})"

lemma round_between:
  assumes "no_faults e" and "no_locks e" and "db_inv (w_db w)" and "0 \<le> wc_max_retries (c_worker cfg)"
    and "\<forall>t \<in> set (tasks (w_db w)). attempts_ok (wc_max_retries (c_worker cfg)) t" and "between e cfg K p (w_db w)"
  shows "(\<exists>q < p. between e cfg K q (w_db (snd (worker_round e nt cfg w))) \<and> \<not> queue_empty (w_db w))
    \<or> (between e cfg K p (w_db (snd (worker_round e nt cfg w))) \<and> queue_empty (w_db (snd (worker_round e nt cfg w)))
       \<and> queue_empty (w_db w))"
proof -
  obtain r w1 where d: "on_db (dequeue_task e (wc_lease_timeout (c_worker cfg))) w = (r, w1)"
    by (cases "on_db (dequeue_task e (wc_lease_timeout (c_worker cfg))) w")
  note dq = conjunct1 [OF on_db_eq [OF d]]
  show ?thesis
  proof (cases r)
    case (Inl err)
    have idle: "\<not> claimable (go_now e (tick (w_db w)) - wc_lease_timeout (c_worker cfg)) t" if "t \<in> set (tasks (w_db w))" for t
      using dequeue_idle [OF assms(1,2)] dq Inl that by blast
    have "queue_empty (w_db w)"
      unfolding queue_empty_def
    proof
      fix t assume t: "t \<in> set (tasks (w_db w))"
      have "t_status t = TaskStatusProcessing \<longrightarrow> orphan e cfg t" using assms(6) t by (simp add: between_def)
      then show "t_status t \<notin> {TaskStatusQueued, TaskStatusProcessing}"
        using idle [OF t] by (auto simp: claimable_def orphan_def split: option.splits)
    qed
    moreover have "w_db w1 = (w_db w)\<lparr>tick := tick (w_db w) + 2\<rparr>" using dequeue_idle [OF assms(1,2)] dq Inl by blast
    ultimately show ?thesis using d Inl assms(6) by (simp add: worker_round_def queue_empty_def)
  next
    case (Inr t)
    obtain r2 w2 where h: "handle_task e nt cfg t w1 = (r2, w2)" by (cases "handle_task e nt cfg t w1")
    note inv1 = keepsD [OF keeps_on_db [OF tables.dequeues], OF assms(3), of e "wc_lease_timeout (c_worker cfg)"]
    have a: "t_attempts t \<le> wc_max_retries (c_worker cfg)"
      "held_attempts (wc_max_retries (c_worker cfg)) (t_id t) (t_attempts t) (w_db w1)"
      using dequeue_attempts [OF dq assms(3-5)] Inr by simp_all
    have "working e cfg K (t_job t) (t_id t) p (w_db w1)"
      using dequeue_working [OF assms(3,6)] dq Inr by simp
    then have "working e cfg (K - {t_job t}) (t_job t) (t_id t) p (w_db w1)" by (simp add: working_def settled_or_pending_def)
    from keepsD [OF working.keeps_handle_task [where t = t and nt = nt and cfg = cfg and e = e, OF refl refl] this] h
    have 2: "working e cfg (K - {t_job t}) (t_job t) (t_id t) p (w_db w2)" by simp
    from keepsD [OF held.keeps_handle_task [where t = t and nt = nt and cfg = cfg and e = e, OF refl refl] a(2)] h
    have 3: "held_attempts (wc_max_retries (c_worker cfg)) (t_id t) (t_attempts t) (w_db w2)" by simp
    from keepsD [OF tables.of_task.keeps_handle_task [where t = t and nt = nt and cfg = cfg and e = e, OF refl refl]] inv1 d h
    have 4: "db_inv (w_db w2)" by (metis snd_conv)
    note settled = settle_between [OF assms(1) 4 2 refl 3 a(1), of nt r2]
    have "\<not> queue_empty (w_db w)"
    proof -
      obtain t0 th where "t0 \<in> set (tasks (w_db w))" "claimable th t0"
        using dequeue_Ok [OF dq [unfolded Inr]] by blast
      then show ?thesis by (auto simp: queue_empty_def claimable_def)
    qed
    with settled show ?thesis using finish_between [OF assms(1) conjunct2 [OF settled]] d Inr h
      by (intro disjI1 exI [of _ "p - 1"]) (auto simp: worker_round_def split: prod.splits)
  qed
qed

lemma run_between:
  assumes "no_faults e" and "no_locks e" and "0 \<le> wc_max_retries (c_worker cfg)" and "db_inv (w_db w)"
    and "\<forall>t \<in> set (tasks (w_db w)). attempts_ok (wc_max_retries (c_worker cfg)) t"
    and "between e cfg K p (w_db w)" and "p \<le> n \<or> queue_empty (w_db w)"
  shows "\<exists>q. between e cfg K q (w_db (run_worker e nt cfg n w)) \<and> queue_empty (w_db (run_worker e nt cfg n w))"
  using assms(4-7)
proof (induction n arbitrary: w p)
  case 0
  have "queue_empty (w_db w)" if "between e cfg K 0 (w_db w)"
  proof -
    have "attempts_left (wc_max_retries (c_worker cfg)) t = 0" if "t \<in> set (tasks (w_db w))" for t
      using \<open>between e cfg K 0 (w_db w)\<close> that by (simp add: between_def work_left_def)
    then show ?thesis using 0(2) by (fastforce simp: queue_empty_def attempts_left_def attempts_ok_def split: if_splits)
  qed
  then show ?case using 0 by auto
next
  case (Suc n)
  let ?w = "snd (worker_round e nt cfg w)"
  note r = round_between [OF assms(1,2) Suc.prems(1) assms(3) Suc.prems(2,3), of nt]
  note IH = Suc.IH [OF tables.round_keeps [OF Suc.prems(1)] round_attempts [OF Suc.prems(1) assms(3) Suc.prems(2)]]
  obtain q where "between e cfg K q (w_db ?w)" "q \<le> n \<or> queue_empty (w_db ?w)"
    using r Suc.prems(4) by (metis less_Suc_eq_le order_less_le_trans)
  from IH [OF this] show ?case by simp
qed

section \<open>The queue runs empty\<close>

lemma queue_runs_empty:
  assumes "no_faults e" and "no_locks e" and "0 < jd_max_tasks (c_job_defaults cfg)"
    and "0 \<le> wc_max_retries (c_worker cfg)" and "db_inv (w_db w)"
    and "\<forall>t \<in> set (tasks (w_db w)). attempts_ok (wc_max_retries (c_worker cfg)) t \<and> (t_status t = TaskStatusProcessing \<longrightarrow> orphan e cfg t)"
    and "work_left cfg (w_db w) \<le> n"
  shows "queue_empty (w_db (run_worker e nt cfg n w)) \<and>
    (\<forall>jb \<in> set (jobs (w_db (run_worker e nt cfg n w))). job_pending (j_id jb) (w_db w) \<longrightarrow>
       j_status jb \<in> {JobStatusCompleted, JobStatusCompletedWithErrors})"
proof -
  define K where "K = {j. job_pending j (w_db w)}"
  have "between e cfg K n (w_db w)"
    using assms(3,6,7) by (auto simp: between_def settled_or_pending_def K_def)
  with run_between [OF assms(1,2,4,5), of K n n nt] assms(6) obtain q where
    "between e cfg K q (w_db (run_worker e nt cfg n w))" and empty: "queue_empty (w_db (run_worker e nt cfg n w))"
    by auto
  then have "settled_or_pending K (w_db (run_worker e nt cfg n w))" by (simp add: between_def)
  moreover have "\<not> job_pending j (w_db (run_worker e nt cfg n w))" for j
    using empty by (auto simp: queue_empty_def job_pending_def)
  ultimately show ?thesis using empty by (auto simp: settled_or_pending_def K_def)
qed

text \<open>A worker that runs alone, over a database whose statements succeed, empties the queue: with a task limit
  and \<open>max_retries\<close>, \<open>work_left\<close> rounds are enough, whatever the servers, browsers and robots.txt files
  answer, and whatever tasks a dead worker has left behind, once their leases are over.  Then, and in every later
  round, no task is queued or processing, and every job that had a pending task at the start is completed, with or
  without errors.\<close>

theorem worker_empties_queue:
  assumes "no_faults e" and "no_locks e" and "0 < jd_max_tasks (c_job_defaults cfg)"
    and "0 \<le> wc_max_retries (c_worker cfg)" and "db_inv (w_db w)"
    and "\<forall>t \<in> set (tasks (w_db w)). attempts_ok (wc_max_retries (c_worker cfg)) t \<and> (t_status t = TaskStatusProcessing \<longrightarrow> orphan e cfg t)"
    and "work_left cfg (w_db w) \<le> n"
  shows "queue_empty (w_db (run_worker e nt cfg n w)) \<and>
    (\<forall>jb \<in> set (jobs (w_db (run_worker e nt cfg n w))). job_pending (j_id jb) (w_db w) \<longrightarrow>
       j_status jb \<in> {JobStatusCompleted, JobStatusCompletedWithErrors})"
  using assms by (rule queue_runs_empty)

theorem worker_empties_queue_witness:
  "queue_empty (w_db (run_worker demo_env demo_net (default_config\<lparr>c_job_defaults := (c_job_defaults default_config)\<lparr>jd_max_tasks := 5\<rparr>\<rparr>)
     20 (demo_site ''http://h.org/'' 0)))"
  (is "queue_empty (w_db (run_worker _ _ ?cfg _ ?w))")
proof -
  have "work_left ?cfg (w_db ?w) = 20" by code_simp
  moreover have "no_locks demo_env" by (simp add: no_locks_def demo_env_def)
  moreover have "\<forall>t \<in> set (tasks (w_db ?w)). attempts_ok (wc_max_retries (c_worker ?cfg)) t \<and>
      (t_status t = TaskStatusProcessing \<longrightarrow> orphan demo_env ?cfg t)"
    by (simp add: demo_site_def demo_db_def demo_task_def attempts_ok_def default_config_def)
  moreover have "wc_max_retries (c_worker ?cfg) = 3" by (simp add: default_config_def)
  ultimately show ?thesis
    using worker_empties_queue [OF demo_no_faults, of ?cfg ?w 20 demo_net] demo_site_inv by simp
qed

text \<open>\<open>FinishJob\<close> does not look at the status of the job: a job that was cancelled because it exceeded
  \<open>max_duration\<close> ends as completed, with errors or without, after the round that cancelled it.\<close>

lemma finish_overwrites_cancelled:
  assumes "no_faults e" and "\<not> job_pending j s" and "jb \<in> set (jobs (snd (finish_job e j s)))" and "j_id jb = j"
  shows "j_status jb \<in> {JobStatusCompleted, JobStatusCompletedWithErrors}"
proof -
  define f where "f = finished (if job_has_failed j s then JobStatusCompletedWithErrors else JobStatusCompleted) (pg_now e (tick s + 2))"
  have f: "j_status (f b) \<in> {JobStatusCompleted, JobStatusCompletedWithErrors}" for b by (simp add: f_def finished_def)
  have "jobs (snd (finish_job e j s)) = map (\<lambda>b. if j_id b = j then f b else b) (jobs s)"
    using assms(2) by (simp add: finish_job_no_faults [OF assms(1)] f_def update_job_def)
  then have "jb \<in> (\<lambda>b. if j_id b = j then f b else b) ` set (jobs s)" using assms(3) by simp
  then obtain b where "jb = (if j_id b = j then f b else b)" by (rule imageE)
  then show ?thesis using f assms(4) by (cases "j_id b = j") auto
qed

end
