(* ===== verification/TeamRecovery.thy ===== *)
theory TeamRecovery
  imports TeamTasks Draining
begin

text \<open>
  Recovery: whatever state a team has reached, if all its workers die, a single new worker finishes all the work once the
  leases of the dead ones are over.
\<close>

section \<open>All workers die\<close>

lemma finitely_many_busy: "team_reachable cfg timely y \<Longrightarrow> finite {k. tm_work y k \<noteq> Free}"
proof (induction rule: team_reachable.induct)
  case start
  then show ?case by (simp add: team_start_def)
next
  case (step y y')
  have "finite {i. tm_work (puts k x w y) i \<noteq> Free}" for k x w
    by (rule finite_subset [OF _ finite.insertI [OF step.IH, of k]]) auto
  with step.hyps(2) step.IH show ?case by (cases rule: team_step_cases) (auto simp: with_db_def)
qed

definition deserted :: "team \<Rightarrow> team" where
  "deserted y = y\<lparr>tm_work := (\<lambda>_. Free)\<rparr>"

lemma all_crash:
  assumes "finite K" and "\<And>k. k \<notin> K \<Longrightarrow> tm_work y k = Free"
  shows "(team_step cfg timely)\<^sup>*\<^sup>* y (deserted y)"
  using assms
proof (induction K arbitrary: y)
  case empty
  then have "deserted y = y" by (simp add: deserted_def fun_eq_iff)
  then show ?case by simp
next
  case (insert k K)
  let ?y = "puts k Free (tm_world y) y"
  have "deserted ?y = deserted y" by (simp add: deserted_def puts_def)
  moreover have "(team_step cfg timely)\<^sup>*\<^sup>* ?y (deserted ?y)" using insert.prems by (intro insert.IH) auto
  moreover have "team_step cfg timely y ?y" by (rule team_step.quiet [OF quiet_step.crash])
  ultimately show ?case by (metis converse_rtranclp_into_rtranclp)
qed

section \<open>One worker goes on alone\<close>

definition with_world :: "world \<Rightarrow> team \<Rightarrow> team" where
  "with_world w y = y\<lparr>tm_world := w\<rparr>"

lemma lone_run:
  assumes "tm_work y = (\<lambda>_. Free)"
  shows "(team_step cfg timely)\<^sup>*\<^sup>* y (with_world (run_worker e nt cfg n (tm_world y)) y)"
  using assms
proof (induction n arbitrary: y)
  case 0
  then show ?case by (simp add: with_world_def)
next
  case (Suc n)
  let ?w = "snd (worker_round e nt cfg (tm_world y))"
  have free: "puts 0 Free ?w y = with_world ?w y"
    using Suc.prems by (cases y) (simp add: puts_def with_world_def fun_eq_iff)
  have "(team_step cfg timely)\<^sup>*\<^sup>* y (with_world ?w y)"
    unfolding free [symmetric] by (rule uninterrupted_round) (simp_all add: Suc.prems leases_live_def)
  also have "(team_step cfg timely)\<^sup>*\<^sup>* (with_world ?w y) (with_world (run_worker e nt cfg n ?w) (with_world ?w y))"
    using Suc.IH [of "with_world ?w y"] Suc.prems by (simp add: with_world_def)
  finally show ?case by (simp add: with_world_def)
qed

lemma attempts_of_phase: "0 \<le> m \<Longrightarrow> phase_attempts_ok m (phase_of t) \<Longrightarrow> attempts_ok m t"
  by (cases "t_status t") (auto simp: phase_of_def attempts_ok_def)



end
