(* ===== verification/Heartbeats.thy ===== *)
theory Heartbeats
  imports TeamSteps
begin

text \<open>
  When heartbeats are in time.  The theorems about a timely team assume that the rows of tasks at work carry fresh
  heartbeats whenever a worker claims; here this follows from the times at which heartbeats and claims succeed, so that the
  assumption is one about clocks and tickers, not about the tables.
\<close>

section \<open>Steps with the times of heartbeats\<close>

text \<open>
  Next to the team, the server's time of the last claim or successful heartbeat of every worker.  A worker looks for
  a task, by its own clock, only while for every worker at work this was at most \<open>D\<close> ago: the interval of the
  ticker, the delay of the statement and the difference of the clocks.  The server's clock does not run backwards.
\<close>

type_synonym beats = "nat \<Rightarrow> time"

definition recent :: "time \<Rightarrow> time \<Rightarrow> team \<Rightarrow> beats \<Rightarrow> bool" where
  "recent now D y b \<longleftrightarrow> (\<forall>k t th. tm_work y k = Handling t th \<longrightarrow> now - D \<le> b k)"

inductive punctual_step :: "config \<Rightarrow> time \<Rightarrow> team \<times> beats \<Rightarrow> team \<times> beats \<Rightarrow> bool" for cfg D where
  claim: "tm_work y k = Free \<Longrightarrow> recent (go_now e (tick (team_db y))) D y b \<Longrightarrow>
    on_db (dequeue_task e (wc_lease_timeout (c_worker cfg))) (tm_world y) = (Ok t, w) \<Longrightarrow>
    punctual_step cfg D (y, b) (puts k (Handling t (handle_thread e nt cfg t)) w y, b(k := pg_now e (Suc (tick (team_db y)))))"
| heartbeat: "tm_work y k \<in> {Handling t th, Finishing t th} \<Longrightarrow> (\<forall>i. b i \<le> pg_now e (tick (team_db y))) \<Longrightarrow>
    update_task_heartbeat e (t_id t) (team_db y) = (r, s) \<Longrightarrow>
    punctual_step cfg D (y, b) (with_db s y, if is_ok r then b(k := pg_now e (tick (team_db y))) else b)"
| quiet: "quiet_step cfg y y' \<Longrightarrow> punctual_step cfg D (y, b) (y', b)"

inductive punctual_reachable :: "config \<Rightarrow> time \<Rightarrow> team \<times> beats \<Rightarrow> bool" for cfg D where
  start: "punctual_reachable cfg D (team_start cfg, b)"
| step: "punctual_reachable cfg D z \<Longrightarrow> punctual_step cfg D z z' \<Longrightarrow> punctual_reachable cfg D z'"

section \<open>The rows of tasks at work are as fresh as their workers\<close>

definition fresh :: "db \<Rightarrow> (nat \<Rightarrow> work_state) \<Rightarrow> beats \<Rightarrow> bool" where
  "fresh s W b \<longleftrightarrow> (\<forall>k. \<forall>u \<in> set (tasks s). t_id u \<in> at_work (W k) \<longrightarrow> (\<exists>h. t_heartbeat_at u = Some h \<and> b k \<le> h))"

lemma fresh_live:
  assumes "fresh (team_db y) (tm_work y) b" and "recent (go_now e (tick (team_db y))) D y b"
    and "D \<le> wc_lease_timeout (c_worker cfg)"
  shows "leases_live e cfg y"
  unfolding leases_live_def
proof (intro allI impI ballI)
  fix k t th u
  assume k: "tm_work y k = Handling t th" and u: "u \<in> set (tasks (team_db y))" "t_id u = t_id t"
  then have "\<exists>h. t_heartbeat_at u = Some h \<and> b k \<le> h" using assms(1) unfolding fresh_def by (metis at_work_simps(2) insertI1)
  moreover have "go_now e (tick (team_db y)) - D \<le> b k" using assms(2) k unfolding recent_def by blast
  ultimately show "case t_heartbeat_at u of None \<Rightarrow> False
      | Some h \<Rightarrow> go_now e (tick (team_db y)) - wc_lease_timeout (c_worker cfg) \<le> h"
    using assms(3) by auto
qed

text \<open>Rows with ids outside \<open>X\<close> keep their heartbeats; others are new.\<close>

definition beats_kept :: "int set \<Rightarrow> db \<Rightarrow> db \<Rightarrow> bool" where
  "beats_kept X s s' \<longleftrightarrow> (\<forall>u' \<in> set (tasks s'). t_id u' \<in> X \<or> task_seq s < t_id u'
     \<or> (\<exists>u \<in> set (tasks s). t_id u = t_id u' \<and> t_heartbeat_at u = t_heartbeat_at u'))"

lemma fresh_kept:
  assumes "fresh s W b" and "beats_kept X s s'" and "\<And>k. at_work (W k) \<inter> X = {}"
    and "\<And>k i. i \<in> at_work (W k) \<Longrightarrow> i \<le> task_seq s"
  shows "fresh s' W b"
  unfolding fresh_def
proof (intro allI ballI impI)
  fix k u' assume u': "u' \<in> set (tasks s')" "t_id u' \<in> at_work (W k)"
  then have "t_id u' \<notin> X" "\<not> task_seq s < t_id u'" using assms(3,4) by fastforce+
  then obtain u where "u \<in> set (tasks s)" "t_id u = t_id u'" "t_heartbeat_at u = t_heartbeat_at u'"
    using assms(2) u'(1) unfolding beats_kept_def by blast
  then show "\<exists>h. t_heartbeat_at u' = Some h \<and> b k \<le> h" using assms(1) u'(2) unfolding fresh_def by metis
qed

lemma fresh_free: "fresh s W b \<Longrightarrow> fresh s (W(k := Free)) b"
  by (simp add: fresh_def)

lemma fresh_put: "fresh s (W(k := Free)) b \<Longrightarrow> at_work x = {} \<Longrightarrow> fresh s (W(k := x)) b"
  by (simp add: fresh_def)

lemma beats_kept_same: "tasks s' = tasks s \<Longrightarrow> beats_kept X s s'"
  by (auto simp: beats_kept_def)

lemma beats_kept_fewer: "set (tasks s') \<subseteq> set (tasks s) \<Longrightarrow> beats_kept X s s'"
  by (auto simp: beats_kept_def)

lemma beats_kept_later: "later_ids s s' \<Longrightarrow> beats_kept X s s'"
  by (auto simp: beats_kept_def later_ids_def)

lemma beats_kept_row: "(\<And>u. t_id (g u) = t_id u) \<Longrightarrow> beats_kept {i} s (update_task i g s)"
  by (auto simp: beats_kept_def update_task_def)

lemma beats_kept_work:
  assumes "keeps_to_job j s s'"
  shows "beats_kept X s s'"
  unfolding beats_kept_def
proof (intro ballI)
  fix u' assume "u' \<in> set (tasks s')"
  then obtain i where i: "i < length (tasks s')" "u' = tasks s' ! i" by (auto simp: in_set_conv_nth)
  obtain new beats where keys: "map row_key (tasks s') = map row_key (tasks s) @ new" "\<forall>k \<in> set new. task_seq s < fst k"
    and beats: "map t_heartbeat_at (tasks s') = map t_heartbeat_at (tasks s) @ beats"
    using assms unfolding keeps_to_job_def by blast
  have key: "row_key u' = (map row_key (tasks s) @ new) ! i" unfolding keys(1) [symmetric] using i by simp
  show "t_id u' \<in> X \<or> task_seq s < t_id u' \<or> (\<exists>u \<in> set (tasks s). t_id u = t_id u' \<and> t_heartbeat_at u = t_heartbeat_at u')"
  proof (cases "i < length (tasks s)")
    case True
    have "t_heartbeat_at u' = (map t_heartbeat_at (tasks s) @ beats) ! i" unfolding beats [symmetric] using i by simp
    then have "t_heartbeat_at (tasks s ! i) = t_heartbeat_at u'" "t_id (tasks s ! i) = t_id u'"
      using key True by (simp_all add: nth_append row_key_def)
    then show ?thesis using nth_mem [OF True] by blast
  next
    case False
    have "length (tasks s') = length (tasks s) + length new" using arg_cong [OF keys(1), of length] by simp
    then have "new ! (i - length (tasks s)) \<in> set new" using i(1) False by (intro nth_mem) simp
    then have "row_key u' \<in> set new" using key False by (simp add: nth_append)
    then show ?thesis using keys(2) by (auto simp: row_key_def)
  qed
qed

lemma beats_kept_settle:
  "beats_kept {t_id t} (w_db w) (w_db (snd (settle_task e nt cfg t r w)))"
proof -
  have "beats_kept {t_id t} (w_db w) (w_db (ignoring (on_db (exec e Pool (\<lambda>now s. (Ok (), update_task (t_id t) (g now) s)))) w))"
    if "\<And>now u. t_id (g now u) = t_id u" for g
    using beats_kept_row [of "g now" "t_id t" "w_db w" for now] that
    by (auto simp: ignoring_def on_db_snd exec_def Let_def update_task_def beats_kept_def split: option.splits)
  then show ?thesis
    by (cases r) (simp_all add: settle_task_def Let_def complete_task_def fail_task_def retry_task_def)
qed

lemma beats_kept_finish: "finish_stage seen j (Atom g) \<Longrightarrow> g w = (th, w') \<Longrightarrow> beats_kept X (w_db w) (w_db w')"
  by (erule (1) finish_step; rule beats_kept_same)
    (auto simp: pending_task_counts_def has_failed_tasks_def update_job_status_def exec_def Let_def update_job_def split: option.splits)

lemma work_is_old: "leases_ok y \<Longrightarrow> i \<in> at_work (tm_work y k) \<Longrightarrow> i \<le> task_seq (team_db y)"
proof -
  assume "leases_ok y" and i: "i \<in> at_work (tm_work y k)"
  then have "worker_ok (tm_book y) (team_db y) (tm_work y k)" by (simp add: leases_ok_def leased_def)
  then show ?thesis using i by (cases "tm_work y k") (auto simp: worker_ok_def held_def)
qed

text \<open>A step other than a claim or a heartbeat leaves the heartbeats of the tasks at work.\<close>

lemma fresh_quiet:
  assumes step: "quiet_step cfg y y'" and "team_ok cfg y" and "leases_ok y" and fresh: "fresh (team_db y) (tm_work y) b"
  shows "fresh (team_db y') (tm_work y') b"
proof -
  have sound: "sound cfg (tm_book y) (team_db y)" and inv: "db_inv (team_db y)"
    using assms(2) by (auto simp: team_ok_def sound_def)
  have L: "leased (tm_book y) (team_db y) (tm_work y)" using assms(3) by (simp add: leases_ok_def)
  have ok: "worker_ok (tm_book y) (team_db y) (tm_work y k)" for k using L by (simp add: leased_def)
  note old = work_is_old [OF assms(3)]
  note kept = fresh_kept [OF fresh _ _ old, where X = "{}", simplified]
  have kept_free: "fresh s ((tm_work y)(k := x)) b" if "beats_kept {} (team_db y) s" "at_work x = {}" for k x s
    using fresh_put [OF fresh_free [OF kept [OF that(1)]] that(2)] .
  from step show ?thesis
  proof cases
    case (no_claim k e err w)
    then obtain n where "w_db w = (team_db y)\<lparr>tick := n\<rparr>" using no_claim_same on_db_eq by blast
    then show ?thesis unfolding no_claim(1) by (simp add: kept_free beats_kept_same)
  next
    case (work k t f th w)
    have "obeys cfg (tm_book y) t (Atom f)" using assms(2) work(2) by (simp add: team_ok_def)
    from kept [OF beats_kept_work [OF obeys_step(3) [OF this sound work(3)]]]
    have "fresh (w_db w) (tm_work y) b" .
    moreover have "at_work (((tm_work y)(k := Handling t th)) i) = at_work (tm_work y i)" for i using work(2) by simp
    ultimately show ?thesis unfolding work(1) by (simp add: fresh_def)
  next
    case (settle k t r e nt x w)
    have apart: "at_work (((tm_work y)(k := Free)) i) \<inter> {t_id t} = {}" for i
    proof (cases "i = k")
      case False
      then have "at_work (tm_work y i) \<inter> at_work (tm_work y k) = {}" using L unfolding leased_def by blast
      then show ?thesis using False settle(2) by simp
    qed simp
    have "beats_kept {t_id t} (team_db y) (w_db w)"
      using beats_kept_settle [of t "tm_world y" e nt cfg r] by (simp add: settle(3))
    moreover have "i \<le> task_seq (team_db y)" if "i \<in> at_work (((tm_work y)(k := Free)) j)" for i j
      using that old by (cases "j = k") auto
    ultimately have "fresh (w_db w) ((tm_work y)(k := Free)) b" using fresh_kept [OF fresh_free [OF fresh] _ apart] by blast
    from fresh_put [OF this, of "Finishing t (finish_thread e (t_job t))"] show ?thesis unfolding settle(1) by simp
  next
    case (finish k t f th w)
    have "finish_stage (known (team_db y) (t_job t)) (t_job t) (Atom f)" using ok [of k] finish(2) by (simp add: worker_ok_def)
    from kept_free [OF beats_kept_finish [OF this finish(3)]] show ?thesis unfolding finish(1) by simp
  next
    case (finished k t r)
    then show ?thesis by (simp add: kept_free beats_kept_same)
  next
    case (crash k)
    then show ?thesis by (simp add: kept_free beats_kept_same)
  next
    case (request e dc p1 p2 p3 s)
    from request_effect [OF request(2) inv] have "beats_kept {} (team_db y) s" by (simp add: beats_kept_later)
    from kept [OF this] show ?thesis unfolding request(1) by simp
  next
    case (cancel e)
    have "tasks (snd (cancel_expired e (team_db y))) = tasks (team_db y)"
      by (auto simp: cancel_expired_def exec_def Let_def split: option.splits)
    then show ?thesis unfolding cancel by (simp add: ignoring_def kept beats_kept_same)
  next
    case (delete e)
    have "set (tasks (snd (delete_expired e (team_db y)))) \<subseteq> set (tasks (team_db y))"
      by (auto simp: delete_expired_def exec_def Let_def delete_jobs_def split: option.splits)
    then show ?thesis unfolding delete by (simp add: ignoring_def kept beats_kept_fewer)
  next
    case (robots rc)
    then show ?thesis using fresh by simp
  qed
qed

section \<open>Punctual workers are in time\<close>

lemma punctual_claim:
  assumes "on_db (dequeue_task e lease) (tm_world y) = (Ok t, w)" and "team_ok cfg y"
    and "fresh (team_db y) (tm_work y) b" and "leases_ok (puts k (Handling t th) w y)" and "leases_ok y"
  shows "fresh (w_db w) ((tm_work y)(k := Handling t th)) (b(k := pg_now e (Suc (tick (team_db y)))))"
proof -
  have dq: "dequeue_task e lease (team_db y) = (Ok t, w_db w)" using on_db_eq [OF assms(1)] by blast
  define now where "now = pg_now e (Suc (tick (team_db y)))"
  obtain t0 :: task where t0: "t = claim now t0" and s': "w_db w = update_task (t_id t0) (claim now) ((team_db y)\<lparr>tick := tick (team_db y) + 2\<rparr>)"
    using dequeue_Ok [OF dq] unfolding now_def by blast
  have id: "t_id t = t_id t0" by (simp add: t0 claim_def)
  have kept: "beats_kept {t_id t} (team_db y) (w_db w)"
    unfolding s' id using beats_kept_row [of "claim now" "t_id t0" "(team_db y)\<lparr>tick := tick (team_db y) + 2\<rparr>"]
    by (simp add: claim_def beats_kept_def)
  have L: "leased (tm_book y) (w_db w) ((tm_work y)(k := Handling t th))" using assms(4) by (simp add: leases_ok_def)
  have apart: "at_work (((tm_work y)(k := Free)) i) \<inter> {t_id t} = {}" for i
  proof (cases "i = k")
    case False
    then have "at_work (((tm_work y)(k := Handling t th)) i) \<inter> at_work (((tm_work y)(k := Handling t th)) k) = {}"
      using L unfolding leased_def by blast
    then show ?thesis using False by simp
  qed simp
  have "i \<le> task_seq (team_db y)" if "i \<in> at_work (((tm_work y)(k := Free)) j)" for i j
    using that work_is_old [OF assms(5)] by (cases "j = k") auto
  then have others: "fresh (w_db w) ((tm_work y)(k := Free)) b"
    using fresh_kept [OF fresh_free [OF assms(3)] kept apart] by blast
  have mine: "t_heartbeat_at u = Some now" if "u \<in> set (tasks (w_db w))" "t_id u = t_id t" for u
    using that unfolding s' id by (auto simp: update_task_def claim_def split: if_splits)
  show ?thesis unfolding fresh_def now_def [symmetric]
  proof (intro allI ballI impI)
    fix i u assume u: "u \<in> set (tasks (w_db w))" "t_id u \<in> at_work (((tm_work y)(k := Handling t th)) i)"
    show "\<exists>h. t_heartbeat_at u = Some h \<and> (b(k := now)) i \<le> h"
    proof (cases "i = k")
      case True
      then show ?thesis using mine [OF u(1)] u(2) by simp
    next
      case False
      then have "t_id u \<in> at_work (((tm_work y)(k := Free)) i)" using u(2) by simp
      then show ?thesis using others u(1) False unfolding fresh_def by (metis fun_upd_other)
    qed
  qed
qed

lemma punctual_heartbeat:
  assumes "fresh s W b" and "\<forall>i. b i \<le> pg_now e (tick s)" and "update_task_heartbeat e (t_id t) s = (r, s')"
    and "W k \<in> {Handling t th, Finishing t th}"
  shows "fresh s' W (if is_ok r then b(k := pg_now e (tick s)) else b)"
proof (cases "db_fault e (tick s)")
  case (Some msg)
  then have "\<not> is_ok r" "tasks s' = tasks s" using assms(3) by (auto simp: update_task_heartbeat_def exec_def is_ok_def)
  then show ?thesis using assms(1) by (simp add: fresh_def)
next
  case None
  let ?now = "pg_now e (tick s)"
  define g where "g u = (if t_id u = t_id t then u\<lparr>t_heartbeat_at := Some ?now, t_updated_at := ?now\<rparr> else u)" for u :: task
  have r: "is_ok r" and s': "tasks s' = map g (tasks s)"
    using assms(3) None by (auto simp: update_task_heartbeat_def exec_def is_ok_def update_task_def stmt_now_def Let_def g_def)
  have "\<exists>h. t_heartbeat_at u' = Some h \<and> (b(k := ?now)) i \<le> h" if u': "u' \<in> set (tasks s')" "t_id u' \<in> at_work (W i)" for i u'
  proof -
    obtain u where u: "u \<in> set (tasks s)" "u' = g u" using u'(1) unfolding s' by auto
    show ?thesis
    proof (cases "t_id u = t_id t")
      case True
      then show ?thesis using u(2) assms(2) by (simp add: g_def)
    next
      case False
      then have "u' = u" using u(2) by (simp add: g_def)
      moreover from this have "i \<noteq> k" using assms(4) u'(2) False by auto
      ultimately show ?thesis using assms(1) u(1) u'(2) unfolding fresh_def by simp
    qed
  qed
  then show ?thesis unfolding fresh_def using r by simp
qed

lemma punctual_step_timely:
  assumes "punctual_step cfg D (y, b) (y', b')" and "D \<le> wc_lease_timeout (c_worker cfg)"
    and ok: "team_ok cfg y" "leases_ok y" and fresh: "fresh (team_db y) (tm_work y) b"
  shows "team_step cfg True y y' \<and> fresh (team_db y') (tm_work y') b'"
  using assms(1)
proof cases
  case (claim k e t w nt)
  have "leases_live e cfg y" using fresh_live [OF fresh claim(4) assms(2)] .
  then have step: "team_step cfg True y y'" unfolding claim(1) using team_step.claim [OF claim(3) _ claim(5)] by blast
  from punctual_claim [OF claim(5) ok(1) fresh leases_ok_step [OF step ok, unfolded claim(1)] ok(2)] step
  show ?thesis unfolding claim(1,2) by simp
next
  case (heartbeat k t th e r s)
  have "y' = with_db (ignoring (update_task_heartbeat e (t_id t)) (team_db y)) y"
    using heartbeat(1,5) by (simp add: ignoring_def)
  then have "team_step cfg True y y'" using team_step.heartbeat [OF heartbeat(3)] by simp
  then show ?thesis using punctual_heartbeat [OF fresh heartbeat(4,5,3)] unfolding heartbeat(1,2) by simp
next
  case quiet
  then show ?thesis using fresh_quiet [OF _ ok fresh] team_step.quiet by blast
qed

lemma punctual_timely:
  "punctual_reachable cfg D z \<Longrightarrow> D \<le> wc_lease_timeout (c_worker cfg) \<Longrightarrow>
    team_reachable cfg True (fst z) \<and> fresh (team_db (fst z)) (tm_work (fst z)) (snd z)"
proof (induction rule: punctual_reachable.induct)
  case (start b)
  show ?case by (simp add: team_reachable.start) (simp add: fresh_def team_start_def)
next
  case (step z z')
  obtain y b y' b' where z: "z = (y, b)" "z' = (y', b')" by (cases z; cases z')
  then have "team_reachable cfg True y" "fresh (team_db y) (tm_work y) b" using step.IH [OF step.prems] by simp_all
  moreover from this have "team_step cfg True y y' \<and> fresh (team_db y') (tm_work y') b'"
    using punctual_step_timely [OF step.hyps(2) [unfolded z] step.prems] timely_reachable by blast
  ultimately show ?case unfolding z by (auto intro: team_reachable.step)
qed

text \<open>C6: Heartbeats need no look at the tables: if workers look for tasks only while for every worker at work the last claim or
  successful heartbeat was at most \<open>D\<close> ago, with \<open>D\<close> not above the lease, then every state that the team can
  reach is one of a timely team, so that everything shown of timely teams holds; and the row of a task at work, if
  it is still there, has a heartbeat that is no older than the worker's last one.\<close>

theorem punctual_team_is_timely:
  assumes "punctual_reachable cfg D (y, b)" and "D \<le> wc_lease_timeout (c_worker cfg)"
  shows "team_reachable cfg True y \<and> (\<forall>k t th. tm_work y k = Handling t th \<longrightarrow>
    (\<forall>u \<in> set (tasks (team_db y)). t_id u = t_id t \<longrightarrow> (\<exists>h. t_heartbeat_at u = Some h \<and> b k \<le> h)))"
  using punctual_timely [OF assms] unfolding fresh_def by force

theorem punctual_team_is_timely_witness:
  "\<exists>u. tasks (team_db demo_working) = [u] \<and> (\<exists>h. t_heartbeat_at u = Some h \<and> 9 \<le> h)
    \<and> team_reachable demo_once True demo_working"
proof -
  let ?D = "wc_lease_timeout (c_worker demo_once)"
  have asked: "punctual_reachable demo_once ?D (demo_asked, \<lambda>_. 0)"
    by (rule punctual_reachable.step [OF punctual_reachable.start punctual_step.quiet [OF demo_request_step]])
  have "recent now ?D demo_asked b" for now b by (simp add: recent_def)
  then have "punctual_step demo_once ?D (demo_asked, \<lambda>_. 0)
      (demo_working, (\<lambda>_. 0)(0 := pg_now demo_broken (Suc (tick (team_db demo_asked)))))"
    unfolding demo_working_def by (intro punctual_step.claim [OF _ _ demo_claim]) simp_all
  note timely = punctual_team_is_timely [OF punctual_reachable.step [OF asked this] order_refl]
  have "tm_work demo_working 0 = Handling demo_task_claimed (handle_thread demo_broken demo_net demo_once demo_task_claimed)"
    by (simp add: demo_working_def)
  from conjunct2 [OF timely, rule_format, OF this]
  have u: "u \<in> set (tasks (team_db demo_working)) \<Longrightarrow> t_id u = t_id demo_task_claimed \<Longrightarrow>
      \<exists>h. t_heartbeat_at u = Some h \<and> pg_now demo_broken (Suc (tick (team_db demo_asked))) \<le> h" for u
    by simp
  have "pg_now demo_broken (Suc (tick (team_db demo_asked))) = 9" "map t_id (tasks (snd demo_claimed)) = [t_id demo_task_claimed]"
    unfolding demo_asked_db by code_simp+
  moreover have "tasks (team_db demo_working) = tasks (snd demo_claimed)" by (simp add: demo_working_def demo_world_def)
  ultimately show ?thesis using conjunct1 [OF timely] u by (auto simp: map_eq_Cons_conv)
qed

text \<open>With the defaults there is room for five heartbeats in a row to fail.\<close>

lemma default_heartbeats_fit:
  "6 * wc_heartbeat_interval (c_worker default_config) \<le> wc_lease_timeout (c_worker default_config)"
  by (simp add: default_config_def)

end
