(* ===== verification/Sizes.thy ===== *)
theory Sizes
  imports GoFloats Config GoNumbers
begin

text \<open>
  Reading the configuration: \<open>ByteSize\<close>, \<open>parseByteSize\<close>, \<open>stringToByteSizeHook\<close> and \<open>Load\<close> of
  \<open>internal/config/config.go\<close>.  \<open>fmt.Sscanf\<close> with the verb \<open>%f\<close> takes a token from the front of the string and
  leaves the rest; the conversion of the token (\<open>strconv.ParseFloat\<close>, with its rounding) is the argument \<open>parseFloat\<close>,
  which also stands for the error of an empty string.  Reading the file and decoding it are viper's and mapstructure's.
\<close>

type_synonym float_parser = "string \<Rightarrow> go_float res"

section \<open>The token of \<open>%f\<close>\<close>

text \<open>\<open>accept\<close>: the token so far and the rest of the input.\<close>

fun accept :: "string \<Rightarrow> string \<times> string \<Rightarrow> bool \<times> string \<times> string" where
  "accept cs (buf, c # rest) = (if c \<in> set cs then (True, buf @ [c], rest) else (False, buf, c # rest))"
| "accept cs (buf, []) = (False, buf, [])"

fun accept_seq :: "string list \<Rightarrow> string \<times> string \<Rightarrow> bool \<times> string \<times> string" where
  "accept_seq [] st = (True, st)"
| "accept_seq (cs # css) st = (case accept cs st of (True, st') \<Rightarrow> accept_seq css st' | (False, st') \<Rightarrow> (False, st'))"

fun accept_while :: "string \<Rightarrow> string \<times> string \<Rightarrow> string \<times> string" where
  "accept_while cs (buf, c # rest) = (if c \<in> set cs then accept_while cs (buf @ [c], rest) else (buf, c # rest))"
| "accept_while cs (buf, []) = (buf, [])"

definition float_token :: "string \<Rightarrow> string" where
  "float_token s =
     (case accept_seq [''nN'', ''aA'', ''nN''] ('''', s) of (isNan, st1) \<Rightarrow>
      if isNan then fst st1
      else case accept_seq [''iI'', ''nN'', ''fF''] (snd (accept ''+-'' st1)) of (isInf, st2) \<Rightarrow>
      if isInf then fst st2
      else case accept_seq [''0'', ''xX''] st2 of (hex, st3) \<Rightarrow>
        let digits = (if hex then ''0123456789aAbBcCdDeEfF_'' else ''0123456789_'');
            expo = (if hex then ''pP'' else ''eEpP'');
            (dot, st4) = accept ''.'' (accept_while digits st3);
            st5 = (if dot then accept_while digits st4 else st4);
            (e, st6) = accept expo st5
        in fst (if e then accept_while ''0123456789_'' (snd (accept ''+-'' st6)) else st6))"

section \<open>Byte sizes\<close>

definition byte_units :: "(string \<times> int) list" where
  "byte_units = [(''TB'', 2 ^ 40), (''GB'', 2 ^ 30), (''MB'', 2 ^ 20), (''KB'', 2 ^ 10), (''B'', 1)]"

fun strip_unit :: "(string \<times> int) list \<Rightarrow> string \<Rightarrow> string \<times> int" where
  "strip_unit [] s = (s, 1)"
| "strip_unit ((suffix, value) # units) s =
     (if has_suffix s suffix then (trim_suffix s suffix, value) else strip_unit units s)"

definition parse_byte_size :: "(go_float \<Rightarrow> int) \<Rightarrow> float_parser \<Rightarrow> string \<Rightarrow> int res" where
  "parse_byte_size outside parseFloat s0 =
     (let s = trim_space (to_upper s0) in
      if s = '''' then Fail ''empty byte size''
      else case strip_unit byte_units s of (digits, multiplier) \<Rightarrow>
        (case parseFloat (float_token digits) of
           Inl err \<Rightarrow> Fail (''parse byte size: '' @ error_text err)
         | Inr num \<Rightarrow> Ok (int64_of outside (fmul num (float_of_int multiplier)))))"

text \<open>A decoded YAML value, and the hook that runs on it when the field has the type of its first argument.\<close>

datatype yaml_value = YStr string | YInt int | YFloat go_float | YOther string

definition string_to_byte_size :: "(go_float \<Rightarrow> int) \<Rightarrow> float_parser \<Rightarrow> bool \<Rightarrow> yaml_value \<Rightarrow> yaml_value res" where
  "string_to_byte_size outside parseFloat toByteSize data =
     (if \<not> toByteSize then Ok data
      else case data of
        YStr v \<Rightarrow> (case parse_byte_size outside parseFloat v of Inl err \<Rightarrow> Inl err | Inr n \<Rightarrow> Ok (YInt n))
      | YInt n \<Rightarrow> Ok (YInt n)
      | YFloat v \<Rightarrow> Ok (YInt (int64_of outside v))
      | YOther v \<Rightarrow> Ok (YOther v))"

section \<open>Loading\<close>

text \<open>What \<open>ReadInConfig\<close> reports, what \<open>Unmarshal\<close> makes of it, and the environment's \<open>DATABASE_URL\<close>.\<close>

datatype read_result = ReadDone | ConfigFileNotFound | ReadFailed go_error

definition load_config :: "read_result \<Rightarrow> config res \<Rightarrow> string \<Rightarrow> config res" where
  "load_config read decoded databaseURL =
     (case read of
        ReadFailed err \<Rightarrow> Fail (''read config file: '' @ error_text err)
      | _ \<Rightarrow>
          (case decoded of
             Inl err \<Rightarrow> Fail (''decode config: '' @ error_text err)
           | Inr cfg \<Rightarrow>
               (let cfg1 = (if db_url (c_database cfg) = ''''
                            then cfg\<lparr>c_database := (c_database cfg)\<lparr>db_url := databaseURL\<rparr>\<rparr> else cfg) in
                if db_url (c_database cfg1) = ''''
                then Fail ''database.url is required (or set DATABASE_URL)'' else Ok cfg1)))"

section \<open>What a size means\<close>

definition all_digits :: "string \<Rightarrow> bool" where
  "all_digits s \<longleftrightarrow> s \<noteq> [] \<and> list_all is_digit s"

lemma all_digits_nat_text: "all_digits (nat_text n)"
proof (induction n rule: nat_text.induct)
  case (1 n)
  then show ?case using digit_char by (cases "n < 10") (simp_all add: all_digits_def nat_text.simps [of n])
qed

lemma enumerated: "list_all P (Enum.enum :: char list) \<Longrightarrow> P c"
  by (simp add: list_all_iff enum_UNIV)

text \<open>A digit is its own capital, no space and no letter of a unit; the token takes it.\<close>

lemma digit_facts:
  "is_digit c \<longrightarrow> c \<in> set ''0123456789_'' \<and> upper_char c = c \<and> \<not> is_space c \<and> c \<notin> set ''nNiIfFxX+-.eEpPaATGMKB''"
  by (rule enumerated [where c = c]) code_simp

definition plain_end :: "string \<Rightarrow> bool" where
  "plain_end r \<longleftrightarrow> (case r of [] \<Rightarrow> True | c # _ \<Rightarrow> c \<notin> set ''0123456789_.eEpPxX'')"

lemma accept_while_digits:
  "list_all is_digit ds \<Longrightarrow> plain_end r \<Longrightarrow> accept_while ''0123456789_'' (buf, ds @ r) = (buf @ ds, r)"
proof (induction ds arbitrary: buf)
  case Nil
  then show ?case by (cases r) (auto simp: plain_end_def)
next
  case (Cons d ds)
  have "d \<in> set ''0123456789_''" using Cons.prems(1) digit_facts [of d] by simp
  then show ?case using Cons by (simp del: set_simps)
qed

lemma accept_no: "r = [] \<or> hd r \<notin> set cs \<Longrightarrow> accept cs (buf, r) = (False, buf, r)"
  by (cases r) auto

lemma float_token_digits:
  assumes "all_digits ds" and "plain_end r"
  shows "float_token (ds @ r) = ds"
proof -
  obtain d ds' where ds: "ds = d # ds'" "is_digit d" "list_all is_digit ds'"
    using assms(1) by (cases ds) (auto simp: all_digits_def)
  note f = digit_facts [of d]
  have no: "accept cs ('''', ds @ r) = (False, '''', ds @ r)" if "set cs \<subseteq> set ''nNiIfFxX+-.eEpPaATGMKB''" for cs
    using f ds(2) that by (intro accept_no) (auto simp: ds(1) simp del: set_simps)
  have seqs: "accept_seq [''nN'', ''aA'', ''nN''] ('''', ds @ r) = (False, '''', ds @ r)"
    "accept_seq [''iI'', ''nN'', ''fF''] ('''', ds @ r) = (False, '''', ds @ r)"
    by (simp_all add: no)
  have tail: "accept cs (buf, r) = (False, buf, r)" if "set cs \<subseteq> set ''0123456789_.eEpPxX''" for cs buf
    using assms(2) that by (intro accept_no) (auto simp: plain_end_def simp del: set_simps split: list.splits)
  have hex: "accept_seq [''0'', ''xX''] ('''', ds @ r) = (False, if d = CHR ''0'' then (''0'', ds' @ r) else ('''', ds @ r))"
  proof (cases "d = CHR ''0''")
    case True
    have "accept ''xX'' (''0'', ds' @ r) = (False, ''0'', ds' @ r)"
    proof (rule accept_no)
      show "ds' @ r = [] \<or> hd (ds' @ r) \<notin> set ''xX''"
        using ds(3) assms(2) digit_facts [of "hd ds'"] by (cases ds'; cases r) (auto simp: plain_end_def)
    qed
    then show ?thesis using True ds(1) by simp
  next
    case False
    then show ?thesis using ds(1) by simp
  qed
  have "accept_while ''0123456789_'' (if d = CHR ''0'' then (''0'', ds' @ r) else ('''', ds @ r)) = (ds, r)"
  proof (cases "d = CHR ''0''")
    case True
    show ?thesis using accept_while_digits [OF ds(3) assms(2), of "''0''"] unfolding True if_P [OF refl] ds(1) by simp
  next
    case False
    have "list_all is_digit ds" using assms(1) by (simp add: all_digits_def)
    from accept_while_digits [OF this assms(2), of "''''"] show ?thesis unfolding if_not_P [OF False] by (simp only: append_Nil)
  qed
  then show ?thesis
    by (simp add: float_token_def no seqs hex tail Let_def del: accept_seq.simps)
qed

text \<open>The strings that are read: a number, spaces, a unit in capitals or not.\<close>

definition exact_integers :: "float_parser \<Rightarrow> bool" where
  "exact_integers parseFloat \<longleftrightarrow> (\<forall>n < 2 ^ 53. parseFloat (nat_text n) = Ok (Finite (of_nat n)))"

lemma has_suffix_ends:
  "has_suffix (t @ [b]) [d] \<longleftrightarrow> b = d" "has_suffix (t @ [a, b]) [d] \<longleftrightarrow> b = d"
  "has_suffix (t @ [a, b]) [c, d] \<longleftrightarrow> a = c \<and> b = d"
  "has_suffix (t @ [b]) [c, d] \<longleftrightarrow> b = d \<and> t \<noteq> [] \<and> last t = c"
proof -
  show "has_suffix (t @ [b]) [d] \<longleftrightarrow> b = d" by (simp add: has_suffix_def)
  show "has_suffix (t @ [a, b]) [d] \<longleftrightarrow> b = d" by (simp add: has_suffix_def)
  show "has_suffix (t @ [a, b]) [c, d] \<longleftrightarrow> a = c \<and> b = d" by (simp add: has_suffix_def)
  show "has_suffix (t @ [b]) [c, d] \<longleftrightarrow> b = d \<and> t \<noteq> [] \<and> last t = c"
    by (cases t rule: rev_cases) (auto simp: has_suffix_def)
qed

lemma strip_unit_of:
  assumes "(unit, m) \<in> set byte_units" and "t \<noteq> []" and "last t \<notin> set ''TGMK''"
  shows "strip_unit byte_units (t @ unit) = (t, m)"
proof -
  have trim: "trim_suffix (t @ u) u = t" for u by simp
  consider "unit = ''TB''" "m = 2 ^ 40" | "unit = ''GB''" "m = 2 ^ 30" | "unit = ''MB''" "m = 2 ^ 20"
    | "unit = ''KB''" "m = 2 ^ 10" | "unit = ''B''" "m = 1"
    using assms(1) by (auto simp: byte_units_def)
  then show ?thesis
    by cases (use assms(2,3) trim in \<open>simp_all add: byte_units_def has_suffix_ends\<close>)
qed

lemma strip_unit_none: "t \<noteq> [] \<Longrightarrow> last t \<noteq> CHR ''B'' \<Longrightarrow> strip_unit byte_units t = (t, 1)"
  by (cases t rule: rev_cases) (simp_all add: byte_units_def has_suffix_ends)

lemma to_upper_digits: "list_all is_digit ds \<Longrightarrow> to_upper ds = ds"
  using digit_facts by (auto simp: to_upper_def list_all_iff intro!: map_idI)

lemma space_facts: "is_space c \<longrightarrow> c \<notin> set ''0123456789_.eEpPxXTGMKB'' \<and> upper_char c = c"
  by (rule enumerated [where c = c]) code_simp

lemma upper_number:
  assumes "list_all is_space sp"
  shows "to_upper (nat_text n @ sp @ u) = nat_text n @ sp @ to_upper u"
proof -
  have "to_upper (nat_text n) = nat_text n" using all_digits_nat_text by (intro to_upper_digits) (simp add: all_digits_def)
  moreover have "to_upper sp = sp" using assms space_facts by (auto simp: to_upper_def list_all_iff intro!: map_idI)
  ultimately show ?thesis by (simp add: to_upper_def)
qed

lemma trim_number:
  assumes "u \<noteq> []" and "\<not> is_space (last u)"
  shows "trim_space (nat_text n @ sp @ u) = nat_text n @ sp @ u"
proof -
  have "\<not> is_space (hd (nat_text n))" using nat_text_head digit_facts by blast
  then show ?thesis using assms nat_text_head [of n] by (intro trim_space_id) simp_all
qed

lemma unit_is_power: "(u, m) \<in> set byte_units \<Longrightarrow> \<exists>j \<le> 40. m = 2 ^ j"
proof -
  assume a: "(u, m) \<in> set byte_units"
  have "m = 2 ^ j \<Longrightarrow> j \<le> 40 \<Longrightarrow> ?thesis" for j by blast
  from this [of 40] this [of 30] this [of 20] this [of 10] this [of 0] show ?thesis
    using a by (auto simp: byte_units_def)
qed

text \<open>Multiplying with a unit does not round, as the units are powers of two.\<close>

lemma int64_product:
  assumes "n < 2 ^ 53" and "j \<le> 40" and "int n * 2 ^ j < 2 ^ 63"
  shows "int64_of outside (fmul (Finite (of_nat n)) (float_of_int (2 ^ j))) = int n * 2 ^ j"
proof -
  have "(2 :: int) ^ j \<le> 2 ^ 40" by (rule power_increasing [OF assms(2)]) simp
  then have u: "float_of_int (2 ^ j) = Finite (2 ^ j)" using float_of_int_exact [of "2 ^ j"] by simp
  let ?m = "int n * 2 ^ j"
  have p: "of_nat n * 2 ^ j = (of_int ?m :: rat)" by simp
  have "(of_int ?m :: rat) < of_int (2 ^ 63)" using assms(3) by (simp only: of_int_less_iff)
  also have "\<dots> < 2 ^ 1024" by simp
  finally have "round_float (of_nat n * 2 ^ j) = Finite (of_nat n * 2 ^ j)"
    using round_float_exact [of "int n" j] assms(1) by simp
  then have r: "fmul (Finite (of_nat n)) (float_of_int (2 ^ j)) = Finite (of_int ?m)" unfolding u fmul.simps p .
  have "0 \<le> ?m" by simp
  then have nonneg: "(0 :: rat) \<le> of_int ?m" by (simp only: of_int_0_le_iff)
  have "(of_int ?m :: rat) < of_int (2 ^ 63)" using assms(3) by (simp only: of_int_less_iff)
  then have fits: "(of_int ?m :: rat) < 2 ^ 63" unfolding of_int_power of_int_numeral .
  show ?thesis unfolding r truncated [OF nonneg fits] floor_of_int by (rule refl)
qed

lemma unit_product:
  assumes "n < 2 ^ 53" and "(u, m) \<in> set byte_units" and "int n * m < 2 ^ 63"
  shows "int64_of outside (fmul (Finite (of_nat n)) (float_of_int m)) = int n * m"
  using unit_is_power [OF assms(2)] int64_product [OF assms(1)] assms(3) by blast

lemma parse_number_unit:
  assumes "exact_integers parseFloat" and "n < 2 ^ 53" and "list_all is_space sp"
    and "(to_upper u, m) \<in> set byte_units" and "int n * m < 2 ^ 63"
  shows "parse_byte_size outside parseFloat (nat_text n @ sp @ u) = Ok (int n * m)"
proof -
  let ?d = "nat_text n @ sp"
  have u: "to_upper u \<noteq> []" "\<not> is_space (last (to_upper u))" "0 \<le> m"
    using assms(4) by (auto simp: byte_units_def is_space_def)
  have d: "?d \<noteq> []" "last ?d \<notin> set ''TGMK''" using nat_text_head [of n] by simp (use assms(3) nat_text_head [of n] all_digits_nat_text [of n] digit_facts space_facts in \<open>cases sp rule: rev_cases, auto simp: all_digits_def list_all_iff dest: last_in_set\<close>)
  have "plain_end sp"
  proof (cases sp)
    case (Cons c cs)
    then have "is_space c" using assms(3) by simp
    then show ?thesis using space_facts [of c] Cons by (simp add: plain_end_def)
  qed (simp add: plain_end_def)
  then have "float_token ?d = nat_text n" by (rule float_token_digits [OF all_digits_nat_text])
  moreover have "strip_unit byte_units (?d @ to_upper u) = (?d, m)" by (rule strip_unit_of [OF assms(4) d])
  moreover have "parseFloat (nat_text n) = Ok (Finite (of_nat n))" using assms(1,2) by (simp add: exact_integers_def)
  ultimately show ?thesis
    using u unit_product [OF assms(2,4,5)]
    by (simp add: parse_byte_size_def upper_number [OF assms(3)] trim_number Let_def del: fmul.simps int64_of.simps)
qed

text \<open>C39: A size is what it says: a whole number below \<open>2 ^ 53\<close>, any spaces and a unit in capital or small
  letters mean the number times the unit (a power of 1024), unless that exceeds 64 bits.\<close>

theorem parse_byte_size_spec:
  assumes "exact_integers parseFloat" and "n < 2 ^ 53" and "list_all is_space sp"
    and "(to_upper u, m) \<in> set byte_units" and "int n * m < 2 ^ 63"
  shows "parse_byte_size outside parseFloat (nat_text n @ sp @ u) = Ok (int n * m)"
  using assms by (rule parse_number_unit)

text \<open>A unit without the final B is no unit: in \<open>5M\<close> the letter is ignored, with whatever follows it, and the
  number counts bytes.\<close>

theorem byte_size_ignores_other_letters:
  assumes "exact_integers parseFloat" and "n < 2 ^ 53" and "u \<noteq> ''''" and "plain_end (to_upper u)"
    and "\<not> is_space (last (to_upper u))" and "last (to_upper u) \<noteq> CHR ''B''"
  shows "parse_byte_size outside parseFloat (nat_text n @ u) = Ok (int n)"
proof -
  have up: "to_upper u \<noteq> []" using assms(3) by (simp add: to_upper_def)
  have s: "to_upper (nat_text n @ u) = nat_text n @ to_upper u" using upper_number [of "[]" n u] by simp
  have "trim_space (nat_text n @ to_upper u) = nat_text n @ to_upper u"
    using trim_number [OF up assms(5), of n "[]"] by simp
  moreover have "strip_unit byte_units (nat_text n @ to_upper u) = (nat_text n @ to_upper u, 1)"
    using up assms(6) by (intro strip_unit_none) simp_all
  moreover have "float_token (nat_text n @ to_upper u) = nat_text n"
    by (rule float_token_digits [OF all_digits_nat_text assms(4)])
  moreover have "parseFloat (nat_text n) = Ok (Finite (of_nat n))" using assms(1,2) by (simp add: exact_integers_def)
  moreover have "int64_of outside (fmul (Finite (of_nat n)) (float_of_int 1)) = int n"
  proof -
    have "int n * 2 ^ 0 < 2 ^ 63" using assms(2) by simp
    from int64_product [OF assms(2) _ this] show ?thesis by (simp only: power_0 mult_1_right)
  qed
  ultimately show ?thesis using up
    by (simp add: parse_byte_size_def s Let_def del: fmul.simps int64_of.simps)
qed

text \<open>A reader of whole numbers, and no other token.\<close>

definition demo_parse_float :: float_parser where
  "demo_parse_float s = (case digits_value 0 s of None \<Rightarrow> Fail ''invalid syntax'' | Some n \<Rightarrow> Ok (Finite (of_nat n)))"

lemma demo_exact: "exact_integers demo_parse_float"
  by (simp add: exact_integers_def demo_parse_float_def digits_value_nat_text)

lemma nat_text_examples: "nat_text 5 = ''5''" "nat_text 100 = ''100''"
  by code_simp+

theorem parse_byte_size_spec_witness:
  "parse_byte_size (\<lambda>_. 0) demo_parse_float ''100 mb'' = Ok (100 * 2 ^ 20)"
proof -
  have "(to_upper ''mb'', 2 ^ 20) \<in> set byte_units" by code_simp
  moreover have "list_all is_space '' ''" by code_simp
  ultimately show ?thesis using parse_byte_size_spec [OF demo_exact, of 100 "'' ''" "''mb''" "2 ^ 20"] by (simp add: nat_text_examples)
qed

theorem byte_size_ignores_other_letters_witness:
  "parse_byte_size (\<lambda>_. 0) demo_parse_float ''5M'' = Ok 5"
proof -
  have "plain_end (to_upper ''M'')" "\<not> is_space (last (to_upper ''M''))" "last (to_upper ''M'') \<noteq> CHR ''B''" by code_simp+
  then show ?thesis using byte_size_ignores_other_letters [OF demo_exact, of 5 "''M''"] by (simp add: nat_text_examples)
qed

text \<open>The size defaults of \<open>applyDefaults\<close> are the numbers of \<open>default_config\<close>.\<close>

lemma default_sizes:
  assumes "exact_integers parseFloat"
  shows "parse_byte_size outside parseFloat ''5MB'' = Ok (hc_max_body_bytes (c_http default_config))"
    and "parse_byte_size outside parseFloat ''100MB'' = Ok (jd_max_bytes (c_job_defaults default_config))"
proof -
  have "(to_upper ''MB'', 2 ^ 20) \<in> set byte_units" by code_simp
  from parse_number_unit [OF assms _ _ this, of _ "''''"]
  have "n < 2 ^ 30 \<Longrightarrow> parse_byte_size outside parseFloat (nat_text n @ ''MB'') = Ok (int n * 2 ^ 20)" for n by simp
  from this [of 5] this [of 100]
  show "parse_byte_size outside parseFloat ''5MB'' = Ok (hc_max_body_bytes (c_http default_config))"
    "parse_byte_size outside parseFloat ''100MB'' = Ok (jd_max_bytes (c_job_defaults default_config))"
    by (simp_all add: nat_text_examples default_config_def)
qed

text \<open>A configuration that loads names a database.\<close>

lemma load_config_url: "load_config r d url = Ok cfg \<Longrightarrow> db_url (c_database cfg) \<noteq> ''''"
  by (auto simp: load_config_def Let_def split: read_result.splits sum.splits if_splits)

end
