(* ===== verification/Backoff.thy ===== *)
theory Backoff
  imports Worker
begin

text \<open>
  The pause before a task is tried again (\<open>backoff\<close> of \<open>internal/worker/worker.go\<close>): with the rounding of \<open>float64\<close>
  it stays within a fifth of the doubled base and never exceeds the maximum.
\<close>

text \<open>The doubled base, capped: no rounding, and no harm from an overflow.\<close>

lemma capped_power:
  fixes base mx :: int
  assumes "0 < base" and "base < 2 ^ 53" and "0 \<le> mx" and "mx < 2 ^ 53" and "0 \<le> n"
  defines "d0 \<equiv> fmul (float_of_int base) (pow_two n)"
  shows "(if fgreater d0 (float_of_int mx) then float_of_int mx else d0) = Finite (of_int (min (base * 2 ^ nat n) mx))"
proof -
  have mx: "float_of_int mx = Finite (of_int mx)" and b: "float_of_int base = Finite (of_int base)"
    using assms(1-4) by (simp_all add: float_of_int_exact)
  have small: "(of_int mx :: rat) < 2 ^ 1024"
  proof -
    have "(of_int mx :: rat) < of_int (2 ^ 53)" using assms(4) by (simp only: of_int_less_iff)
    also have "\<dots> < 2 ^ 1024" by simp
    finally show ?thesis .
  qed
  have big: "min (base * 2 ^ nat n) mx = mx" if "2 ^ 1024 \<le> (of_int (base * 2 ^ nat n) :: rat)"
  proof -
    have "(of_int mx :: rat) < of_int (base * 2 ^ nat n)" using small that by (rule less_le_trans)
    then show ?thesis by (simp only: of_int_less_iff min_absorb2 less_imp_le)
  qed
  show ?thesis
  proof (cases "n < 1024")
    case True
    have "d0 = (if 2 ^ 1024 \<le> (of_int (base * 2 ^ nat n) :: rat) then Infinite False else Finite (of_int (base * 2 ^ nat n)))"
      using round_float_exact [of base "nat n"] assms(1,2) True by (simp add: d0_def b pow_two_def)
    then show ?thesis using big by (auto simp: mx min_def simp del: of_int_mult of_int_power)
  next
    case False
    have "(2 :: rat) ^ 1024 \<le> 2 ^ nat n" using False by (intro power_increasing) simp_all
    also have "\<dots> \<le> of_int base * 2 ^ nat n" using assms(1) by simp
    finally have "2 ^ 1024 \<le> (of_int (base * 2 ^ nat n) :: rat)" by simp
    moreover have "d0 = Infinite False" using False assms(1) by (simp add: d0_def b pow_two_def)
    ultimately show ?thesis using big by (simp add: mx)
  qed
qed

lemma float_range:
  assumes "\<bar>x\<bar> < (2 :: rat) ^ n" and "n < 1024"
  obtains y where "round_float x = Finite y" and "\<bar>y - x\<bar> \<le> 2 powi (int n - 54)" and "0 \<le> x \<Longrightarrow> 0 \<le> y"
proof -
  have "\<bar>x\<bar> < 2 powi int n" using assms(1) by simp
  then obtain y where "round_float x = Finite y" "\<bar>y - x\<bar> \<le> 2 powi (int n - 54)"
    by (rule round_float_error) (use assms(2) in simp_all)
  then show ?thesis using round_float_nonneg that by blast
qed

lemma fifth: obtains c where "round_float (1 / 5) = Finite c" and "\<bar>c - 1 / 5\<bar> \<le> 1 / 2 ^ 56" and "0 \<le> c"
proof -
  have "\<bar>1 / 5 :: rat\<bar> < 2 powi (- 2)" by (simp add: power_int_def power2_eq_square)
  then obtain c where c: "round_float (1 / 5) = Finite c" "\<bar>c - 1 / 5\<bar> \<le> 2 powi (- 2 - 54)"
    by (rule round_float_error) simp_all
  have "(2 :: rat) powi (- 2 - 54) = 1 / 2 ^ 56" by (simp add: power_int_def power_one_over)
  then show ?thesis using c round_float_nonneg [OF c(1)] that by simp
qed

text \<open>A summand known up to an error.\<close>

lemma near_add:
  fixes x y a b c :: rat
  assumes "\<bar>x - y\<bar> \<le> d" and "\<bar>a - b\<bar> \<le> e"
  shows "\<bar>x - (y - a + b)\<bar> \<le> d + e"
  using assms by (simp add: abs_le_iff)

text \<open>The jitter added, with the rounding of every operation.\<close>

lemma jitter_terms:
  fixes D :: rat
  assumes "0 \<le> D" and "D < 2 ^ 53" and "D = 0 \<or> 1 \<le> D" and "0 \<le> r" and "r < 1"
  obtains x where "fadd (fsub (Finite D) (fmul (Finite D) (round_float (1 / 5))))
      (fmul (fmul (Finite r) (Finite 2)) (fmul (Finite D) (round_float (1 / 5)))) = Finite x"
    and "0 \<le> x" and "\<bar>x - (4 / 5 * D + 2 / 5 * (r * D))\<bar> \<le> 5 / 2"
proof -
  obtain c where c: "round_float (1 / 5) = Finite c" "\<bar>c - 1 / 5\<bar> \<le> 1 / 2 ^ 56" "0 \<le> c" by (rule fifth)
  have "D * \<bar>c - 1 / 5\<bar> \<le> 2 ^ 53 * (1 / 2 ^ 56)" by (rule mult_mono) (use assms(2) c(2) in simp_all)
  then have Dc: "\<bar>D * c - D / 5\<bar> \<le> 1 / 8" using assms(1) abs_mult [of D "c - 1 / 5"] by (simp add: right_diff_distrib)
  have "0 \<le> D * c" using assms(1) c(3) by simp
  moreover have "\<bar>D * c\<bar> < 2 ^ 51" using abs_le_D1 [OF Dc] assms(2) calculation by simp
  then obtain J where J: "round_float (D * c) = Finite J" "\<bar>J - D * c\<bar> \<le> 2 powi (int 51 - 54)" "0 \<le> D * c \<Longrightarrow> 0 \<le> J"
    by (rule float_range) simp_all
  ultimately have J0: "0 \<le> J" by blast
  have Je: "\<bar>J - D / 5\<bar> \<le> 1 / 4" using J(2) abs_triangle_ineq [of "J - D * c" "D * c - D / 5"] Dc
    by (simp add: power_int_def power_one_over)
  have JD: "J \<le> D" using assms(3)
  proof
    assume "D = 0"
    then show ?thesis using J(1) by simp
  next
    assume "1 \<le> D"
    then show ?thesis using abs_le_D1 [OF Je] by linarith
  qed
  have "\<bar>D - J\<bar> < 2 ^ 53" using JD J0 assms(2) by simp
  then obtain S where S: "round_float (D - J) = Finite S" "\<bar>S - (D - J)\<bar> \<le> 2 powi (int 53 - 54)" "0 \<le> D - J \<Longrightarrow> 0 \<le> S"
    by (rule float_range) simp_all
  have "\<bar>r * 2\<bar> < 2 ^ 1" using assms(4,5) by simp
  then obtain R where R: "round_float (r * 2) = Finite R" "\<bar>R - r * 2\<bar> \<le> 2 powi (int 1 - 54)" "0 \<le> r * 2 \<Longrightarrow> 0 \<le> R"
    by (rule float_range) simp_all
  have J51: "J < 2 ^ 51" using abs_le_D1 [OF Je] assms(2) by simp
  have Re: "\<bar>R - r * 2\<bar> \<le> 1 / 2 ^ 53" "0 \<le> R" using R(2,3) assms(4) by (simp_all add: power_int_def power_one_over)
  have "\<bar>R - r * 2\<bar> * J \<le> 1 / 2 ^ 53 * 2 ^ 51" by (rule mult_mono) (use Re J51 J0 in simp_all)
  then have RJ: "\<bar>R * J - r * 2 * J\<bar> \<le> 1 / 4" using J0 abs_mult [of "R - r * 2" J] by (simp add: left_diff_distrib)
  have "r * 2 * J \<le> 2 * 2 ^ 51" by (rule mult_mono) (use assms(4,5) J51 J0 in simp_all)
  then have "r * 2 * J \<le> 2 ^ 52" by simp
  then have "R * J \<le> 2 ^ 52 + 1 / 4" using abs_le_D1 [OF RJ] by linarith
  moreover have "0 \<le> R * J" using Re(2) J0 by simp
  ultimately have RJ2: "R * J \<le> 2 ^ 52 + 1 / 4" "0 \<le> R * J" by blast+
  then have "\<bar>R * J\<bar> < 2 ^ 53" by simp
  then obtain T where T: "round_float (R * J) = Finite T" "\<bar>T - R * J\<bar> \<le> 2 powi (int 53 - 54)" "0 \<le> R * J \<Longrightarrow> 0 \<le> T"
    by (rule float_range) simp_all
  have ST: "\<bar>S - (D - J)\<bar> \<le> 1 / 2" "\<bar>T - R * J\<bar> \<le> 1 / 2" "0 \<le> S" "0 \<le> T"
    using S(2,3) T(2,3) JD RJ2(2) by (simp_all add: power_int_def)
  have "\<bar>S + T\<bar> < 2 ^ 54" using abs_le_D1 [OF ST(1)] abs_le_D1 [OF ST(2)] ST(3,4) RJ2 JD J0 assms(2) by simp
  then obtain x where x: "round_float (S + T) = Finite x" "\<bar>x - (S + T)\<bar> \<le> 2 powi (int 54 - 54)" "0 \<le> S + T \<Longrightarrow> 0 \<le> x"
    by (rule float_range) simp_all
  have "\<bar>(2 * r - 1) * (J - D / 5)\<bar> \<le> 1 * (1 / 4)"
    unfolding abs_mult by (rule mult_mono) (use assms(4,5) Je in simp_all)
  then have e: "\<bar>(D - J + r * 2 * J) - (4 / 5 * D + 2 / 5 * (r * D))\<bar> \<le> 1 / 4" by (simp add: algebra_simps)
  have "\<bar>x - (S + T)\<bar> \<le> 1" using x(2) by simp
  from near_add [OF near_add [OF near_add [OF near_add [OF this ST(1)] ST(2)] RJ] e]
  have "\<bar>x - (4 / 5 * D + 2 / 5 * (r * D))\<bar> \<le> 5 / 2" by simp
  moreover have "0 \<le> x" using x(3) ST by simp
  ultimately show ?thesis using that [of x] x(1) by (simp add: c(1) J(1) R(1) S(1) T(1) fsub_def)
qed

lemma floor_near:
  fixes z :: rat and d :: int
  assumes "4 / 5 * of_int d - 5 / 2 \<le> z" and "z \<le> 6 / 5 * of_int d + 5 / 2"
  shows "\<bar>5 * (\<lfloor>z\<rfloor> - d)\<bar> \<le> d + 20"
proof -
  have f: "of_int \<lfloor>z\<rfloor> \<le> z" "z < of_int \<lfloor>z\<rfloor> + 1" using floor_correct [of z] by simp_all
  have "5 * (a - e) \<le> e + 20" if "a \<le> y" "y \<le> 6 / 5 * e + 5 / 2" for a e y :: rat using that by (simp add: field_simps)
  from this [OF f(1) assms(2)] have u: "(of_int (5 * (\<lfloor>z\<rfloor> - d)) :: rat) \<le> of_int (d + 20)" by simp
  have "- (5 * (a - e)) \<le> e + 20" if "y < a + 1" "4 / 5 * e - 5 / 2 \<le> y" for a e y :: rat using that by (simp add: field_simps)
  from this [OF f(2) assms(1)] have l: "(of_int (- (5 * (\<lfloor>z\<rfloor> - d))) :: rat) \<le> of_int (d + 20)" by simp
  from u l show ?thesis by (simp only: of_int_le_iff abs_le_iff simp_thms)
qed

text \<open>C21: The pause before a task is tried again is at most the configured maximum and lies, up to four nanoseconds, within a
  fifth of the base doubled once for every attempt before, or of the maximum where that is less; no rounding
  and no overflow of the power breaks this, as long as base and maximum are below 104 days.\<close>

theorem retry_pause_bounded:
  fixes base mx k :: int
  assumes "0 < base" and "base < 2 ^ 53" and "0 \<le> mx" and "mx < 2 ^ 53" and "0 \<le> r" and "r < 1"
  shows "0 \<le> backoff outside base mx k r \<and> backoff outside base mx k r \<le> mx
    \<and> \<bar>5 * (backoff outside base mx k r - min (base * 2 ^ nat (k - 1)) mx)\<bar> \<le> min (base * 2 ^ nat (k - 1)) mx + 20"
proof -
  let ?k = "(if k \<le> 0 then 1 else k) - 1" and ?D = "min (base * 2 ^ nat (k - 1)) mx"
  have k: "0 \<le> ?k" "nat ?k = nat (k - 1)" by simp_all
  note d1 = capped_power [OF assms(1-4) k(1), unfolded k(2)]
  have "0 < base * 2 ^ nat (k - 1)" using assms(1) by simp
  then have D: "0 \<le> ?D" "?D < 2 ^ 53" "?D = 0 \<or> 1 \<le> ?D" using assms(3,4) by linarith+
  have "(of_int ?D :: rat) < of_int (2 ^ 53)" using D(2) by (simp only: of_int_less_iff)
  then have Dr: "(0 :: rat) \<le> of_int ?D" "(of_int ?D :: rat) < 2 ^ 53" "(of_int ?D :: rat) = 0 \<or> 1 \<le> (of_int ?D :: rat)"
    using D(1,3) by (simp_all only: of_int_0_le_iff of_int_power of_int_numeral of_int_eq_0_iff of_int_1_le_iff)
  from jitter_terms [OF this assms(5,6)]
  obtain x where x: "fadd (fsub (Finite (of_int ?D)) (fmul (Finite (of_int ?D)) (round_float (1 / 5))))
      (fmul (fmul (Finite r) (Finite 2)) (fmul (Finite (of_int ?D)) (round_float (1 / 5)))) = Finite x"
    and x0: "0 \<le> x" and xe: "\<bar>x - (4 / 5 * of_int ?D + 2 / 5 * (r * of_int ?D))\<bar> \<le> 5 / 2" by blast
  have mx: "float_of_int mx = Finite (of_int mx)" using assms(3,4) by (simp add: float_of_int_exact)
  have le: "?D \<le> mx" by simp
  let ?z = "min x (of_int mx)"
  have "(of_int mx :: rat) < of_int (2 ^ 53)" using assms(4) by (simp only: of_int_less_iff)
  then have z: "0 \<le> ?z" "?z < 2 ^ 63" using x0 assms(3) by (simp_all add: min_less_iff_disj)
  have m: "(if fgreater (Finite a) (Finite b) then Finite b else Finite a) = Finite (min a b)" for a b by simp
  have b: "backoff outside base mx k r = \<lfloor>?z\<rfloor>"
    unfolding backoff_def Let_def d1 unfolding x mx m using truncated [OF z] by simp
  have rD: "0 \<le> r * of_int ?D" by (rule mult_nonneg_nonneg [OF assms(5) Dr(1)])
  have "r * of_int ?D \<le> 1 * of_int ?D" by (rule mult_right_mono [OF less_imp_le [OF assms(6)] Dr(1)])
  note rD = rD this
  have Dm: "(of_int ?D :: rat) \<le> of_int mx" using le by (simp only: of_int_le_iff)
  have "4 / 5 * of_int ?D - 5 / 2 \<le> x" "x \<le> 6 / 5 * of_int ?D + 5 / 2"
    using abs_le_D1 [OF xe] abs_le_D2 [OF xe] rD by (simp_all add: field_simps del: of_int_min)
  then have zD: "4 / 5 * of_int ?D - 5 / 2 \<le> ?z" "?z \<le> 6 / 5 * of_int ?D + 5 / 2"
    using Dm Dr(1) by (simp_all add: min_def del: of_int_min)
  note floor_near [OF zD]
  moreover have "(of_int \<lfloor>?z\<rfloor> :: rat) \<le> of_int mx" using of_int_floor_le [of ?z] by (rule order_trans) simp
  then have "\<lfloor>?z\<rfloor> \<le> mx" by (simp only: of_int_le_iff)
  ultimately show ?thesis unfolding b using z(1) by simp
qed

text \<open>Before the third try with the defaults, in the middle of the jitter.\<close>

theorem retry_pause_bounded_witness:
  "let b = backoff (\<lambda>_. 0) (wc_backoff_base (c_worker default_config)) (wc_backoff_max (c_worker default_config)) 3 (1 / 2)
   in 0 \<le> b \<and> b \<le> 10 * Second \<and> \<bar>5 * (b - 2 * Second)\<bar> \<le> 2 * Second + 20"
  using retry_pause_bounded [of "wc_backoff_base (c_worker default_config)" "wc_backoff_max (c_worker default_config)"
      "1 / 2" "\<lambda>_. 0" 3]
  by (simp add: default_config_def Millisecond_def Second_def Let_def)

text \<open>The same pause, computed with every rounding, and a maximum that no double is: the pause exceeds it by one.\<close>

lemma backoff_examples:
  "backoff (\<lambda>_. 0) (500 * Millisecond) (10 * Second) 3 (1 / 2) = 2 * Second"
  "backoff (\<lambda>_. 0) Second (2 ^ 53 + 3) 99 (3 / 4) = 2 ^ 53 + 4"
  by code_simp+

end
