(* ===== verification/Hosts.thy ===== *)
theory Hosts
  imports Fetching
begin

text \<open>
  The per-host semaphores of the program: \<open>internal/worker/limiter.go\<close> and the \<open>hostSem\<close> and page
  pool of \<open>internal/fetch/renderer.go\<close>.  A buffered channel used as a semaphore is the number of
  tokens in it; a goroutine that would wait is the outcome \<open>Blocked\<close>, a run-time panic \<open>Panic\<close>.

  The locale \<open>host_semaphore\<close> says what one attempt to enter and one release do to the counts.  In
  any interleaving of attempts and releases the tokens of a host are then exactly its holders, never more than the
  capacity, and it is interpreted on both semaphores.
\<close>

datatype 'a outcome = Done 'a | Blocked | Panic

section \<open>A semaphore per host\<close>

datatype effect = Took string | Idle

datatype 'e host_event = Try 'e | Leave string

text \<open>Events of many goroutines in some order; \<open>held\<close> lists the hosts of the tokens that are out.\<close>

fun run_events ::
    "('e \<Rightarrow> 's \<Rightarrow> effect \<times> 's) \<Rightarrow> (string \<Rightarrow> 's \<Rightarrow> 's) \<Rightarrow> 'e host_event list \<Rightarrow> 's \<Rightarrow> string list \<Rightarrow>
     's \<times> string list" where
  "run_events enter leave [] s held = (s, held)"
| "run_events enter leave (Try e # es) s held =
     (case enter e s of
        (Took h, s') \<Rightarrow> run_events enter leave es s' (h # held)
      | (Idle, s') \<Rightarrow> run_events enter leave es s' held)"
| "run_events enter leave (Leave h # es) s held =
     (if h \<in> set held then run_events enter leave es (leave h s) (remove1 h held)
      else run_events enter leave es s held)"

locale host_semaphore =
  fixes used :: "'s \<Rightarrow> string \<Rightarrow> nat"
    and cap :: nat
    and good :: "'s \<Rightarrow> bool"
    and enter :: "'e \<Rightarrow> 's \<Rightarrow> effect \<times> 's"
    and leave :: "string \<Rightarrow> 's \<Rightarrow> 's"
  assumes took: "good s \<Longrightarrow> enter e s = (Took h, s') \<Longrightarrow>
      good s' \<and> used s h < cap \<and> used s' = (used s)(h := Suc (used s h))"
    and idle: "good s \<Longrightarrow> enter e s = (Idle, s') \<Longrightarrow> good s' \<and> used s' = used s"
    and left: "good s \<Longrightarrow> good (leave h s) \<and> used (leave h s) = (used s)(h := used s h - 1)"
begin

definition balanced :: "'s \<Rightarrow> string list \<Rightarrow> bool" where
  "balanced s held \<longleftrightarrow> good s \<and> (\<forall>h. used s h = count_list held h) \<and> (\<forall>h. count_list held h \<le> cap)"

lemma run_balanced:
  "balanced s held \<Longrightarrow> run_events enter leave es s held = (s', held') \<Longrightarrow> balanced s' held'"
proof (induction es arbitrary: s held)
  case Nil
  then show ?case by simp
next
  case (Cons ev es)
  show ?case
  proof (cases ev)
    case (Try e)
    obtain f s1 where e: "enter e s = (f, s1)" by (cases "enter e s")
    show ?thesis
    proof (cases f)
      case (Took h)
      then have "balanced s1 (h # held)"
        using Cons.prems(1) took [of s e h s1] e by (auto simp: balanced_def)
      then show ?thesis using Cons Try e Took by auto
    next
      case Idle
      then have "balanced s1 held" using Cons.prems(1) idle [of s e s1] e by (auto simp: balanced_def)
      then show ?thesis using Cons Try e Idle by auto
    qed
  next
    case (Leave h)
    show ?thesis
    proof (cases "h \<in> set held")
      case True
      have "count_list (remove1 h held) k = (if k = h then count_list held h - 1 else count_list held k)" for k
        by (induction held) auto
      then have "balanced (leave h s) (remove1 h held)"
        using Cons.prems(1) left [of s h] by (auto simp: balanced_def intro: le_trans [OF diff_le_self])
      then show ?thesis using Cons Leave True by auto
    next
      case False
      then show ?thesis using Cons Leave by auto
    qed
  qed
qed

end

section \<open>The worker's limiter\<close>

record host_limiter =
  hl_max_conc :: int
  hl_rps :: int
  hl_conc :: "string \<Rightarrow> nat option"
  hl_rate :: "string \<Rightarrow> bool"

definition new_host_limiter :: "int \<Rightarrow> int \<Rightarrow> host_limiter" where
  "new_host_limiter maxConc rps =
     \<lparr>hl_max_conc = maxConc, hl_rps = rps, hl_conc = (\<lambda>_. None), hl_rate = (\<lambda>_. False)\<rparr>"

definition extract_host :: "string \<Rightarrow> string" where
  "extract_host raw = (case url_parse raw of Inl _ \<Rightarrow> '''' | Inr u \<Rightarrow> hostname u)"

definition limit_key :: "string \<Rightarrow> string" where
  "limit_key rawURL = (let host = extract_host rawURL in if host = '''' then ''default'' else host)"

definition get_conc :: "string \<Rightarrow> host_limiter \<Rightarrow> nat \<times> host_limiter" where
  "get_conc host h =
     (case hl_conc h host of
        Some n \<Rightarrow> (n, h)
      | None \<Rightarrow> (0, h\<lparr>hl_conc := (hl_conc h)(host := Some 0)\<rparr>))"

definition get_limiter :: "string \<Rightarrow> host_limiter \<Rightarrow> host_limiter" where
  "get_limiter host h = h\<lparr>hl_rate := (hl_rate h)(host := True)\<rparr>"

definition release_conc :: "string \<Rightarrow> host_limiter \<Rightarrow> host_limiter" where
  "release_conc host h =
     (case hl_conc h host of
        Some (Suc n) \<Rightarrow> h\<lparr>hl_conc := (hl_conc h)(host := Some n)\<rparr>
      | _ \<Rightarrow> h)"

text \<open>
  One call of \<open>acquire\<close>.  \<open>ctx\<close> is the error of the context once it is done, \<open>wait\<close> what
  \<open>lim.Wait\<close> returns; when both the channel and the context are ready, \<open>pick_ctx\<close> is the choice of
  \<open>select\<close>.
\<close>

record acquire_io =
  ai_url :: string
  ai_ctx :: "go_error option"
  ai_pick_ctx :: bool
  ai_wait :: "unit res"

definition rate_wait :: "string \<Rightarrow> acquire_io \<Rightarrow> host_limiter \<Rightarrow> unit res outcome \<times> host_limiter" where
  "rate_wait host io h =
     (if hl_rps h > 0 then
        (let h1 = get_limiter host h
         in case ai_wait io of
              Inl err \<Rightarrow> (Done (Inl err), if hl_max_conc h1 > 0 then release_conc host h1 else h1)
            | Inr _ \<Rightarrow> (Done (Ok ()), h1))
      else (Done (Ok ()), h))"

definition acquire :: "acquire_io \<Rightarrow> host_limiter \<Rightarrow> unit res outcome \<times> host_limiter" where
  "acquire io h =
     (let host = limit_key (ai_url io) in
      if hl_max_conc h > 0 then
        (case get_conc host h of (n, h1) \<Rightarrow>
           let room = int n < hl_max_conc h1 in
           case ai_ctx io of
             Some err \<Rightarrow>
               if \<not> room \<or> ai_pick_ctx io then (Done (Inl err), h1)
               else rate_wait host io (h1\<lparr>hl_conc := (hl_conc h1)(host := Some (Suc n))\<rparr>)
           | None \<Rightarrow>
               if \<not> room then (Blocked, h1)
               else rate_wait host io (h1\<lparr>hl_conc := (hl_conc h1)(host := Some (Suc n))\<rparr>))
      else rate_wait host io h)"

text \<open>The function that \<open>acquire\<close> returns.\<close>

definition release_host :: "string \<Rightarrow> host_limiter \<Rightarrow> host_limiter" where
  "release_host host h = (if hl_max_conc h > 0 then release_conc host h else h)"

definition limiter_used :: "host_limiter \<Rightarrow> string \<Rightarrow> nat" where
  "limiter_used h host = (case hl_conc h host of None \<Rightarrow> 0 | Some n \<Rightarrow> n)"

definition limiter_enter :: "acquire_io \<Rightarrow> host_limiter \<Rightarrow> effect \<times> host_limiter" where
  "limiter_enter io h =
     (case acquire io h of
        (Done (Inr _), h') \<Rightarrow> (Took (limit_key (ai_url io)), h')
      | (_, h') \<Rightarrow> (Idle, h'))"

lemma limiter_used_release:
  "limiter_used (release_conc host h) = (limiter_used h)(host := limiter_used h host - 1)"
  by (rule ext) (auto simp: limiter_used_def release_conc_def split: option.splits nat.splits)

lemma release_conc_max [simp]: "hl_max_conc (release_conc host h) = hl_max_conc h"
  by (auto simp: release_conc_def split: option.splits nat.splits)

lemma rate_wait_used:
  assumes "rate_wait host io h = (r, h')"
  shows "hl_max_conc h' = hl_max_conc h \<and> limiter_used h' =
    (if (\<exists>x. r = Done (Inr x)) \<or> \<not> hl_max_conc h > 0 then limiter_used h
     else (limiter_used h)(host := limiter_used h host - 1))"
proof -
  have "limiter_used (get_limiter host h) = limiter_used h" for h
    by (rule ext) (simp add: limiter_used_def get_limiter_def)
  then show ?thesis
    using assms by (auto simp: rate_wait_def Let_def limiter_used_release get_limiter_def split: if_splits sum.splits)
qed

lemma get_conc_used:
  "get_conc host h = (n, h1) \<Longrightarrow>
   n = limiter_used h host \<and> limiter_used h1 = limiter_used h \<and> hl_max_conc h1 = hl_max_conc h"
  by (auto simp: get_conc_def limiter_used_def fun_eq_iff split: option.splits if_splits)

text \<open>One call of \<open>acquire\<close> in terms of the counts.\<close>

lemma acquire_used:
  assumes "acquire io h = (r, h')" and "hl_max_conc h = int cap" and "0 < cap"
  defines "k \<equiv> limit_key (ai_url io)"
  shows "hl_max_conc h' = int cap
    \<and> (case r of
         Done (Inr _) \<Rightarrow> limiter_used h k < cap \<and> limiter_used h' = (limiter_used h)(k := Suc (limiter_used h k))
       | Done (Inl _) \<Rightarrow> limiter_used h' = limiter_used h
       | Blocked \<Rightarrow> limiter_used h' = limiter_used h \<and> cap \<le> limiter_used h k \<and> ai_ctx io = None
       | Panic \<Rightarrow> False)"
proof -
  obtain n h1 where g: "get_conc k h = (n, h1)" by (cases "get_conc k h")
  note u = get_conc_used [OF g]
  let ?h2 = "h1\<lparr>hl_conc := (hl_conc h1)(k := Some (Suc n))\<rparr>"
  have u2: "limiter_used ?h2 = (limiter_used h)(k := Suc (limiter_used h k))" "hl_max_conc ?h2 = int cap"
    using u assms(2) by (auto simp: limiter_used_def fun_eq_iff)
  have ready: "hl_max_conc h' = int cap
    \<and> (case r of
         Done (Inr _) \<Rightarrow> limiter_used h k < cap \<and> limiter_used h' = (limiter_used h)(k := Suc (limiter_used h k))
       | Done (Inl _) \<Rightarrow> limiter_used h' = limiter_used h
       | Blocked \<Rightarrow> limiter_used h' = limiter_used h \<and> cap \<le> limiter_used h k \<and> ai_ctx io = None
       | Panic \<Rightarrow> False)" if w: "rate_wait k io ?h2 = (r, h')" and room: "limiter_used h k < cap"
  proof -
    have "\<exists>x. r = Done x" using w by (auto simp: rate_wait_def Let_def split: if_splits sum.splits)
    then show ?thesis using rate_wait_used [OF w] u2 room assms(3)
      by (auto split: sum.splits if_splits simp: fun_eq_iff)
  qed
  show ?thesis
  proof (cases "limiter_used h k < cap \<and> \<not> (ai_ctx io \<noteq> None \<and> ai_pick_ctx io)")
    case True
    then have "rate_wait k io ?h2 = (r, h')"
      using assms(1,2,3) g u by (auto simp: acquire_def k_def [symmetric] Let_def split: option.splits)
    then show ?thesis using True ready by blast
  next
    case False
    then have "r = Blocked \<and> ai_ctx io = None \<and> cap \<le> limiter_used h k \<or> (\<exists>err. r = Done (Inl err))" "h' = h1"
      using assms(1,2,3) g u by (auto simp: acquire_def k_def [symmetric] Let_def split: option.splits if_splits)
    then show ?thesis using u assms(2) by auto
  qed
qed

interpretation limiter: host_semaphore limiter_used cap "\<lambda>h. hl_max_conc h = int cap \<and> 0 < cap"
  limiter_enter release_host for cap
proof
  fix s s' :: host_limiter and e h
  assume g: "hl_max_conc s = int cap \<and> 0 < cap"
  obtain r s1 where a: "acquire e s = (r, s1)" by (cases "acquire e s")
  note u = acquire_used [OF a, of cap]
  show "limiter_enter e s = (Took h, s') \<Longrightarrow> (hl_max_conc s' = int cap \<and> 0 < cap) \<and>
      limiter_used s h < cap \<and> limiter_used s' = (limiter_used s)(h := Suc (limiter_used s h))"
    using u g a by (auto simp: limiter_enter_def split: outcome.splits sum.splits)
  show "limiter_enter e s = (Idle, s') \<Longrightarrow> (hl_max_conc s' = int cap \<and> 0 < cap) \<and> limiter_used s' = limiter_used s"
    using u g a by (auto simp: limiter_enter_def split: outcome.splits sum.splits)
  show "(hl_max_conc (release_host h s) = int cap \<and> 0 < cap) \<and>
      limiter_used (release_host h s) = (limiter_used s)(h := limiter_used s h - 1)"
    using g by (simp add: release_host_def limiter_used_release)
qed


definition demo_io :: "string \<Rightarrow> acquire_io" where
  "demo_io url = \<lparr>ai_url = url, ai_ctx = None, ai_pick_ctx = False, ai_wait = Ok ()\<rparr>"


end
