(* ===== verification/Rendering.thy ===== *)
theory Rendering
  imports Hosts
begin

text \<open>
  \<open>internal/fetch/renderer.go\<close> without the browser itself: the host semaphores, the page pool and the
  control flow of \<open>Render\<close>.  What the browser answers is the argument of each operation.  The page
  pool is a buffered channel, \<open>None\<close> while it is nil.
\<close>

record page =
  pg_id :: int
  pg_acquired :: int

record renderer =
  rn_cfg :: browser_config
  rn_pool :: "page list option"
  rn_pool_cap :: nat
  rn_closed :: bool
  rn_sem :: "string \<Rightarrow> nat option"

text \<open>The loop that opens the pages of the pool; \<open>pages i\<close> is the answer to the \<open>i\<close>-th request.\<close>

fun open_pages :: "(nat \<Rightarrow> page res) \<Rightarrow> nat \<Rightarrow> nat \<Rightarrow> page list \<Rightarrow> page list res" where
  "open_pages pages i 0 ps = Ok ps"
| "open_pages pages i (Suc n) ps =
     (case pages i of Inl err \<Rightarrow> Inl err | Inr p \<Rightarrow> open_pages pages (Suc i) n (ps @ [p]))"

text \<open>The defaults of pool size and host limit are written to the local copy of the configuration.\<close>

definition new_renderer :: "browser_config \<Rightarrow> unit res \<Rightarrow> (nat \<Rightarrow> page res) \<Rightarrow> renderer res" where
  "new_renderer cfg launch pages =
     (let r = \<lparr>rn_cfg = cfg, rn_pool = None, rn_pool_cap = 0, rn_closed = False, rn_sem = (\<lambda>_. None)\<rparr> in
      if \<not> bc_enabled cfg then Ok r
      else case launch of
        Inl err \<Rightarrow> Inl err
      | Inr _ \<Rightarrow>
          (let cfg1 = (if bc_pool_size cfg \<le> 0 then cfg\<lparr>bc_pool_size := 2\<rparr> else cfg);
               cfg2 = (if bc_per_host_limit cfg1 \<le> 0 then cfg1\<lparr>bc_per_host_limit := 2\<rparr> else cfg1);
               n = nat (bc_pool_size cfg2)
           in case open_pages pages 0 n [] of
                Inl err \<Rightarrow> Inl err
              | Inr ps \<Rightarrow> Ok (r\<lparr>rn_pool := Some ps, rn_pool_cap := n\<rparr>)))"

definition close_renderer :: "renderer \<Rightarrow> renderer outcome" where
  "close_renderer r =
     (case rn_pool r of
        None \<Rightarrow> Panic
      | Some _ \<Rightarrow> if rn_closed r then Panic else Done (r\<lparr>rn_closed := True\<rparr>))"

section \<open>Host semaphores\<close>

definition sem_key :: "string \<Rightarrow> string res" where
  "sem_key rawURL =
     (case url_parse rawURL of
        Inl err \<Rightarrow> Inl err
      | Inr u \<Rightarrow> Ok (if hostname u = '''' then ''default'' else hostname u))"

record render_io =
  ri_url :: string
  ri_ctx :: "go_error option"
  ri_pick_ctx :: bool
  ri_page :: "page res"              \<comment> \<open>what \<open>newPage\<close> returns\<close>
  ri_navigate :: "unit res"
  ri_load_ok :: bool                 \<comment> \<open>whether \<open>MustWaitLoad\<close> and \<open>MustInfo\<close> do not panic\<close>
  ri_html :: "string res"
  ri_final_url :: string
  ri_now :: int

definition acquire_host :: "render_io \<Rightarrow> renderer \<Rightarrow> unit res outcome \<times> renderer" where
  "acquire_host io r =
     (case sem_key (ri_url io) of
        Inl err \<Rightarrow> (Done (Inl err), r)
      | Inr host \<Rightarrow>
          if rn_sem r host = None \<and> bc_per_host_limit (rn_cfg r) < 0 then (Panic, r)
          else
            (let n = (case rn_sem r host of None \<Rightarrow> 0 | Some k \<Rightarrow> k);
                 r1 = r\<lparr>rn_sem := (rn_sem r)(host := Some n)\<rparr>;
                 room = int n < bc_per_host_limit (rn_cfg r);
                 took = r1\<lparr>rn_sem := (rn_sem r1)(host := Some (Suc n))\<rparr>
             in case ri_ctx io of
                  Some err \<Rightarrow> if \<not> room \<or> ri_pick_ctx io then (Done (Inl err), r1) else (Done (Ok ()), took)
                | None \<Rightarrow> if \<not> room then (Blocked, r1) else (Done (Ok ()), took)))"

definition release_host_sem :: "string \<Rightarrow> renderer \<Rightarrow> renderer" where
  "release_host_sem host r =
     (case rn_sem r host of
        Some (Suc n) \<Rightarrow> r\<lparr>rn_sem := (rn_sem r)(host := Some n)\<rparr>
      | _ \<Rightarrow> r)"

section \<open>Pages\<close>

text \<open>A receive from the pool: a page, nothing ready (a nil or empty open channel), or the nil page of a
  closed and drained channel.\<close>

definition take_page :: "render_io \<Rightarrow> renderer \<Rightarrow> page res outcome \<times> renderer" where
  "take_page io r =
     (case rn_pool r of
        Some (p # ps) \<Rightarrow> (Done (Ok p), r\<lparr>rn_pool := Some ps\<rparr>)
      | Some [] \<Rightarrow> if rn_closed r then (Panic, r) else (Done (ri_page io), r)
      | None \<Rightarrow> (Done (ri_page io), r))"

definition recycle_page :: "int \<Rightarrow> page \<Rightarrow> renderer \<Rightarrow> renderer outcome" where
  "recycle_page now p r =
     (let maxLife = bc_max_page_lifetime (rn_cfg r) in
      if maxLife > 0 \<and> now - pg_acquired p > maxLife then Done r
      else if rn_closed r then Panic
      else case rn_pool r of
             None \<Rightarrow> Done r
           | Some ps \<Rightarrow> if length ps < rn_pool_cap r then Done (r\<lparr>rn_pool := Some (ps @ [p])\<rparr>) else Done r)"

text \<open>What \<open>Render\<close> makes of the page, before the deferred calls.\<close>

definition render_page :: "render_io \<Rightarrow> fetch_result res outcome" where
  "render_page io =
     (case ri_navigate io of
        Inl err \<Rightarrow> Done (Inl err)
      | Inr _ \<Rightarrow>
          if \<not> ri_load_ok io then Panic
          else case ri_html io of
            Inl err \<Rightarrow> Done (Inl err)
          | Inr html \<Rightarrow> Done (Ok \<lparr>fr_body = html, fr_final_url = ri_final_url io\<rparr>))"

text \<open>The state a panic leaves behind is not modelled: it ends the process.\<close>

definition render :: "render_io \<Rightarrow> renderer \<Rightarrow> fetch_result res outcome \<times> renderer" where
  "render io r =
     (if \<not> bc_enabled (rn_cfg r) then (Done (Fail ''renderer disabled''), r)
      else case acquire_host io r of
        (Panic, r1) \<Rightarrow> (Panic, r1)
      | (Blocked, r1) \<Rightarrow> (Blocked, r1)
      | (Done (Inl err), r1) \<Rightarrow> (Done (Inl err), r1)
      | (Done (Inr _), r1) \<Rightarrow>
          (let host = (case sem_key (ri_url io) of Inl _ \<Rightarrow> '''' | Inr h \<Rightarrow> h) in
           case take_page io r1 of
             (Done (Inr p), r2) \<Rightarrow>
               (case recycle_page (ri_now io) p r2 of
                  Done r3 \<Rightarrow> (render_page io, release_host_sem host r3)
                | _ \<Rightarrow> (Panic, r2))
           | (Done (Inl err), r2) \<Rightarrow> (Done (Inl err), release_host_sem host r2)
           | (_, r2) \<Rightarrow> (Panic, r2)))"

section \<open>Safety\<close>

definition sem_used :: "renderer \<Rightarrow> string \<Rightarrow> nat" where
  "sem_used r host = (case rn_sem r host of None \<Rightarrow> 0 | Some n \<Rightarrow> n)"

definition renderer_enter :: "render_io \<Rightarrow> renderer \<Rightarrow> effect \<times> renderer" where
  "renderer_enter io r =
     (case acquire_host io r of
        (Done (Inr _), r') \<Rightarrow> (Took (projr (sem_key (ri_url io))), r')
      | (_, r') \<Rightarrow> (Idle, r'))"

lemma acquire_host_used:
  assumes "acquire_host io r = (x, r')" and "bc_per_host_limit (rn_cfg r) = int cap"
  shows "rn_cfg r' = rn_cfg r \<and> rn_pool r' = rn_pool r \<and> rn_pool_cap r' = rn_pool_cap r \<and> rn_closed r' = rn_closed r \<and>
    (case x of
       Done (Inr _) \<Rightarrow> (\<exists>host. sem_key (ri_url io) = Ok host \<and> sem_used r host < cap \<and>
         sem_used r' = (sem_used r)(host := Suc (sem_used r host)))
     | Done (Inl _) \<Rightarrow> sem_used r' = sem_used r
     | Blocked \<Rightarrow> sem_used r' = sem_used r \<and> ri_ctx io = None \<and>
         (\<exists>host. sem_key (ri_url io) = Ok host \<and> cap \<le> sem_used r host)
     | Panic \<Rightarrow> False)"
  using assms
  by (auto simp: acquire_host_def sem_used_def fun_eq_iff Let_def
      split: sum.splits option.splits if_splits outcome.splits)

lemma release_host_sem_used:
  "sem_used (release_host_sem host r) = (sem_used r)(host := sem_used r host - 1)"
  "rn_cfg (release_host_sem host r) = rn_cfg r" "rn_pool (release_host_sem host r) = rn_pool r"
  "rn_pool_cap (release_host_sem host r) = rn_pool_cap r"
  by (auto simp: sem_used_def release_host_sem_def fun_eq_iff split: option.splits nat.splits)

interpretation page_sem: host_semaphore sem_used cap "\<lambda>r. bc_per_host_limit (rn_cfg r) = int cap"
  renderer_enter release_host_sem for cap
proof
  fix s s' :: renderer and e h
  assume g: "bc_per_host_limit (rn_cfg s) = int cap"
  obtain x s1 where a: "acquire_host e s = (x, s1)" by (cases "acquire_host e s")
  note u = acquire_host_used [OF a g]
  show "renderer_enter e s = (Took h, s') \<Longrightarrow> bc_per_host_limit (rn_cfg s') = int cap \<and>
      sem_used s h < cap \<and> sem_used s' = (sem_used s)(h := Suc (sem_used s h))"
    using u g a by (auto simp: renderer_enter_def split: outcome.splits sum.splits)
  show "renderer_enter e s = (Idle, s') \<Longrightarrow> bc_per_host_limit (rn_cfg s') = int cap \<and> sem_used s' = sem_used s"
    using u g a by (auto simp: renderer_enter_def split: outcome.splits sum.splits)
  show "bc_per_host_limit (rn_cfg (release_host_sem h s)) = int cap \<and>
      sem_used (release_host_sem h s) = (sem_used s)(h := sem_used s h - 1)"
    using g by (simp add: release_host_sem_used)
qed

text \<open>C31: However renderings of any number of goroutines enter and leave, at most \<open>per_host_limit\<close> pages of one host
  are rendered at a time, the semaphore of a host counts exactly its renderings, and a rendering
  waits only while its host is full.\<close>

theorem renderer_safe:
  assumes "new_renderer cfg launch pages = Ok r0" and "bc_per_host_limit cfg = int cap"
    and "run_events renderer_enter release_host_sem evs r0 [] = (r, held)"
  shows "count_list held host \<le> cap \<and> sem_used r host = count_list held host
    \<and> (fst (acquire_host io r) = Blocked \<longrightarrow> (\<exists>h. sem_key (ri_url io) = Ok h \<and> count_list held h = cap))"
proof -
  have r0: "rn_cfg r0 = cfg" "rn_sem r0 = (\<lambda>_. None)"
    using assms(1) by (auto simp: new_renderer_def Let_def split: if_splits sum.splits)
  have "page_sem.balanced cap r0 []"
    unfolding page_sem.balanced_def using assms(2) r0 by (simp add: sem_used_def)
  then have b: "page_sem.balanced cap r held" by (rule page_sem.run_balanced [OF _ assms(3)])
  then have b': "bc_per_host_limit (rn_cfg r) = int cap" "\<And>k. sem_used r k = count_list held k"
    "\<And>k. count_list held k \<le> cap"
    unfolding page_sem.balanced_def by auto
  obtain x r' where a: "acquire_host io r = (x, r')" by (cases "acquire_host io r")
  have "cap \<le> count_list held k \<Longrightarrow> count_list held k = cap" for k using b'(3) [of k] by simp
  then show ?thesis using b' acquire_host_used [OF a b'(1)] a by auto
qed

text \<open>C32: Every rendering that returns, with a page or with an error, has given back its host token, and the page pool
  never holds more pages than its capacity.\<close>

theorem render_gives_back:
  assumes "render io r = (Done res, r')" and "bc_per_host_limit (rn_cfg r) = int cap"
    and "\<forall>ps. rn_pool r = Some ps \<longrightarrow> length ps \<le> rn_pool_cap r"
  shows "sem_used r' = sem_used r \<and> (\<forall>ps. rn_pool r' = Some ps \<longrightarrow> length ps \<le> rn_pool_cap r')"
proof -
  obtain x r1 where a: "acquire_host io r = (x, r1)" by (cases "acquire_host io r")
  note u = acquire_host_used [OF a assms(2)]
  show ?thesis
  proof (cases "bc_enabled (rn_cfg r) \<and> (\<exists>y. x = Done (Inr y))")
    case False
    then have "sem_used r' = sem_used r \<and> rn_pool r' = rn_pool r \<and> rn_pool_cap r' = rn_pool_cap r"
      using assms(1) a u by (auto simp: render_def split: if_splits outcome.splits sum.splits)
    then show ?thesis using assms(3) by simp
  next
    case True
    then obtain host where h: "sem_key (ri_url io) = Ok host"
      "sem_used r1 = (sem_used r)(host := Suc (sem_used r host))" using u by auto
    obtain q r2 where t: "take_page io r1 = (q, r2)" by (cases "take_page io r1")
    have s2: "rn_sem r2 = rn_sem r1" "rn_cfg r2 = rn_cfg r1" "rn_pool_cap r2 = rn_pool_cap r1"
      "\<forall>ps. rn_pool r2 = Some ps \<longrightarrow> length ps \<le> rn_pool_cap r2"
      using t u assms(3) by (auto simp: take_page_def split: option.splits list.splits if_splits)
    have rel: "sem_used (release_host_sem host r3) = sem_used r" if "rn_sem r3 = rn_sem r1" for r3
    proof -
      have "sem_used r3 = sem_used r1" using that by (simp add: sem_used_def fun_eq_iff)
      then show ?thesis using h(2) by (simp add: release_host_sem_used fun_eq_iff)
    qed
    have rec: "rn_sem r3 = rn_sem r2 \<and> (\<forall>ps. rn_pool r3 = Some ps \<longrightarrow> length ps \<le> rn_pool_cap r3)"
      if "recycle_page now p r2 = Done r3" for now p r3
      using that s2(4) by (auto simp: recycle_page_def Let_def split: if_splits option.splits)
    show ?thesis
      using assms(1) a True h t s2 rel rec
      by (auto simp: render_def release_host_sem_used split: outcome.splits sum.splits)
  qed
qed

text \<open>The default of \<open>per_host_limit\<close> does not reach the semaphores: with a limit of zero every rendering of every
  URL that parses waits until its context is done, in every state that renderings can lead to.\<close>

theorem zero_host_limit_blocks:
  assumes "bc_per_host_limit (rn_cfg r) = 0" and "bc_enabled (rn_cfg r)" and "sem_key (ri_url io) = Ok host"
    and "ri_ctx io = None"
  shows "fst (render io r) = Blocked"
proof -
  have "\<not> int (case rn_sem r host of None \<Rightarrow> 0 | Some k \<Rightarrow> k) < 0" by simp
  then show ?thesis using assms by (simp add: render_def acquire_host_def Let_def)
qed

text \<open>Closing the renderer of a configuration with the browser disabled panics, because its page pool was never
  made; closing an enabled one does not.\<close>

theorem close_disabled_panics:
  assumes "new_renderer cfg launch pages = Ok r"
  shows "close_renderer r = Panic \<longleftrightarrow> \<not> bc_enabled cfg"
  using assms by (auto simp: new_renderer_def close_renderer_def Let_def split: if_splits sum.splits)

definition demo_browser :: "int \<Rightarrow> browser_config" where
  "demo_browser limit = (c_browser default_config)\<lparr>bc_pool_size := 1, bc_per_host_limit := limit\<rparr>"

definition demo_pages :: "nat \<Rightarrow> page res" where
  "demo_pages i = Ok \<lparr>pg_id = int i, pg_acquired = 0\<rparr>"

definition demo_render :: "string \<Rightarrow> render_io" where
  "demo_render url = \<lparr>ri_url = url, ri_ctx = None, ri_pick_ctx = False, ri_page = demo_pages 9, ri_navigate = Ok (),
     ri_load_ok = True, ri_html = Ok ''<p>'', ri_final_url = url, ri_now = 5\<rparr>"

definition demo_renderer :: "int \<Rightarrow> renderer" where
  "demo_renderer limit = projr (new_renderer (demo_browser limit) (Ok ()) demo_pages)"

lemma demo_renderer: "new_renderer (demo_browser limit) (Ok ()) demo_pages = Ok (demo_renderer limit)"
  by (simp add: demo_renderer_def new_renderer_def demo_browser_def default_config_def demo_pages_def Let_def)

theorem renderer_safe_witness:
  "\<exists>r held. run_events renderer_enter release_host_sem [Try (demo_render ''http://h/''), Try (demo_render ''http://h/b'')]
     (demo_renderer 1) [] = (r, held) \<and> count_list held ''h'' \<le> 1 \<and> held = [''h'']"
proof -
  let ?r = "run_events renderer_enter release_host_sem [Try (demo_render ''http://h/''), Try (demo_render ''http://h/b'')]
     (demo_renderer 1) []"
  have "snd ?r = [''h'']" by code_simp
  then have r: "?r = (fst ?r, [''h''])" by (simp add: prod_eq_iff)
  have "bc_per_host_limit (demo_browser 1) = int 1" by (simp add: demo_browser_def)
  from renderer_safe [OF demo_renderer this r, of "''h''"] have "count_list [''h''] ''h'' \<le> (1::nat)" by simp
  with r show ?thesis by auto
qed

theorem render_gives_back_witness:
  "\<exists>r'. render (demo_render ''http://h/'') (demo_renderer 1) = (Done (Ok \<lparr>fr_body = ''<p>'', fr_final_url = ''http://h/''\<rparr>), r')
     \<and> sem_used r' = sem_used (demo_renderer 1)"
proof -
  let ?r = "render (demo_render ''http://h/'') (demo_renderer 1)"
  have "fst ?r = Done (Ok \<lparr>fr_body = ''<p>'', fr_final_url = ''http://h/''\<rparr>)" by code_simp
  then have r: "?r = (Done (Ok \<lparr>fr_body = ''<p>'', fr_final_url = ''http://h/''\<rparr>), snd ?r)" by (simp add: prod_eq_iff)
  have c: "bc_per_host_limit (rn_cfg (demo_renderer 1)) = int 1" by code_simp
  have "rn_pool (demo_renderer 1) = Some [\<lparr>pg_id = 0, pg_acquired = 0\<rparr>]" "rn_pool_cap (demo_renderer 1) = 1" by code_simp+
  then have p: "\<forall>ps. rn_pool (demo_renderer 1) = Some ps \<longrightarrow> length ps \<le> rn_pool_cap (demo_renderer 1)" by simp
  from render_gives_back [OF r c p] r show ?thesis by blast
qed

theorem zero_host_limit_blocks_witness:
  "fst (render (demo_render ''http://h/'') (demo_renderer 0)) = Blocked"
proof (rule zero_host_limit_blocks)
  show "bc_per_host_limit (rn_cfg (demo_renderer 0)) = 0" by code_simp
  show "bc_enabled (rn_cfg (demo_renderer 0))" by code_simp
  show "sem_key (ri_url (demo_render ''http://h/'')) = Ok ''h''" by code_simp
  show "ri_ctx (demo_render ''http://h/'') = None" by code_simp
qed

theorem close_disabled_panics_witness:
  "close_renderer (demo_renderer 1) = Panic \<longleftrightarrow> \<not> bc_enabled (demo_browser 1)"
  by (rule close_disabled_panics [OF demo_renderer])

end
