(* ===== verification/Lifecycle.thy ===== *)
theory Lifecycle
  imports Rendering
begin

text \<open>
  The browser behind the renderer of \<open>internal/fetch/renderer.go\<close>: launch, restart, new pages, the readiness
  probe and the health loop, and \<open>Ready\<close> of \<open>fetcher.go\<close>.  Browsers are numbered by their launches; what
  the launcher and a browser answer is the argument \<open>chrome\<close>, read at the number of calls so far.  A browser
  that was closed stays in the field \<open>browser\<close> until another one is connected.
\<close>

section \<open>State and answers\<close>

record chrome =
  ch_launch :: "nat \<Rightarrow> string res"              \<comment> \<open>\<open>l.Launch\<close>\<close>
  ch_connect :: "nat \<Rightarrow> unit res"               \<comment> \<open>\<open>b.Connect\<close>\<close>
  ch_page :: "nat \<Rightarrow> nat \<Rightarrow> page res"            \<comment> \<open>\<open>browser.Page\<close>, of which browser\<close>
  ch_blank :: "nat \<Rightarrow> unit res"                 \<comment> \<open>navigating to \<open>about:blank\<close>\<close>

record browser_state =
  br_renderer :: renderer
  br_browser :: "nat option"                    \<comment> \<open>\<open>nil\<close> before the first launch\<close>
  br_closed :: "nat set"                        \<comment> \<open>the browsers told to close\<close>
  br_calls :: nat
  br_restarts :: nat                            \<comment> \<open>\<open>BrowserRestarts\<close>\<close>
  br_checks :: nat                              \<comment> \<open>\<open>BrowserHealthChecksTotal\<close>\<close>
  br_failures :: nat                            \<comment> \<open>\<open>BrowserHealthFailuresTotal\<close>\<close>
  br_health :: int                              \<comment> \<open>\<open>BrowserHealth\<close>\<close>

type_synonym 'a browser_op = "('a, browser_state) action"

definition next_call :: "browser_state \<Rightarrow> browser_state" where
  "next_call b = b\<lparr>br_calls := Suc (br_calls b)\<rparr>"

text \<open>What the launcher is told: headless or not, an executable, the flag for containers.\<close>

definition launcher_options :: "browser_config \<Rightarrow> bool \<times> string option \<times> string list" where
  "launcher_options cfg =
     (bc_headless cfg, if bc_executable_path cfg \<noteq> '''' then Some (bc_executable_path cfg) else None, [''--no-sandbox''])"

section \<open>Operations\<close>

definition launch :: "chrome \<Rightarrow> unit browser_op" where
  "launch ch b =
     (if rn_closed (br_renderer b) then (Fail ''renderer closed'', b)
      else let n = br_calls b; b1 = next_call b in
        case ch_launch ch n of
          Inl err \<Rightarrow> (Fail (''launch browser: '' @ error_text err), b1)
        | Inr url \<Rightarrow>
            (case ch_connect ch n of
               Inl err \<Rightarrow> (Fail (''connect browser: '' @ error_text err), b1)
             | Inr _ \<Rightarrow> (Ok (), b1\<lparr>br_browser := Some n\<rparr>)))"

definition close_browser :: "browser_state \<Rightarrow> browser_state" where
  "close_browser b = (case br_browser b of None \<Rightarrow> b | Some i \<Rightarrow> b\<lparr>br_closed := insert i (br_closed b)\<rparr>)"

definition restart :: "chrome \<Rightarrow> unit browser_op" where
  "restart ch b = (let b1 = close_browser b in launch ch (b1\<lparr>br_restarts := Suc (br_restarts b1)\<rparr>))"

text \<open>A request for a page to the browser that the field holds.\<close>

definition open_page :: "chrome \<Rightarrow> nat \<Rightarrow> page browser_op" where
  "open_page ch i b = (ch_page ch i (br_calls b), next_call b)"

definition new_page :: "chrome \<Rightarrow> page browser_op" where
  "new_page ch b =
     (case br_browser b of
        None \<Rightarrow> (Fail ''browser not initialized'', b)
      | Some i \<Rightarrow>
          (case open_page ch i b of
             (Inr p, b1) \<Rightarrow> (Ok p, b1)
           | (Inl _, b1) \<Rightarrow>
               (case restart ch b1 of
                  (Inl err, b2) \<Rightarrow> (Inl err, b2)
                | (Inr _, b2) \<Rightarrow> (case br_browser b2 of Some j \<Rightarrow> open_page ch j b2 | None \<Rightarrow> (Fail '''', b2)))))"

definition renderer_ready :: "chrome \<Rightarrow> unit browser_op" where
  "renderer_ready ch b =
     (case br_browser b of
        None \<Rightarrow> (Ok (), b)
      | Some i \<Rightarrow>
          if \<not> bc_enabled (rn_cfg (br_renderer b)) then (Ok (), b)
          else (case open_page ch i b of
                  (Inl err, b1) \<Rightarrow> (Inl err, b1)
                | (Inr _, b1) \<Rightarrow> (ch_blank ch (br_calls b1), next_call b1)))"

text \<open>\<open>Close\<close> with its closing of the browser.\<close>

definition shut_down :: "browser_state \<Rightarrow> browser_state outcome" where
  "shut_down b =
     (let b1 = close_browser b in
      case close_renderer (br_renderer b1) of
        Done r \<Rightarrow> Done (b1\<lparr>br_renderer := r\<rparr>) | Panic \<Rightarrow> Panic | Blocked \<Rightarrow> Blocked)"

text \<open>One tick of the health loop; \<open>False\<close> is the return from the loop.\<close>

definition health_tick :: "chrome \<Rightarrow> browser_state \<Rightarrow> bool \<times> browser_state" where
  "health_tick ch b =
     (if rn_closed (br_renderer b) then (False, b)
      else case renderer_ready ch (b\<lparr>br_checks := Suc (br_checks b)\<rparr>) of
        (Inl _, b1) \<Rightarrow>
          (True, snd (restart ch (b1\<lparr>br_health := 0, br_failures := Suc (br_failures b1), br_restarts := Suc (br_restarts b1)\<rparr>)))
      | (Inr _, b1) \<Rightarrow> (True, b1\<lparr>br_health := 1\<rparr>))"

definition health_interval :: "browser_config \<Rightarrow> duration" where
  "health_interval cfg = (if bc_max_page_lifetime cfg \<le> 0 then Minute else bc_max_page_lifetime cfg)"

text \<open>What other goroutines do between two ticks is a function on the state.\<close>

fun health_loop :: "chrome \<Rightarrow> (browser_state \<Rightarrow> browser_state) list \<Rightarrow> browser_state \<Rightarrow> browser_state" where
  "health_loop ch [] b = b"
| "health_loop ch (f # fs) b =
     (case health_tick ch (f b) of (False, b1) \<Rightarrow> b1 | (True, b1) \<Rightarrow> health_loop ch fs b1)"

text \<open>\<open>Fetcher.Ready\<close>: a rendering of \<open>about:blank\<close>.\<close>

definition fetcher_ready :: "browser_config \<Rightarrow> (string \<Rightarrow> fetch_result res) option \<Rightarrow> unit res" where
  "fetcher_ready cfg renderFn =
     (case renderFn of
        None \<Rightarrow> Ok ()
      | Some f \<Rightarrow> if \<not> bc_enabled cfg then Ok () else (case f ''about:blank'' of Inl err \<Rightarrow> Inl err | Inr _ \<Rightarrow> Ok ()))"

text \<open>\<open>NewRenderer\<close> with its launch; the requests for the pages of the pool are counted together.\<close>

definition start_renderer :: "browser_config \<Rightarrow> chrome \<Rightarrow> browser_state res" where
  "start_renderer cfg ch =
     (let r = \<lparr>rn_cfg = cfg, rn_pool = None, rn_pool_cap = 0, rn_closed = False, rn_sem = (\<lambda>_. None)\<rparr>;
          b = \<lparr>br_renderer = r, br_browser = None, br_closed = {}, br_calls = 0, br_restarts = 0, br_checks = 0,
               br_failures = 0, br_health = 0\<rparr>;
          (launched, b1) = (if bc_enabled cfg then launch ch b else (Ok (), b)) in
      case new_renderer cfg launched (\<lambda>k. ch_page ch (br_calls b) (br_calls b1 + k)) of
        Inl err \<Rightarrow> Inl err
      | Inr r' \<Rightarrow> Ok (b1\<lparr>br_renderer := r', br_calls := br_calls b1 + rn_pool_cap r'\<rparr>))"

section \<open>Live browsers\<close>

text \<open>Browsers are numbered by calls that have been made.\<close>

definition numbered :: "browser_state \<Rightarrow> bool" where
  "numbered b \<longleftrightarrow> (\<forall>i \<in> br_closed b. i < br_calls b) \<and> (\<forall>i. br_browser b = Some i \<longrightarrow> i < br_calls b)"

text \<open>What rod documents of a closed browser: its calls fail.\<close>

definition closed_fail :: "chrome \<Rightarrow> browser_state \<Rightarrow> bool" where
  "closed_fail ch b \<longleftrightarrow> (\<forall>i \<in> br_closed b. \<forall>n \<ge> br_calls b. \<not> is_ok (ch_page ch i n))"

lemma launch_cases:
  assumes "numbered b" and "launch ch b = (r, b')"
  shows "numbered b' \<and> br_renderer b' = br_renderer b \<and> br_closed b' = br_closed b \<and> br_restarts b' = br_restarts b \<and>
    (if is_ok r then \<exists>i. br_browser b' = Some i \<and> i \<notin> br_closed b' else br_browser b' = br_browser b)"
  using assms
  by (auto simp: launch_def numbered_def next_call_def is_ok_def Let_def less_Suc_eq split: if_splits sum.splits)

lemma restart_cases:
  assumes "numbered b" and "restart ch b = (r, b')"
  shows "numbered b' \<and> br_renderer b' = br_renderer b \<and> br_closed b \<subseteq> br_closed b' \<and> br_restarts b' = Suc (br_restarts b) \<and>
    (\<forall>i. br_browser b = Some i \<longrightarrow> i \<in> br_closed b') \<and>
    (if is_ok r then \<exists>i. br_browser b' = Some i \<and> i \<notin> br_closed b' else br_browser b' = br_browser b)"
proof -
  let ?b = "(close_browser b)\<lparr>br_restarts := Suc (br_restarts (close_browser b))\<rparr>"
  have "numbered ?b" using assms(1) by (auto simp: numbered_def close_browser_def split: option.splits)
  moreover have "launch ch ?b = (r, b')" using assms(2) by (simp add: restart_def Let_def)
  ultimately have l: "numbered b' \<and> br_renderer b' = br_renderer ?b \<and> br_closed b' = br_closed ?b \<and> br_restarts b' = br_restarts ?b \<and>
    (if is_ok r then \<exists>i. br_browser b' = Some i \<and> i \<notin> br_closed b' else br_browser b' = br_browser ?b)" by (rule launch_cases)
  have f: "br_renderer (close_browser b) = br_renderer b" "br_restarts (close_browser b) = br_restarts b"
    "br_browser (close_browser b) = br_browser b" "br_closed b \<subseteq> br_closed (close_browser b)"
    "\<And>i. br_browser b = Some i \<Longrightarrow> i \<in> br_closed (close_browser b)"
    by (auto simp: close_browser_def split: option.splits)
  show ?thesis using l f by auto
qed

lemma open_page_frame:
  "open_page ch i b = (r, b') \<Longrightarrow> r = ch_page ch i (br_calls b) \<and> b' = next_call b"
  "br_renderer (next_call b) = br_renderer b" "br_closed (next_call b) = br_closed b" "br_browser (next_call b) = br_browser b"
  "br_restarts (next_call b) = br_restarts b" "numbered b \<Longrightarrow> numbered (next_call b)"
  by (auto simp: open_page_def next_call_def numbered_def less_Suc_eq)

text \<open>C33: A page that \<open>newPage\<close> hands out was opened by the browser that the renderer then holds, and that browser has
  not been closed, also when the old one had died and was replaced; the browser is restarted once at most,
  and the page pool and the host semaphores are untouched.\<close>

theorem new_page_is_live:
  assumes "numbered b" and "closed_fail ch b" and "new_page ch b = (Ok p, b')"
  shows "\<exists>i n. br_browser b' = Some i \<and> i \<notin> br_closed b' \<and> ch_page ch i n = Ok p \<and>
    br_restarts b' \<le> Suc (br_restarts b) \<and> br_renderer b' = br_renderer b"
proof -
  obtain i where i: "br_browser b = Some i" using assms(3) by (auto simp: new_page_def split: option.splits)
  show ?thesis
  proof (cases "ch_page ch i (br_calls b)")
    case (Inr q)
    then have "b' = next_call b" "q = p" using assms(3) i by (auto simp: new_page_def open_page_def)
    moreover have "i \<notin> br_closed b"
    proof
      assume "i \<in> br_closed b"
      then have "\<not> is_ok (ch_page ch i (br_calls b))" using assms(2) by (simp add: closed_fail_def)
      then show False using Inr by (simp add: is_ok_def)
    qed
    ultimately show ?thesis using i Inr by (auto simp: open_page_frame)
  next
    case (Inl err)
    obtain r b2 where r: "restart ch (next_call b) = (r, b2)" by (cases "restart ch (next_call b)")
    note s = restart_cases [OF open_page_frame(6) [OF assms(1)] r]
    have ok: "is_ok r" using assms(3) i Inl r by (auto simp: new_page_def open_page_def is_ok_def split: sum.splits)
    then obtain j where j: "br_browser b2 = Some j" "j \<notin> br_closed b2" using s by auto
    then have "open_page ch j b2 = (Ok p, b')"
      using assms(3) i Inl r ok by (auto simp: new_page_def open_page_def is_ok_def split: sum.splits)
    then have "ch_page ch j (br_calls b2) = Ok p" "b' = next_call b2" by (auto simp: open_page_def)
    then show ?thesis using s j by (auto simp: open_page_frame)
  qed
qed

text \<open>A closed renderer stays down: no request for a page and no health check launches another browser, and the
  health loop ends at its next tick.\<close>

theorem closed_renderer_stays_down:
  assumes "rn_closed (br_renderer b)"
  shows "br_browser (snd (new_page ch b)) = br_browser b \<and> br_browser (snd (restart ch b)) = br_browser b
    \<and> \<not> is_ok (fst (restart ch b)) \<and> health_loop ch ((\<lambda>b. b) # fs) b = b"
  using assms
  by (auto simp: new_page_def restart_def launch_def close_browser_def open_page_def next_call_def health_tick_def is_ok_def Let_def
      split: option.splits sum.splits prod.splits)

text \<open>A health check that fails counts two restarts for the one that it makes, and it leaves the pages of the
  browser that it closes in the pool: the next rendering gets one of them.\<close>

theorem health_restart_keeps_old_pages:
  assumes "br_browser b = Some i" and "bc_enabled (rn_cfg (br_renderer b))" and "\<not> rn_closed (br_renderer b)"
    and "\<not> is_ok (fst (renderer_ready ch b))" and "rn_pool (br_renderer b) = Some (p # ps)"
  shows "br_restarts (snd (health_tick ch b)) = br_restarts b + 2 \<and> i \<in> br_closed (snd (health_tick ch b))
    \<and> fst (take_page io (br_renderer (snd (health_tick ch b)))) = Done (Ok p)"
proof -
  let ?b = "b\<lparr>br_checks := Suc (br_checks b)\<rparr>"
  obtain r b1 where p: "renderer_ready ch ?b = (r, b1)" by (cases "renderer_ready ch ?b")
  have same: "renderer_ready ch ?b = (fst (renderer_ready ch b), (snd (renderer_ready ch b))\<lparr>br_checks := Suc (br_checks b)\<rparr>)"
    using assms(1,2) by (simp add: renderer_ready_def open_page_def next_call_def split: sum.splits)
  have b1: "br_renderer b1 = br_renderer b" "br_browser b1 = br_browser b" "br_restarts b1 = br_restarts b" "\<not> is_ok r"
    using p assms(1,2,4) same by (auto simp: renderer_ready_def open_page_def next_call_def split: sum.splits)
  then show ?thesis using assms(1,3,5) p
    by (auto simp: health_tick_def is_ok_def restart_def launch_def close_browser_def next_call_def take_page_def Let_def
        split: sum.splits)
qed

section \<open>A browser that dies\<close>

text \<open>The first browser answers five calls, the next one all.\<close>

definition demo_chrome :: chrome where
  "demo_chrome = \<lparr>ch_launch = (\<lambda>_. Ok ''ws''), ch_connect = (\<lambda>_. Ok ()),
     ch_page = (\<lambda>i n. if i = 0 \<and> 5 \<le> n then Fail ''closed'' else Ok \<lparr>pg_id = int n, pg_acquired = 0\<rparr>),
     ch_blank = (\<lambda>_. Ok ())\<rparr>"

definition demo_running :: browser_state where
  "demo_running = projr (start_renderer (c_browser default_config) demo_chrome)"

lemma demo_running:
  "br_renderer demo_running = \<lparr>rn_cfg = c_browser default_config,
     rn_pool = Some (map (\<lambda>n. \<lparr>pg_id = n, pg_acquired = 0\<rparr>) [1, 2, 3, 4]), rn_pool_cap = 4, rn_closed = False, rn_sem = (\<lambda>_. None)\<rparr>"
  "br_browser demo_running = Some 0" "br_closed demo_running = {}" "br_calls demo_running = 5" "br_restarts demo_running = 0"
  "bc_enabled (rn_cfg (br_renderer demo_running))"
proof -
  have d: "demo_running = \<lparr>br_renderer = \<lparr>rn_cfg = c_browser default_config,
     rn_pool = Some (map (\<lambda>n. \<lparr>pg_id = n, pg_acquired = 0\<rparr>) [1, 2, 3, 4]), rn_pool_cap = 4, rn_closed = False, rn_sem = (\<lambda>_. None)\<rparr>,
     br_browser = Some 0, br_closed = {}, br_calls = 5, br_restarts = 0, br_checks = 0, br_failures = 0, br_health = 0\<rparr>"
    by (simp add: demo_running_def start_renderer_def new_renderer_def launch_def next_call_def demo_chrome_def
        default_config_def Let_def eval_nat_numeral)
  show "br_renderer demo_running = \<lparr>rn_cfg = c_browser default_config,
     rn_pool = Some (map (\<lambda>n. \<lparr>pg_id = n, pg_acquired = 0\<rparr>) [1, 2, 3, 4]), rn_pool_cap = 4, rn_closed = False, rn_sem = (\<lambda>_. None)\<rparr>"
    "br_browser demo_running = Some 0" "br_closed demo_running = {}" "br_calls demo_running = 5" "br_restarts demo_running = 0"
    "bc_enabled (rn_cfg (br_renderer demo_running))"
    unfolding d by (simp_all add: default_config_def)
qed

theorem new_page_is_live_witness:
  "\<exists>b'. new_page demo_chrome demo_running = (Ok \<lparr>pg_id = 7, pg_acquired = 0\<rparr>, b') \<and> br_browser b' \<noteq> Some 0"
proof -
  let ?r = "new_page demo_chrome demo_running"
  have r: "fst ?r = Ok \<lparr>pg_id = 7, pg_acquired = 0\<rparr>" "br_closed (snd ?r) = {0}"
    using demo_running
    by (simp_all add: new_page_def open_page_def restart_def close_browser_def launch_def next_call_def demo_chrome_def Let_def)
  then have e: "?r = (Ok \<lparr>pg_id = 7, pg_acquired = 0\<rparr>, snd ?r)" by (simp add: prod_eq_iff)
  have "numbered demo_running" "closed_fail demo_chrome demo_running" by (simp_all add: numbered_def closed_fail_def demo_running)
  from new_page_is_live [OF this e] r e show ?thesis by force
qed

theorem health_restart_keeps_old_pages_witness:
  "br_restarts (snd (health_tick demo_chrome demo_running)) = 2 \<and>
   fst (take_page (demo_render ''http://h/'') (br_renderer (snd (health_tick demo_chrome demo_running)))) =
     Done (Ok \<lparr>pg_id = 1, pg_acquired = 0\<rparr>)"
proof -
  have "\<not> is_ok (fst (renderer_ready demo_chrome demo_running))"
    using demo_running by (simp add: renderer_ready_def open_page_def demo_chrome_def is_ok_def)
  from health_restart_keeps_old_pages [OF demo_running(2,6) _ this] demo_running(1,5) show ?thesis by simp
qed

text \<open>\<open>hostFromURL\<close>, which labels the metrics.\<close>

definition host_from_url :: "string \<Rightarrow> string" where
  "host_from_url raw = (case url_parse raw of Inl _ \<Rightarrow> '''' | Inr u \<Rightarrow> hostname u)"

end
