(* ===== verification/Process.thy ===== *)
theory Process
  imports Lifecycle Worker Routes
begin

text \<open>
  The processes: \<open>cmd/crawler/main.go\<close>, the set-up and the probes of \<open>internal/server/server.go\<close>,
  \<open>Start\<close> of \<open>internal/worker/worker.go\<close>, \<open>internal/db/db.go\<close> and \<open>internal/migrate/migrate.go\<close>.  What the
  libraries answer (opening a pool, goose, fiber's listener) is an argument; a choice of \<open>select\<close> between
  two ready channels is an argument of type \<open>bool\<close>.
\<close>

section \<open>Database connection and migrations\<close>

record pool_settings =
  ps_max_open :: int
  ps_max_idle :: int
  ps_max_idle_time :: duration
  ps_max_lifetime :: duration

definition pool_settings_of :: "database_config \<Rightarrow> pool_settings" where
  "pool_settings_of cfg = \<lparr>ps_max_open = db_max_open_conns cfg, ps_max_idle = db_max_idle_conns cfg,
     ps_max_idle_time = db_conn_max_idle cfg, ps_max_lifetime = db_conn_max_life cfg\<rparr>"

definition db_open :: "unit res \<Rightarrow> database_config \<Rightarrow> pool_settings res" where
  "db_open opened cfg = (case opened of Inl err \<Rightarrow> Inl err | Inr _ \<Rightarrow> Ok (pool_settings_of cfg))"

text \<open>\<open>Ping\<close> gives up after two seconds.\<close>

definition db_ping :: "duration \<Rightarrow> unit res \<Rightarrow> unit res" where
  "db_ping elapsed pinged = (if 2 * Second < elapsed then Fail ''context deadline exceeded'' else pinged)"

definition migrate_run :: "unit res \<Rightarrow> unit res \<Rightarrow> unit res \<Rightarrow> unit res" where
  "migrate_run opened dialect up =
     (case opened of Inl err \<Rightarrow> Fail (''open db: '' @ error_text err)
      | Inr _ \<Rightarrow>
          (case dialect of Inl err \<Rightarrow> Fail (''set goose dialect: '' @ error_text err)
           | Inr _ \<Rightarrow>
               (case up of Inl err \<Rightarrow> Fail (''apply migrations: '' @ error_text err) | Inr _ \<Rightarrow> Ok ())))"

section \<open>Requests and probes of the server\<close>

text \<open>The request and response headers \<open>X-Request-Id\<close> and the local \<open>req_id\<close>; empty is absent.\<close>

record request_ctx =
  rc_request_header :: string
  rc_response_header :: string
  rc_local :: string

definition assign_request_id :: "string \<Rightarrow> request_ctx \<Rightarrow> request_ctx" where
  "assign_request_id uuid c =
     (let reqID = rc_request_header c;
          (reqID', c') = (if reqID = '''' then (uuid, c\<lparr>rc_request_header := uuid\<rparr>) else (reqID, c))
      in c'\<lparr>rc_response_header := reqID', rc_local := reqID'\<rparr>)"

definition req_id :: "request_ctx \<Rightarrow> string" where
  "req_id c =
     (if rc_request_header c \<noteq> '''' then rc_request_header c
      else if rc_response_header c \<noteq> '''' then rc_response_header c else '''')"

text \<open>
  What a handler returns: a response that it has written, or an error (\<open>fiber.NewError\<close>) for the error handler of the
  application, which answers with its status and its message after all middleware has returned.  Until then
  the status of the response is fasthttp's initial 200.
\<close>

datatype handled = Replied int reply_body | Text int string | Errored int string

fun status_sent :: "handled \<Rightarrow> int" where
  "status_sent (Replied status body) = status"
| "status_sent (Text status body) = status"
| "status_sent (Errored status msg) = status"

fun status_so_far :: "handled \<Rightarrow> int" where
  "status_so_far (Replied status body) = status"
| "status_so_far (Text status body) = status"
| "status_so_far (Errored status msg) = 200"

text \<open>
  The second middleware runs the rest of the chain and then counts the request under the labels \<open>ms_labels\<close> and
  writes a line; the clock gives the duration in milliseconds.
\<close>

record measured =
  ms_labels :: "string list"
  ms_line :: string
  ms_result :: handled

definition measure_request :: "(request_ctx \<Rightarrow> handled) \<Rightarrow> string \<Rightarrow> string \<Rightarrow> int \<Rightarrow> request_ctx \<Rightarrow> measured" where
  "measure_request chain path httpMethod ms c =
     (let err = chain c; status = status_so_far err
      in \<lparr>ms_labels = [path, httpMethod, int_text status],
          ms_line = ''[API] req_id='' @ req_id c @ '' method='' @ httpMethod @ '' path='' @ path
            @ '' status='' @ int_text status @ '' duration_ms='' @ int_text ms,
          ms_result = err\<rparr>)"

text \<open>The chain in the order of registration; fiber's own logger, between the second middleware and the handler, passes
  the request on.\<close>

definition serve_request ::
    "string \<Rightarrow> (request_ctx \<Rightarrow> handled) \<Rightarrow> string \<Rightarrow> string \<Rightarrow> int \<Rightarrow> request_ctx \<Rightarrow> measured \<times> request_ctx" where
  "serve_request uuid handler path httpMethod ms c =
     (let c1 = assign_request_id uuid c in (measure_request handler path httpMethod ms c1, c1))"

text \<open>The handlers of \<open>registerRoutes\<close> write their reply and return no error.\<close>

definition api_handler :: "reply \<Rightarrow> request_ctx \<Rightarrow> handled" where
  "api_handler r c = Replied (rp_status r) (rp_body r)"

text \<open>The routes in the order of registration: those of \<open>Start\<close> around those of \<open>registerRoutes\<close>.\<close>

definition api_routes :: "(string \<times> string) list" where
  "api_routes =
     map (apsnd (append ''/v1''))
       [(''POST'', ''/scrape''), (''POST'', ''/batch/scrape''), (''POST'', ''/crawl''), (''POST'', ''/map''),
        (''GET'', ''/jobs/:id''), (''GET'', ''/jobs/:id/documents''), (''GET'', ''/jobs/:id/map''), (''GET'', ''/jobs/:id/export'')]"

definition server_routes :: "(string \<times> string) list" where
  "server_routes = [(''GET'', ''/metrics'')] @ api_routes @ [(''GET'', ''/healthz''), (''GET'', ''/readyz'')]"

definition healthz :: handled where
  "healthz = Text 200 ''ok''"

definition readyz :: "unit res \<Rightarrow> chrome \<Rightarrow> browser_state \<Rightarrow> handled \<times> browser_state" where
  "readyz ping ch b =
     (case ping of
        Inl _ \<Rightarrow> (Errored 503 ''db not ready'', b)
      | Inr _ \<Rightarrow>
          (case renderer_ready ch b of
             (Inl _, b1) \<Rightarrow> (Errored 503 ''browser not ready'', b1)
           | (Inr _, b1) \<Rightarrow> (Text 200 ''ready'', b1)))"

definition not_implemented :: handled where
  "not_implemented = Errored 501 ''not implemented''"

section \<open>Services\<close>

text \<open>
  A service runs until its context is done or it fails by itself, and then runs its deferred calls.  \<open>listened\<close> is
  the error of the listener, if it comes before the context is done.
\<close>

definition close_after :: "'a \<Rightarrow> browser_state \<Rightarrow> 'a outcome" where
  "close_after result b = (case shut_down b of Done _ \<Rightarrow> Done result | Panic \<Rightarrow> Panic | Blocked \<Rightarrow> Blocked)"

definition api_result :: "go_error option \<Rightarrow> unit res \<Rightarrow> unit res" where
  "api_result listened shutdown = (case listened of Some err \<Rightarrow> Inl err | None \<Rightarrow> shutdown)"

definition start_api :: "pool_settings res \<Rightarrow> browser_state res \<Rightarrow> go_error option \<Rightarrow> unit res \<Rightarrow> unit res outcome" where
  "start_api opened started listened shutdown =
     (case opened of
        Inl err \<Rightarrow> Done (Inl err)
      | Inr _ \<Rightarrow>
          (case started of
             Inl err \<Rightarrow> Done (Inl err)
           | Inr b \<Rightarrow> close_after (api_result listened shutdown) b))"

text \<open>What the workers of one process share, and their number.\<close>

record worker_set =
  ws_limiter :: host_limiter
  ws_robots :: robots_client
  ws_fetcher :: fetcher
  ws_workers :: nat

definition worker_set_of :: "config \<Rightarrow> worker_set" where
  "worker_set_of cfg = \<lparr>ws_limiter = new_host_limiter (wc_per_host_limit (c_worker cfg)) (wc_per_host_rps (c_worker cfg)),
     ws_robots = new_robots (cc_robots_fail_open (c_crawl cfg)), ws_fetcher = worker_fetcher cfg,
     ws_workers = nat (wc_pool_size (c_worker cfg))\<rparr>"

text \<open>\<open>hostFromURL\<close> of the worker, the label of its fetch and extraction metrics.\<close>

definition worker_host_from_url :: "string \<Rightarrow> string" where
  "worker_host_from_url raw = (case url_parse raw of Inl _ \<Rightarrow> '''' | Inr u \<Rightarrow> hostname u)"

definition start_workers :: "pool_settings res \<Rightarrow> browser_state res \<Rightarrow> unit res outcome" where
  "start_workers opened started =
     (case opened of
        Inl err \<Rightarrow> Done (Inl err)
      | Inr _ \<Rightarrow> (case started of Inl err \<Rightarrow> Done (Inl err) | Inr b \<Rightarrow> close_after (Ok ()) b))"

text \<open>\<open>time.NewTicker\<close> panics on an interval that is not positive; a cleanup ends with its context's error.\<close>

definition start_cleanup :: "duration \<Rightarrow> go_error \<Rightarrow> unit res outcome" where
  "start_cleanup interval ctxErr = (if interval \<le> 0 then Panic else Done (Inl ctxErr))"

section \<open>The main program\<close>

datatype service = APIServer | WorkerPool | CleanupLoop duration

definition cleanup_services :: "config \<Rightarrow> string \<Rightarrow> service list" where
  "cleanup_services cfg mode =
     (if enabled_for (c_cleanup cfg) mode then [CleanupLoop (interval_for (c_cleanup cfg) mode)] else [])"

text \<open>The services of a mode and the capacity of the channel for their results.\<close>

definition services :: "config \<Rightarrow> string \<Rightarrow> (service list \<times> nat) option" where
  "services cfg mode =
     (if mode = ''api'' then Some ([APIServer] @ cleanup_services cfg ''api'', 2)
      else if mode = ''worker'' then Some ([WorkerPool] @ cleanup_services cfg ''worker'', 2)
      else if mode = ''all'' then Some ([APIServer, WorkerPool] @ cleanup_services cfg ''all'', 3)
      else None)"

datatype startup = Fatal string | Running "service list" nat

definition main_start :: "config res \<Rightarrow> unit res \<Rightarrow> string \<Rightarrow> startup" where
  "main_start loaded migrated mode =
     (case loaded of
        Inl err \<Rightarrow> Fatal (''load config: '' @ error_text err)
      | Inr cfg \<Rightarrow>
          (case migrated of
             Inl err \<Rightarrow> Fatal (''run migrations: '' @ error_text err)
           | Inr _ \<Rightarrow>
               (case services cfg mode of
                  None \<Rightarrow> Fatal (''unknown mode: '' @ mode)
                | Some (svcs, cap) \<Rightarrow> Running svcs cap)))"

text \<open>\<open>waitOrExit\<close>: how the process ends, \<open>None\<close> while it waits.\<close>

datatype process_end = Returns | Exits string

definition wait_or_exit :: "bool \<Rightarrow> bool \<Rightarrow> unit res option \<Rightarrow> string \<Rightarrow> process_end option" where
  "wait_or_exit pickDone ctxDone received label =
     (case received of
        None \<Rightarrow> if ctxDone then Some Returns else None
      | Some r \<Rightarrow>
          if ctxDone \<and> pickDone then Some Returns
          else (case r of Inl err \<Rightarrow> Some (Exits (''error in '' @ label @ '': '' @ error_text err)) | Inr _ \<Rightarrow> Some Returns))"

section \<open>What the processes do\<close>

text \<open>Every service of a mode can deliver its result without waiting, and the cleanup loop is among them exactly
  if it is enabled for the mode, with the mode's interval.\<close>

lemma services_spec:
  assumes "services cfg mode = Some (svcs, cap)"
  shows "length svcs \<le> cap \<and> (\<forall>d. CleanupLoop d \<in> set svcs \<longleftrightarrow>
      enabled_for (c_cleanup cfg) mode \<and> d = interval_for (c_cleanup cfg) mode)
    \<and> (APIServer \<in> set svcs \<longleftrightarrow> mode \<in> {''api'', ''all''}) \<and> (WorkerPool \<in> set svcs \<longleftrightarrow> mode \<in> {''worker'', ''all''})"
  using assms by (auto simp: services_def cleanup_services_def split: if_splits)

text \<open>Every request has an id after the first middleware, its own if it brought one, and everybody sees the same.\<close>

lemma request_id_assigned:
  "req_id (assign_request_id uuid c) = (if rc_request_header c = '''' then uuid else rc_request_header c)"
  "rc_response_header (assign_request_id uuid c) = req_id (assign_request_id uuid c)"
  "rc_local (assign_request_id uuid c) = req_id (assign_request_id uuid c)"
  by (simp_all add: assign_request_id_def req_id_def Let_def)

text \<open>The probe says that the process is ready exactly if the database answers and, unless the browser is switched off or
  was never started, a page opens and loads; no probe replaces the browser.\<close>

lemma readyz_spec:
  "status_sent (fst (readyz ping ch b)) = 200 \<longleftrightarrow> is_ok ping \<and> is_ok (fst (renderer_ready ch b))"
  "br_browser (snd (readyz ping ch b)) = br_browser b" "br_renderer (snd (readyz ping ch b)) = br_renderer b"
  by (auto simp: readyz_def is_ok_def renderer_ready_def open_page_def next_call_def split: sum.splits option.splits)

text \<open>The middleware counts every request that a handler refuses with an error as a success: a failed probe is
  answered with 503 and counted with 200.\<close>

lemma failed_probe_counted_as_200:
  assumes "\<not> is_ok ping \<or> \<not> is_ok (fst (renderer_ready ch b))"
  shows "status_sent (fst (readyz ping ch b)) = 503 \<and>
    ms_labels (fst (serve_request uuid (\<lambda>_. fst (readyz ping ch b)) ''/readyz'' ''GET'' ms c)) = [''/readyz'', ''GET'', int_text 200]"
  using assms by (auto simp: readyz_def serve_request_def measure_request_def is_ok_def Let_def split: sum.splits prod.splits)

text \<open>A request that a handler of the API answers is counted and logged with the status that its client gets, under the id
  that its client sent or that the answer carries.\<close>

lemma api_requests_traced:
  fixes c :: request_ctx
  assumes "serve_request uuid (api_handler r) path m ms c = (x, c1)"
  shows "status_sent (ms_result x) = rp_status r \<and> ms_labels x = [path, m, int_text (rp_status r)]
    \<and> (\<exists>line. ms_line x = ''[API] req_id='' @ rc_response_header c1 @ '' method='' @ line)
    \<and> rc_response_header c1 = (if rc_request_header c = '''' then uuid else rc_request_header c)"
proof -
  have c1: "c1 = assign_request_id uuid c" and x: "x = measure_request (api_handler r) path m ms c1"
    using assms by (auto simp: serve_request_def Let_def)
  have "rc_response_header c1 = req_id c1" "req_id c1 = (if rc_request_header c = '''' then uuid else rc_request_header c)"
    unfolding c1 by (rule request_id_assigned)+
  then show ?thesis by (simp add: x measure_request_def api_handler_def Let_def)
qed

lemma routes_distinct: "distinct server_routes"
  by code_simp

lemma start_renderer_pool: "start_renderer cfg ch = Ok b \<Longrightarrow> rn_pool (br_renderer b) \<noteq> None \<longleftrightarrow> bc_enabled cfg"
  "start_renderer cfg ch = Ok b \<Longrightarrow> \<not> rn_closed (br_renderer b)"
  by (auto simp: start_renderer_def new_renderer_def Let_def split: sum.splits if_splits prod.splits)

text \<open>C40: With the browser switched off, neither the server nor the workers can end: whatever ends them, a signal or a
  failing listener, their deferred \<open>Close\<close> of the renderer panics and the result is lost.  With the
  browser on, they end with that result.\<close>

theorem services_end:
  assumes "start_renderer cfg ch = Ok b"
  shows "start_api (Ok ps) (Ok b) listened shutdown =
      (if bc_enabled cfg then Done (api_result listened shutdown) else Panic)
    \<and> start_workers (Ok ps) (Ok b) = (if bc_enabled cfg then Done (Ok ()) else Panic)"
proof -
  have "br_renderer (close_browser b) = br_renderer b" by (simp add: close_browser_def split: option.splits)
  then have "close_after r b = (if bc_enabled cfg then Done r else Panic)" for r :: "unit res"
    using start_renderer_pool [OF assms]
    by (auto simp: close_after_def shut_down_def close_renderer_def Let_def split: option.splits outcome.splits)
  then show ?thesis by (simp add: start_api_def start_workers_def)
qed

theorem services_end_witness:
  "start_workers (Ok (pool_settings_of (c_database default_config)))
     (start_renderer ((c_browser default_config)\<lparr>bc_enabled := False\<rparr>) demo_chrome) = Panic"
proof -
  let ?cfg = "(c_browser default_config)\<lparr>bc_enabled := False\<rparr>"
  obtain b where b: "start_renderer ?cfg demo_chrome = Ok b"
    by (simp add: start_renderer_def new_renderer_def Let_def)
  show ?thesis using services_end [OF b, of "pool_settings_of (c_database default_config)"] b by simp
qed

text \<open>Nothing stands in the way of an interval of zero, and it ends the process.\<close>

lemma zero_interval_panics:
  "cl_interval c = 0 \<Longrightarrow> cl_api_interval c \<le> 0 \<Longrightarrow> start_cleanup (interval_for c ''api'') err = Panic"
  by (simp add: start_cleanup_def interval_for_def)

end
