(* ===== verification/Metrics.thy ===== *)
theory Metrics
  imports Hosts
begin

text \<open>
  \<open>internal/metrics/metrics.go\<close>: the collectors with their names and labels, their registration, and the calls of
  the code on them.  The registry is the list of the names it holds; registering a name twice panics, and so
  does a call with another number of label values than the collector has (both documented by prometheus).
  The counts themselves are kept by the library.
\<close>

datatype metric_kind = Counter | CounterVec | Gauge | GaugeVec | Histogram | HistogramVec

record metric =
  mt_kind :: metric_kind
  mt_name :: string
  mt_help :: string
  mt_labels :: "string list"

section \<open>The collectors\<close>

definition RequestsTotal :: metric where
  "RequestsTotal = \<lparr>mt_kind = CounterVec, mt_name = ''bytefetch_http_requests_total'',
     mt_help = ''Total HTTP requests'', mt_labels = [''path'', ''method'', ''status'']\<rparr>"

definition RequestDuration :: metric where
  "RequestDuration = \<lparr>mt_kind = HistogramVec, mt_name = ''bytefetch_http_request_duration_seconds'',
     mt_help = ''HTTP request duration'', mt_labels = [''path'', ''method'']\<rparr>"

definition WorkerTasksTotal :: metric where
  "WorkerTasksTotal = \<lparr>mt_kind = CounterVec, mt_name = ''bytefetch_worker_tasks_total'',
     mt_help = ''Worker tasks processed'', mt_labels = [''status'']\<rparr>"

definition WorkerTaskDuration :: metric where
  "WorkerTaskDuration = \<lparr>mt_kind = Histogram, mt_name = ''bytefetch_worker_task_duration_seconds'',
     mt_help = ''Duration of worker task processing'', mt_labels = []\<rparr>"

definition FetchDuration :: metric where
  "FetchDuration = \<lparr>mt_kind = HistogramVec, mt_name = ''bytefetch_fetch_duration_seconds'',
     mt_help = ''Duration of HTTP/JS fetch'', mt_labels = [''host'', ''js'']\<rparr>"

definition FetchHTTPStatus :: metric where
  "FetchHTTPStatus = \<lparr>mt_kind = CounterVec, mt_name = ''bytefetch_fetch_http_status_total'',
     mt_help = ''HTTP fetch counts by status code'', mt_labels = [''host'', ''status'']\<rparr>"

definition ExtractDuration :: metric where
  "ExtractDuration = \<lparr>mt_kind = HistogramVec, mt_name = ''bytefetch_extract_duration_seconds'',
     mt_help = ''Duration of extraction step'', mt_labels = [''host'']\<rparr>"

definition RenderDuration :: metric where
  "RenderDuration = \<lparr>mt_kind = HistogramVec, mt_name = ''bytefetch_render_duration_seconds'',
     mt_help = ''Duration of JS render via browser'', mt_labels = [''host'']\<rparr>"

definition BrowserRenderFailures :: metric where
  "BrowserRenderFailures = \<lparr>mt_kind = CounterVec, mt_name = ''bytefetch_browser_render_failures_total'',
     mt_help = ''Count of render failures by host and stage'', mt_labels = [''host'', ''stage'']\<rparr>"

definition BrowserRestarts :: metric where
  "BrowserRestarts = \<lparr>mt_kind = Counter, mt_name = ''bytefetch_browser_restarts_total'',
     mt_help = ''Total browser restart attempts'', mt_labels = []\<rparr>"

definition BrowserPoolAvailable :: metric where
  "BrowserPoolAvailable = \<lparr>mt_kind = Gauge, mt_name = ''bytefetch_browser_pool_available'',
     mt_help = ''Current available pages in the browser pool'', mt_labels = []\<rparr>"

definition BrowserPoolInUse :: metric where
  "BrowserPoolInUse = \<lparr>mt_kind = Gauge, mt_name = ''bytefetch_browser_pool_in_use'',
     mt_help = ''Pages currently leased from the browser pool'', mt_labels = []\<rparr>"

definition BrowserHostInFlight :: metric where
  "BrowserHostInFlight = \<lparr>mt_kind = GaugeVec, mt_name = ''bytefetch_browser_host_inflight'',
     mt_help = ''Current JS render usage per host'', mt_labels = [''host'']\<rparr>"

definition BrowserHealth :: metric where
  "BrowserHealth = \<lparr>mt_kind = Gauge, mt_name = ''bytefetch_browser_health'',
     mt_help = ''Browser health probe (1=ok,0=fail)'', mt_labels = []\<rparr>"

definition BrowserHealthChecksTotal :: metric where
  "BrowserHealthChecksTotal = \<lparr>mt_kind = Counter, mt_name = ''bytefetch_browser_health_checks_total'',
     mt_help = ''Number of browser pool health checks executed'', mt_labels = []\<rparr>"

definition BrowserHealthFailuresTotal :: metric where
  "BrowserHealthFailuresTotal = \<lparr>mt_kind = Counter, mt_name = ''bytefetch_browser_health_failures_total'',
     mt_help = ''Number of browser health check failures'', mt_labels = []\<rparr>"

definition CleanupRunsTotal :: metric where
  "CleanupRunsTotal = \<lparr>mt_kind = Counter, mt_name = ''bytefetch_cleanup_runs_total'',
     mt_help = ''Number of cleanup sweeps executed'', mt_labels = []\<rparr>"

definition CleanupErrorsTotal :: metric where
  "CleanupErrorsTotal = \<lparr>mt_kind = Counter, mt_name = ''bytefetch_cleanup_errors_total'',
     mt_help = ''Number of cleanup sweep errors'', mt_labels = []\<rparr>"

section \<open>Registration\<close>

definition collectors :: "metric list" where
  "collectors = [
     RequestsTotal, RequestDuration, WorkerTasksTotal, WorkerTaskDuration, FetchDuration,
     FetchHTTPStatus, ExtractDuration, RenderDuration, BrowserRenderFailures, BrowserRestarts,
     BrowserPoolAvailable, BrowserPoolInUse, BrowserHostInFlight, BrowserHealth,
     BrowserHealthChecksTotal, BrowserHealthFailuresTotal, CleanupRunsTotal, CleanupErrorsTotal]"

fun register_all :: "metric list \<Rightarrow> string list \<Rightarrow> string list outcome" where
  "register_all [] registry = Done registry"
| "register_all (m # ms) registry =
     (if mt_name m \<in> set registry then Panic else register_all ms (mt_name m # registry))"

definition must_register :: "string list \<Rightarrow> string list outcome" where
  "must_register registry = register_all collectors registry"

text \<open>\<open>WithLabelValues\<close>: the name and the label values of one series.\<close>

definition with_label_values :: "metric \<Rightarrow> string list \<Rightarrow> (string \<times> string list) outcome" where
  "with_label_values m vs = (if length vs = length (mt_labels m) then Done (mt_name m, vs) else Panic)"

lemma register_all_fresh:
  "distinct (map mt_name ms @ registry) \<Longrightarrow> register_all ms registry = Done (rev (map mt_name ms) @ registry)"
  by (induction ms arbitrary: registry) auto

lemma collectors_distinct: "distinct (map mt_name collectors)"
  by code_simp

text \<open>The names of the collectors differ, so the one registration that a process makes succeeds; a second one would end it.\<close>

lemma must_register_once:
  "must_register [] = Done (rev (map mt_name collectors))" "must_register (rev (map mt_name collectors)) = Panic"
  using register_all_fresh [of collectors "[]"] collectors_distinct
  by (simp_all add: must_register_def collectors_def)

text \<open>The calls of the server, the worker, the fetcher and the renderer pass the right number of labels.\<close>

lemma label_values_match:
  "with_label_values RequestsTotal [path, httpMethod, status] \<noteq> Panic"
  "with_label_values RequestDuration [path, httpMethod] \<noteq> Panic"
  "with_label_values WorkerTasksTotal [result] \<noteq> Panic"
  "with_label_values FetchDuration [host, js] \<noteq> Panic"
  "with_label_values ExtractDuration [host] \<noteq> Panic"
  "with_label_values BrowserRenderFailures [host, stage] \<noteq> Panic"
  "with_label_values BrowserHostInFlight [host] \<noteq> Panic"
  "with_label_values RenderDuration [host] \<noteq> Panic"
  "with_label_values FetchHTTPStatus [host, status] \<noteq> Panic"
  by (simp_all add: with_label_values_def RequestsTotal_def RequestDuration_def WorkerTasksTotal_def FetchDuration_def
      ExtractDuration_def BrowserRenderFailures_def BrowserHostInFlight_def RenderDuration_def FetchHTTPStatus_def)

end
